(* ===== verification/LapolPrelude.thy ===== *)
theory LapolPrelude
  imports Main "HOL-Library.Word" "HOL-Library.AList"
begin

text \<open>
  What every component of the development shares: JavaScript strings as lists of UTF-16 code
  units, the errors the program throws, computations that may throw, computations that also
  thread a state and may fail to return, and the JavaScript \<open>Map\<close> with its insertion order.
\<close>

named_theorems result_simps \<open>evaluation of computations that may throw\<close>
named_theorems act_simps \<open>evaluation of stateful computations\<close>
named_theorems frame_intros \<open>closure rules for relations between the states before and after\<close>

section \<open>JavaScript strings\<close>

text \<open>
  A JavaScript string is a sequence of 16-bit code units.  \<open>js\<close> embeds an ASCII literal.
\<close>

type_synonym code_unit = "16 word"
type_synonym jstr = "code_unit list"

definition js :: "string \<Rightarrow> jstr" where
  "js s = map of_char s"

lemma of_char_unit_eq_iff [simp]: "(of_char c :: code_unit) = of_char d \<longleftrightarrow> c = d"
proof
  assume eq: "(of_char c :: code_unit) = of_char d"
  have unat_of_char: "unat (of_char x :: code_unit) = of_char x" for x :: char
  proof -
    have "(of_char x :: nat) < 2 ^ LENGTH(16)"
      by (rule less_le_trans [OF nat_of_char_less_256]) simp
    then have "unat (word_of_nat (of_char x) :: code_unit) = of_char x"
      by (simp only: unat_of_nat mod_less)
    then show ?thesis by (simp only: of_nat_of_char)
  qed
  from eq have "unat (of_char c :: code_unit) = unat (of_char d :: code_unit)"
    by (rule arg_cong)
  then have "(of_char c :: nat) = of_char d"
    by (simp only: unat_of_char)
  then show "c = d" by (simp only: of_char_eq_iff)
qed simp

lemma js_eq_iff [simp]: "js s = js t \<longleftrightarrow> s = t"
  unfolding js_def by (rule inj_map_eq_map) (simp add: inj_def)

lemma js_append [simp]: "js s @ js t = js (s @ t)"
  by (simp add: js_def)

lemma js_eq_Nil [simp]: "js s = [] \<longleftrightarrow> s = []" "[] = js s \<longleftrightarrow> s = []"
  by (simp_all add: js_def)

lemma js_Nil [simp]: "js [] = []"
  by (simp add: js_def)

lemma js_append_assoc: "js s @ (js t @ u) = js (s @ t) @ u"
  by (simp add: js_def)

lemma js_disjoint: "set (js s) \<inter> set (js t) = {} \<longleftrightarrow> set s \<inter> set t = {}"
proof -
  have "inj (of_char :: char \<Rightarrow> code_unit)" by (simp add: inj_def)
  then show ?thesis by (simp add: js_def flip: image_Int)
qed

text \<open>
  \<open>String.prototype.trim\<close> removes the code units of the ECMAScript productions WhiteSpace
  and LineTerminator at both ends; all of them lie in the basic multilingual plane.
\<close>

definition is_ws_unit :: "code_unit \<Rightarrow> bool" where
  "is_ws_unit c \<longleftrightarrow>
     c \<in> {0x09, 0x0A, 0x0B, 0x0C, 0x0D, 0x20, 0xA0, 0x1680, 0x2000, 0x2001, 0x2002, 0x2003,
          0x2004, 0x2005, 0x2006, 0x2007, 0x2008, 0x2009, 0x200A, 0x2028, 0x2029, 0x202F,
          0x205F, 0x3000, 0xFEFF}"

definition js_trim :: "jstr \<Rightarrow> jstr" where
  "js_trim s = rev (dropWhile is_ws_unit (rev (dropWhile is_ws_unit s)))"

text \<open>\<open>isWhitespace\<close> of \<^verbatim>\<open>utils.ts\<close>: \<^verbatim>\<open>str.trim() === ""\<close>.\<close>

definition isWhitespace :: "jstr \<Rightarrow> bool" where
  "isWhitespace str \<longleftrightarrow> js_trim str = []"

lemma js_trim_Nil_iff: "js_trim s = [] \<longleftrightarrow> (\<forall>c \<in> set s. is_ws_unit c)"
proof -
  have "js_trim s = [] \<longleftrightarrow> (\<forall>c \<in> set (dropWhile is_ws_unit s). is_ws_unit c)"
    by (simp add: js_trim_def)
  also have "\<dots> \<longleftrightarrow> dropWhile is_ws_unit s = []"
    by (metis dropWhile_eq_Nil_conv empty_iff hd_dropWhile list.set(1) list.set_sel(1))
  finally show ?thesis by simp
qed

lemma isWhitespace_iff: "isWhitespace s \<longleftrightarrow> (\<forall>c \<in> set s. is_ws_unit c)"
  by (simp add: isWhitespace_def js_trim_Nil_iff)

lemma isWhitespace_append [simp]:
  "isWhitespace (s @ t) \<longleftrightarrow> isWhitespace s \<and> isWhitespace t"
  by (auto simp: isWhitespace_iff)

definition newline :: jstr where
  "newline = [0x0A]"

definition space :: jstr where
  "space = [0x20]"

lemma isWhitespace_newline [simp]: "isWhitespace newline"
  by (simp add: isWhitespace_iff newline_def is_ws_unit_def)

lemma isWhitespace_space [simp]: "isWhitespace space"
  by (simp add: isWhitespace_iff space_def is_ws_unit_def)

lemma newline_neq_space [simp]: "newline \<noteq> space" "space \<noteq> newline"
  by (simp_all add: newline_def space_def)

text \<open>
  A JavaScript number is passed through this program unread (the number of a square argument),
  so it is its IEEE 754 bit pattern.  The only number the program computes with is a counter
  (\<^verbatim>\<open>s.count++\<close>), which starts at 0 and sticks at \<open>2 ^ 53\<close>, where adding one rounds back.
\<close>

type_synonym js_number = "64 word"

definition js_incr :: "nat \<Rightarrow> nat" where
  "js_incr n = (if n < 2 ^ 53 then n + 1 else n)"

text \<open>\<open>Number.prototype.toString\<close> on a natural number: its decimal digits.\<close>

fun js_digits :: "nat \<Rightarrow> jstr" where
  "js_digits n =
     (if n < 10 then [word_of_nat (48 + n)]
      else js_digits (n div 10) @ [word_of_nat (48 + n mod 10)])"

declare js_digits.simps [simp del]

section \<open>Errors\<close>

text \<open>
  One constructor for each \<^verbatim>\<open>throw new LapolError(...)\<close> of the source, with the values
  that its message interpolates, grouped by the component that throws it.
\<close>

datatype name_error =
    MalformedIdentifier jstr
  | FoundChildItem jstr jstr
  | AbsoluteOutsideRoot
  | LookupItemFoundNamespace jstr jstr
  | CommandNotInEnvironment jstr

datatype command_error =
    BadCommandFunctionArity
  | CommandReturnedNonLtrf jstr
  | CurlyArgUndefined nat
  | SquareArgUndefined nat
  | KeywordArgUndefined jstr
  | FileModuleStorageNotFound jstr

datatype eval_error =
    RootMustReturnSingle
  | NestedRootUnsupported
  | OnlyEagerSupported
  | KeywordKeyNotString
  | SquareEntryNotSingle
  | CoreModuleRequired jstr

datatype core_error =
    RequireNotString
  | RequireModuleUnknown jstr
  | UsingNoThing
  | UsingThingNotString
  | UsingFromNotString
  | UsingNoAs
  | UsingAsNotString
  | UsingNotFound
  | UsingAllNoFrom
  | UsingAllFromNotString
  | UsingAllPrefixNotString
  | UsingAllFromNotNamespace

datatype process_error =
    ExpectedRootNode
  | RootHasText
  | RootHasNonDoc
  | IsBlockNotBoolean

datatype module_error =
    DrawerEntryMissing jstr
  | DrawerDuplicate jstr
  | TargetNotDeclared jstr jstr
  | InstantiatorRequired
  | InstantiatorRedefined
  | ModuleNameMismatch jstr jstr
  | LapolFolderNotConfigured
  | OutputFolderNotSet
  | NotImplemented

datatype output_error =
    NoNodeOutputter jstr jstr
  | TooManyNodeOutputters jstr jstr
  | NoStringOutputter jstr
  | TooManyStringOutputters jstr
  | RequirementInconsistent jstr jstr jstr

text \<open>
  \<open>AssertionError\<close> comes from \<^verbatim>\<open>assert\<close>, \<open>TypeError\<close> from the language itself,
  \<open>UserError\<close> from code of a user's module, \<open>IoError\<close> from an operation on files, with its
  \<^verbatim>\<open>code\<close>.  \<open>DanglingReference\<close> has no counterpart in the
  code: it marks a use of an address that the object store does not hold, which the heap
  invariant of theory \<open>Namespaces\<close> excludes.
\<close>

datatype js_error =
    AssertionError
  | TypeError
  | UserError nat
  | DanglingReference
  | NameError name_error
  | CommandError command_error
  | EvalError eval_error
  | CoreError core_error
  | ProcessError process_error
  | ModuleError module_error
  | OutputError output_error
  | IoError jstr

section \<open>Computations that may throw\<close>

type_synonym 'a result = "js_error + 'a"

definition bindR :: "'a result \<Rightarrow> ('a \<Rightarrow> 'b result) \<Rightarrow> 'b result" where
  "bindR m f = (case m of Inl e \<Rightarrow> Inl e | Inr x \<Rightarrow> f x)"

definition assertR :: "bool \<Rightarrow> unit result" where
  "assertR b = (if b then Inr () else Inl AssertionError)"

lemma bindR_simps [simp, result_simps]:
  "bindR (Inl e) f = Inl e"
  "bindR (Inr x) f = f x"
  by (simp_all add: bindR_def)

lemma bindR_Inr_right [simp]: "bindR m Inr = m"
  by (cases m) simp_all

lemma bindR_eq_Inr_iff: "bindR m f = Inr y \<longleftrightarrow> (\<exists>x. m = Inr x \<and> f x = Inr y)"
  by (cases m) auto

lemma bindR_eq_Inl_iff: "bindR m f = Inl e \<longleftrightarrow> m = Inl e \<or> (\<exists>x. m = Inr x \<and> f x = Inl e)"
  by (cases m) auto

lemma bindR_assoc: "bindR (bindR m f) g = bindR m (\<lambda>x. bindR (f x) g)"
  by (cases m) auto

lemma bindR_cong [fundef_cong]:
  "m = m' \<Longrightarrow> (\<And>x. m' = Inr x \<Longrightarrow> f x = g x) \<Longrightarrow> bindR m f = bindR m' g"
  by (cases m') auto

lemma assertR_iff [simp]:
  "assertR b = Inr u \<longleftrightarrow> b" "assertR b = Inl e \<longleftrightarrow> \<not> b \<and> e = AssertionError"
  by (auto simp: assertR_def)

lemma assertR_simps [simp]: "assertR True = Inr ()" "assertR False = Inl AssertionError"
  by (simp_all add: assertR_def)

text \<open>Array traversals that stop at the first exception.\<close>

fun mapR :: "('a \<Rightarrow> 'b result) \<Rightarrow> 'a list \<Rightarrow> 'b list result" where
  "mapR f [] = Inr []"
| "mapR f (x # xs) = bindR (f x) (\<lambda>y. bindR (mapR f xs) (\<lambda>ys. Inr (y # ys)))"

fun foldR :: "('s \<Rightarrow> 'a \<Rightarrow> 's result) \<Rightarrow> 's \<Rightarrow> 'a list \<Rightarrow> 's result" where
  "foldR f s [] = Inr s"
| "foldR f s (x # xs) = bindR (f s x) (\<lambda>s'. foldR f s' xs)"

lemma mapR_cong [fundef_cong]:
  "xs = ys \<Longrightarrow> (\<And>x. x \<in> set ys \<Longrightarrow> f x = g x) \<Longrightarrow> mapR f xs = mapR g ys"
  by (induction ys arbitrary: xs) auto

lemma mapR_eq_Inr_iff: "mapR f xs = Inr ys \<longleftrightarrow> list_all2 (\<lambda>x y. f x = Inr y) xs ys"
  by (induction xs arbitrary: ys)
    (auto simp: bindR_eq_Inr_iff list_all2_Cons1)

lemma mapR_total_iff: "(\<exists>ys. mapR f xs = Inr ys) \<longleftrightarrow> (\<forall>x \<in> set xs. \<exists>y. f x = Inr y)"
  by (induction xs) (auto simp: bindR_eq_Inr_iff)

lemma mapR_Inr_map: "(\<And>x. x \<in> set xs \<Longrightarrow> f x = Inr (g x)) \<Longrightarrow> mapR f xs = Inr (map g xs)"
  by (induction xs) auto

lemma mapR_InrD:
  assumes "mapR f xs = Inr ys" and "y \<in> set ys"
  obtains x where "x \<in> set xs" and "f x = Inr y"
  using assms by (fastforce simp: mapR_eq_Inr_iff list_all2_conv_all_nth in_set_conv_nth)

lemma list_all2_in_set:
  "list_all2 P xs ys \<Longrightarrow> y \<in> set ys \<Longrightarrow> \<exists>x \<in> set xs. P x y"
  by (induction rule: list_all2_induct) auto

lemma foldR_append: "foldR f s (xs @ ys) = bindR (foldR f s xs) (\<lambda>s'. foldR f s' ys)"
  by (induction xs arbitrary: s) (auto simp: bindR_assoc)

lemma foldR_invariant:
  assumes "foldR f s xs = Inr t" and "P s"
    and "\<And>s x s'. x \<in> set xs \<Longrightarrow> P s \<Longrightarrow> f s x = Inr s' \<Longrightarrow> P s'"
  shows "P t"
  using assms by (induction xs arbitrary: s) (auto simp: bindR_eq_Inr_iff)

section \<open>Computations that thread a state and may not return\<close>

text \<open>
  \<open>None\<close> is a computation that never returns.  An exception ends the compilation of a file,
  which drops the state, so \<open>Inl e\<close> carries none.
\<close>

type_synonym ('s, 'a) act = "'s \<Rightarrow> (js_error + 'a \<times> 's) option"

definition act_return :: "'a \<Rightarrow> ('s, 'a) act" where
  "act_return x = (\<lambda>s. Some (Inr (x, s)))"

definition act_throw :: "js_error \<Rightarrow> ('s, 'a) act" where
  "act_throw e = (\<lambda>s. Some (Inl e))"

definition act_lift :: "'a result \<Rightarrow> ('s, 'a) act" where
  "act_lift r = (\<lambda>s. Some (case r of Inl e \<Rightarrow> Inl e | Inr x \<Rightarrow> Inr (x, s)))"

definition act_bind :: "('s, 'a) act \<Rightarrow> ('a \<Rightarrow> ('s, 'b) act) \<Rightarrow> ('s, 'b) act" where
  "act_bind m f = (\<lambda>s. case m s of
       None \<Rightarrow> None
     | Some (Inl e) \<Rightarrow> Some (Inl e)
     | Some (Inr (x, s')) \<Rightarrow> f x s')"

definition act_get :: "('s \<Rightarrow> 'a) \<Rightarrow> ('s, 'a) act" where
  "act_get f = (\<lambda>s. Some (Inr (f s, s)))"

definition act_update :: "('s \<Rightarrow> 's) \<Rightarrow> ('s, unit) act" where
  "act_update f = (\<lambda>s. Some (Inr ((), f s)))"

lemma act_run [act_simps]:
  "act_return x s = Some (Inr (x, s))"
  "act_throw e s = Some (Inl e)"
  "act_lift (Inl e) s = Some (Inl e)"
  "act_lift (Inr x) s = Some (Inr (x, s))"
  "act_get g s = Some (Inr (g s, s))"
  "act_update h s = Some (Inr ((), h s))"
  by (simp_all add: act_return_def act_throw_def act_lift_def act_get_def act_update_def)

lemma act_bind_return [simp]: "act_bind (act_return x) f = f x"
  by (simp add: act_bind_def act_return_def)

lemma act_bind_throw [simp]: "act_bind (act_throw e) f = act_throw e"
  by (simp add: act_bind_def act_throw_def)

lemma act_bind_return_right [simp]: "act_bind m act_return = m"
  by (rule ext) (auto simp: act_bind_def act_return_def split: option.splits sum.splits)

lemma act_bind_assoc: "act_bind (act_bind m f) g = act_bind m (\<lambda>x. act_bind (f x) g)"
  by (rule ext) (auto simp: act_bind_def split: option.splits sum.splits)

lemma act_lift_simps [simp]:
  "act_lift (Inl e) = act_throw e" "act_lift (Inr x) = act_return x"
  by (simp_all add: fun_eq_iff act_simps)

lemma act_bind_run [act_simps]:
  "m s = None \<Longrightarrow> act_bind m f s = None"
  "m s = Some (Inl e) \<Longrightarrow> act_bind m f s = Some (Inl e)"
  "m s = Some (Inr (x, s')) \<Longrightarrow> act_bind m f s = f x s'"
  by (simp_all add: act_bind_def)

lemma act_bind_eq_None_iff:
  "act_bind m f s = None \<longleftrightarrow>
     m s = None \<or> (\<exists>x s'. m s = Some (Inr (x, s')) \<and> f x s' = None)"
  by (auto simp: act_bind_def split: option.splits sum.splits)

lemma act_bind_eq_Inr_iff:
  "act_bind m f s = Some (Inr r) \<longleftrightarrow>
     (\<exists>x s'. m s = Some (Inr (x, s')) \<and> f x s' = Some (Inr r))"
  by (auto simp: act_bind_def split: option.splits sum.splits)

lemma act_bind_eq_Inl_iff:
  "act_bind m f s = Some (Inl e) \<longleftrightarrow>
     m s = Some (Inl e) \<or> (\<exists>x s'. m s = Some (Inr (x, s')) \<and> f x s' = Some (Inl e))"
  by (auto simp: act_bind_def split: option.splits sum.splits)

text \<open>When a computation returns, and with what.\<close>

lemma act_return_Inr: "act_return x s = Some (Inr (y, s')) \<longleftrightarrow> y = x \<and> s' = s"
  by (auto simp: act_simps)

lemma act_throw_Inr: "act_throw e s \<noteq> Some (Inr (y, s'))"
  by (simp add: act_simps)

lemma act_lift_Inr: "act_lift r s = Some (Inr (y, s')) \<longleftrightarrow> r = Inr y \<and> s' = s"
  by (cases r) (auto simp: act_simps)

lemma act_get_Inr: "act_get f s = Some (Inr (y, s')) \<longleftrightarrow> y = f s \<and> s' = s"
  by (auto simp: act_simps)

lemma act_update_Inr: "act_update f s = Some (Inr (y, s')) \<longleftrightarrow> s' = f s"
  by (auto simp: act_simps)

lemmas act_Inr_iffs = act_bind_eq_Inr_iff act_return_Inr act_throw_Inr act_lift_Inr act_get_Inr
  act_update_Inr

text \<open>Left-to-right traversal of an array with effects.\<close>

fun act_map :: "('a \<Rightarrow> ('s, 'b) act) \<Rightarrow> 'a list \<Rightarrow> ('s, 'b list) act" where
  "act_map f [] = act_return []"
| "act_map f (x # xs) =
     act_bind (f x) (\<lambda>y. act_bind (act_map f xs) (\<lambda>ys. act_return (y # ys)))"

lemma act_map_append:
  "act_map f (xs @ ys) =
     act_bind (act_map f xs) (\<lambda>us. act_bind (act_map f ys) (\<lambda>vs. act_return (us @ vs)))"
  by (induction xs) (simp_all add: act_bind_assoc)

text \<open>
  A step relation between the states before and after: a locale for the relations that hold
  along every sequence of effects because they hold for each (a frame, an extension order).
  \<open>safe\<close> says that a computation started in a state satisfying \<open>inv\<close> returns or throws, and
  that when it returns, the states are related and \<open>inv\<close> holds again.
\<close>

locale effect_frame =
  fixes inv :: "'s \<Rightarrow> bool" and rel :: "'s \<Rightarrow> 's \<Rightarrow> bool"
  assumes rel_refl: "rel s s"
    and rel_trans: "rel s t \<Longrightarrow> rel t u \<Longrightarrow> rel s u"
begin

definition safe :: "('s, 'a) act \<Rightarrow> bool" where
  "safe m \<longleftrightarrow> (\<forall>s. inv s \<longrightarrow> m s \<noteq> None \<and>
     (\<forall>x s'. m s = Some (Inr (x, s')) \<longrightarrow> rel s s' \<and> inv s'))"

lemma safeI:
  assumes "\<And>s. inv s \<Longrightarrow> m s \<noteq> None"
    and "\<And>s x s'. inv s \<Longrightarrow> m s = Some (Inr (x, s')) \<Longrightarrow> rel s s' \<and> inv s'"
  shows "safe m"
  using assms by (simp add: safe_def)

lemma safe_returns: "safe m \<Longrightarrow> inv s \<Longrightarrow> m s \<noteq> None"
  by (simp add: safe_def)

lemma safe_rel: "safe m \<Longrightarrow> inv s \<Longrightarrow> m s = Some (Inr (x, s')) \<Longrightarrow> rel s s'"
  by (simp add: safe_def)

lemma safe_inv: "safe m \<Longrightarrow> inv s \<Longrightarrow> m s = Some (Inr (x, s')) \<Longrightarrow> inv s'"
  by (simp add: safe_def)

lemma safe_return: "safe (act_return x)"
  by (rule safeI) (auto simp: act_simps intro: rel_refl)

lemma safe_throw: "safe (act_throw e)"
  by (rule safeI) (auto simp: act_simps)

lemma safe_lift: "safe (act_lift r)"
  by (cases r) (simp_all add: safe_return safe_throw)

lemma safe_get: "safe (act_get f)"
  by (rule safeI) (auto simp: act_simps intro: rel_refl)

lemma safe_update: "(\<And>s. inv s \<Longrightarrow> rel s (f s) \<and> inv (f s)) \<Longrightarrow> safe (act_update f)"
  by (rule safeI) (auto simp: act_simps)

lemma safe_bind:
  assumes "safe m" and "\<And>x. safe (f x)"
  shows "safe (act_bind m f)"
proof (rule safeI)
  fix s assume "inv s"
  then show "act_bind m f s \<noteq> None"
    using assms by (auto simp: act_bind_eq_None_iff dest: safe_returns safe_inv)
next
  fix s x s' assume "inv s" and "act_bind m f s = Some (Inr (x, s'))"
  then show "rel s s' \<and> inv s'"
    unfolding act_bind_eq_Inr_iff
    using assms by (blast dest: safe_rel safe_inv intro: rel_trans)
qed

lemma safe_map: "(\<And>x. x \<in> set xs \<Longrightarrow> safe (f x)) \<Longrightarrow> safe (act_map f xs)"
  by (induction xs) (auto intro!: safe_bind safe_return)

lemma safe_if: "(b \<Longrightarrow> safe m) \<Longrightarrow> (\<not> b \<Longrightarrow> safe n) \<Longrightarrow> safe (if b then m else n)"
  by simp

lemma safe_option:
  "(x = None \<Longrightarrow> safe m) \<Longrightarrow> (\<And>y. x = Some y \<Longrightarrow> safe (f y)) \<Longrightarrow>
   safe (case x of None \<Rightarrow> m | Some y \<Rightarrow> f y)"
  by (cases x) auto

text \<open>
  What a computation keeps and yields when it returns, whether or not it does: a partial
  correctness triple with \<open>inv\<close> before and after.
\<close>

definition yields :: "('a \<Rightarrow> bool) \<Rightarrow> ('s, 'a) act \<Rightarrow> bool" where
  "yields P m \<longleftrightarrow> (\<forall>s x s'. inv s \<longrightarrow> m s = Some (Inr (x, s')) \<longrightarrow> P x \<and> rel s s' \<and> inv s')"

lemma yieldsI:
  "(\<And>s x s'. inv s \<Longrightarrow> m s = Some (Inr (x, s')) \<Longrightarrow> P x \<and> rel s s' \<and> inv s') \<Longrightarrow> yields P m"
  by (simp add: yields_def)

lemma yieldsD:
  "yields P m \<Longrightarrow> inv s \<Longrightarrow> m s = Some (Inr (x, s')) \<Longrightarrow> P x \<and> rel s s' \<and> inv s'"
  by (simp add: yields_def)

lemma yields_weaken: "yields P m \<Longrightarrow> (\<And>x. P x \<Longrightarrow> Q x) \<Longrightarrow> yields Q m"
  by (simp add: yields_def)

lemma yields_return: "P x \<Longrightarrow> yields P (act_return x)"
  by (rule yieldsI) (auto simp: act_Inr_iffs intro: rel_refl)

lemma yields_throw: "yields P (act_throw e)"
  by (rule yieldsI) (auto simp: act_Inr_iffs)

lemma yields_lift: "(\<And>x. r = Inr x \<Longrightarrow> P x) \<Longrightarrow> yields P (act_lift r)"
  by (rule yieldsI) (auto simp: act_Inr_iffs intro: rel_refl)

lemma yields_get: "(\<And>s. inv s \<Longrightarrow> P (f s)) \<Longrightarrow> yields P (act_get f)"
  by (rule yieldsI) (auto simp: act_Inr_iffs intro: rel_refl)

lemma yields_update: "(\<And>s. inv s \<Longrightarrow> rel s (f s) \<and> inv (f s)) \<Longrightarrow> yields (\<lambda>_. True) (act_update f)"
  by (rule yieldsI) (auto simp: act_Inr_iffs)

lemma yields_bind:
  assumes "yields P m" and "\<And>x. P x \<Longrightarrow> yields Q (f x)"
  shows "yields Q (act_bind m f)"
proof (rule yieldsI)
  fix s y u assume inv: "inv s" and "act_bind m f s = Some (Inr (y, u))"
  then obtain x t where m: "m s = Some (Inr (x, t))" and f: "f x t = Some (Inr (y, u))"
    by (auto simp: act_bind_eq_Inr_iff)
  from yieldsD [OF assms(1) inv m] have "P x" and st: "rel s t" and t: "inv t" by simp_all
  from yieldsD [OF assms(2) [OF this(1)] t f] rel_trans [OF st] show "Q y \<and> rel s u \<and> inv u"
    by blast
qed

lemma yields_map: "(\<And>x. x \<in> set xs \<Longrightarrow> yields P (f x)) \<Longrightarrow> yields (list_all P) (act_map f xs)"
  by (induction xs) (auto intro!: yields_bind [where P = P] yields_bind [where P = "list_all P"]
      yields_return)

text \<open>The same with a postcondition that depends on the element.\<close>

lemma yields_map_each:
  "(\<And>x. x \<in> set xs \<Longrightarrow> yields (P x) (f x)) \<Longrightarrow> yields (list_all2 P xs) (act_map f xs)"
proof (induction xs)
  case (Cons x xs)
  then show ?case
    by (auto intro!: yields_bind [where P = "P x"] yields_bind [where P = "list_all2 P xs"] yields_return)
qed (simp add: yields_return)

lemma safe_yields: "safe m \<Longrightarrow> yields (\<lambda>_. True) m"
  by (rule yieldsI) (auto dest: safe_rel safe_inv)

text \<open>A continuation need only be safe on what the first computation yields.\<close>

lemma safe_bind_yields:
  assumes "safe m" and "yields P m" and "\<And>x. P x \<Longrightarrow> safe (f x)"
  shows "safe (act_bind m f)"
proof (rule safeI)
  fix s assume "inv s"
  then show "act_bind m f s \<noteq> None"
    unfolding act_bind_eq_None_iff using assms by (meson safe_returns yieldsD)
next
  fix s x s' assume inv: "inv s" and "act_bind m f s = Some (Inr (x, s'))"
  moreover have "yields (\<lambda>_. True) (act_bind m f)"
    using assms(2,3) by (blast intro: yields_bind safe_yields)
  ultimately show "rel s s' \<and> inv s'" by (blast dest: yieldsD)
qed

text \<open>
  A total triple: started in a state satisfying \<open>inv\<close>, the computation returns something that
  satisfies \<open>P\<close>, with \<open>inv\<close> again, or throws an error in \<open>E\<close>.
\<close>

definition meets :: "(js_error \<Rightarrow> bool) \<Rightarrow> ('a \<Rightarrow> bool) \<Rightarrow> ('s, 'a) act \<Rightarrow> bool" where
  "meets E P m \<longleftrightarrow> (\<forall>s. inv s \<longrightarrow> (case m s of
       None \<Rightarrow> False
     | Some (Inl e) \<Rightarrow> E e
     | Some (Inr (x, s')) \<Rightarrow> P x \<and> inv s'))"

lemma meetsD:
  assumes "meets E P m" and "inv s"
  shows "(\<exists>e. m s = Some (Inl e) \<and> E e) \<or> (\<exists>x s'. m s = Some (Inr (x, s')) \<and> P x \<and> inv s')"
proof -
  from assms have run: "case m s of None \<Rightarrow> False | Some (Inl e) \<Rightarrow> E e
      | Some (Inr (x, s')) \<Rightarrow> P x \<and> inv s'"
    by (simp add: meets_def)
  then obtain r where r: "m s = Some r" by (cases "m s") simp_all
  show ?thesis using run by (cases r) (auto simp: r)
qed

lemma meetsI:
  assumes "\<And>s. inv s \<Longrightarrow> (\<exists>e. m s = Some (Inl e) \<and> E e) \<or>
    (\<exists>x s'. m s = Some (Inr (x, s')) \<and> P x \<and> inv s')"
  shows "meets E P m"
  unfolding meets_def
proof (intro allI impI)
  fix s assume "inv s"
  from assms [OF this] show "case m s of None \<Rightarrow> False | Some (Inl e) \<Rightarrow> E e
      | Some (Inr (x, s')) \<Rightarrow> P x \<and> inv s'"
    by auto
qed

lemma meets_return: "P x \<Longrightarrow> meets E P (act_return x)"
  by (rule meetsI) (simp add: act_simps)

lemma meets_lift: "(case r of Inl e \<Rightarrow> E e | Inr x \<Rightarrow> P x) \<Longrightarrow> meets E P (act_lift r)"
  by (rule meetsI) (cases r; simp add: act_simps)

lemma meets_get: "(\<And>s. inv s \<Longrightarrow> P (f s)) \<Longrightarrow> meets E P (act_get f)"
  by (rule meetsI) (simp add: act_simps)

lemma meets_bind:
  assumes "meets E P m" and "\<And>x. P x \<Longrightarrow> meets E Q (f x)"
  shows "meets E Q (act_bind m f)"
proof (rule meetsI)
  fix s assume "inv s"
  from meetsD [OF assms(1) this] show "(\<exists>e. act_bind m f s = Some (Inl e) \<and> E e) \<or>
      (\<exists>y s'. act_bind m f s = Some (Inr (y, s')) \<and> Q y \<and> inv s')"
  proof (elim disjE exE conjE)
    fix x s' assume "m s = Some (Inr (x, s'))" "P x" "inv s'"
    with meetsD [OF assms(2) [OF this(2)] this(3)] show ?thesis by (simp add: act_bind_def)
  qed (simp add: act_bind_def)
qed

lemma meets_map:
  "(\<And>x. x \<in> set xs \<Longrightarrow> meets E P (f x)) \<Longrightarrow> meets E (list_all P) (act_map f xs)"
  by (induction xs) (auto intro!: meets_bind [where P = P] meets_bind [where P = "list_all P"]
      meets_return)

text \<open>
  The same without the promise to return: if the computation returns, what it returns satisfies
  \<open>P\<close>, and if it throws, the error is in \<open>E\<close>.  When \<open>P\<close> cannot hold it never returns anything.
\<close>

definition may :: "(js_error \<Rightarrow> bool) \<Rightarrow> ('a \<Rightarrow> bool) \<Rightarrow> ('s, 'a) act \<Rightarrow> bool" where
  "may E P m \<longleftrightarrow> (\<forall>s. inv s \<longrightarrow> (case m s of
       None \<Rightarrow> True
     | Some (Inl e) \<Rightarrow> E e
     | Some (Inr (x, s')) \<Rightarrow> P x \<and> inv s'))"

lemma may_None: "may E P (\<lambda>_. None)"
  by (simp add: may_def)

lemma may_return: "P x \<Longrightarrow> may E P (act_return x)"
  by (simp add: may_def act_simps)

lemma meets_may: "meets E P m \<Longrightarrow> may E P m"
  by (fastforce simp: may_def meets_def split: option.splits sum.splits)

lemma may_bind:
  assumes "may E P m" and "\<And>x. P x \<Longrightarrow> may E Q (f x)"
  shows "may E Q (act_bind m f)"
  unfolding may_def
proof (intro allI impI)
  fix s assume "inv s"
  with assms(1) have run: "case m s of None \<Rightarrow> True | Some (Inl e) \<Rightarrow> E e
      | Some (Inr (x, s')) \<Rightarrow> P x \<and> inv s'"
    by (simp add: may_def)
  show "case act_bind m f s of None \<Rightarrow> True | Some (Inl e) \<Rightarrow> E e
      | Some (Inr (y, s')) \<Rightarrow> Q y \<and> inv s'"
  proof (cases "m s")
    case (Some r)
    show ?thesis
    proof (cases r)
      case (Inr y)
      with run Some assms(2) show ?thesis by (auto simp: act_bind_def may_def)
    qed (use run Some in \<open>simp add: act_bind_def\<close>)
  qed (simp add: act_bind_def)
qed

lemma may_map_each:
  "(\<And>x. x \<in> set xs \<Longrightarrow> may E (P x) (f x)) \<Longrightarrow> may E (list_all2 P xs) (act_map f xs)"
proof (induction xs)
  case (Cons x xs)
  then show ?case
    by (auto intro!: may_bind [where P = "P x"] may_bind [where P = "list_all2 P xs"] may_return)
qed (simp add: may_return)

lemmas safe_intros = safe_bind safe_return safe_throw safe_lift safe_get safe_map safe_if
  safe_option

end

section \<open>JavaScript maps\<close>

text \<open>
  A \<open>Map\<close> keeps its keys in insertion order, and setting a key it holds replaces the value
  in place: an association list with \<open>map_of\<close> as \<open>get\<close> and \<open>AList.update\<close> as \<open>set\<close>.
\<close>

type_synonym 'v jmap = "(jstr \<times> 'v) list"

abbreviation jmap_get :: "'v jmap \<Rightarrow> jstr \<Rightarrow> 'v option" where
  "jmap_get m k \<equiv> map_of m k"

abbreviation jmap_set :: "jstr \<Rightarrow> 'v \<Rightarrow> 'v jmap \<Rightarrow> 'v jmap" where
  "jmap_set k v m \<equiv> AList.update k v m"

definition jmap_has :: "'v jmap \<Rightarrow> jstr \<Rightarrow> bool" where
  "jmap_has m k \<longleftrightarrow> jmap_get m k \<noteq> None"

definition jmap_keys :: "'v jmap \<Rightarrow> jstr list" where
  "jmap_keys m = map fst m"

text \<open>What the clients of a \<open>Map\<close> rely on, and what they derive from it.\<close>

locale js_map =
  fixes get :: "'m \<Rightarrow> 'k \<Rightarrow> 'v option"
    and set :: "'k \<Rightarrow> 'v \<Rightarrow> 'm \<Rightarrow> 'm"
    and has :: "'m \<Rightarrow> 'k \<Rightarrow> bool"
    and keys :: "'m \<Rightarrow> 'k list"
  assumes get_set: "get (set k v m) k' = (if k' = k then Some v else get m k')"
    and has_iff: "has m k \<longleftrightarrow> get m k \<noteq> None"
    and in_keys_iff: "k \<in> List.set (keys m) \<longleftrightarrow> has m k"
    and keys_set: "keys (set k v m) = (if has m k then keys m else keys m @ [k])"
begin

lemma get_set_same [simp]: "get (set k v m) k = Some v"
  by (simp add: get_set)

lemma get_set_other: "k' \<noteq> k \<Longrightarrow> get (set k v m) k' = get m k'"
  by (simp add: get_set)

lemma has_set: "has (set k v m) k' \<longleftrightarrow> k' = k \<or> has m k'"
  by (simp add: has_iff get_set)

lemma distinct_keys_set: "distinct (keys m) \<Longrightarrow> distinct (keys (set k v m))"
  by (simp add: keys_set in_keys_iff)

text \<open>Adding a key that is not held keeps every binding that was there.\<close>

lemma add_keeps: "\<not> has m k \<Longrightarrow> get m k' = Some x \<Longrightarrow> get (set k v m) k' = Some x"
  by (auto simp: get_set has_iff)

lemma set_same_twice: "get (set k w (set k v m)) k' = get (set k w m) k'"
  by (simp add: get_set)

end

interpretation jm: js_map map_of AList.update jmap_has jmap_keys
proof
  fix k k' :: jstr and v :: 'a and m :: "'a jmap"
  show "map_of (AList.update k v m) k' = (if k' = k then Some v else map_of m k')"
    by (simp add: update_conv')
  show "jmap_has m k \<longleftrightarrow> map_of m k \<noteq> None"
    by (simp add: jmap_has_def)
  show "k \<in> set (jmap_keys m) \<longleftrightarrow> jmap_has m k"
    by (force simp: jmap_keys_def jmap_has_def map_of_eq_None_iff)
  show "jmap_keys (AList.update k v m) =
      (if jmap_has m k then jmap_keys m else jmap_keys m @ [k])"
    by (auto simp: jmap_keys_def jmap_has_def update_keys map_of_eq_None_iff)
qed

lemma jmap_set_new: "\<not> jmap_has m k \<Longrightarrow> jmap_set k v m = m @ [(k, v)]"
  by (induction m) (auto simp: jmap_has_def split: if_splits)

text \<open>Reading an array at an index: \<open>undefined\<close> outside its bounds.\<close>

definition js_index :: "'a list \<Rightarrow> nat \<Rightarrow> 'a option" where
  "js_index xs i = (if i < length xs then Some (xs ! i) else None)"

lemma js_index_simps [simp]:
  "js_index [] i = None"
  "js_index (x # xs) 0 = Some x"
  "js_index (x # xs) (Suc i) = js_index xs i"
  by (simp_all add: js_index_def)

section \<open>Lists and sums\<close>

text \<open>A list after an update at one position.\<close>

lemma map_update_same: "f y = f (xs ! i) \<Longrightarrow> map f (xs[i := y]) = map f xs"
  by (induction xs arbitrary: i) (auto split: nat.split)

lemma bex_set_nth:
  "k < length xs \<Longrightarrow> (\<exists>x \<in> set xs. Q x) \<longleftrightarrow> (\<exists>j < length xs. j \<noteq> k \<and> Q (xs ! j)) \<or> Q (xs ! k)"
  by (metis in_set_conv_nth)

lemma bex_set_update:
  "k < length xs \<Longrightarrow>
   (\<exists>x \<in> set (xs[k := y]). Q x) \<longleftrightarrow> (\<exists>j < length xs. j \<noteq> k \<and> Q (xs ! j)) \<or> Q y"
  using bex_set_nth [of k "xs[k := y]" Q] by auto

lemma sum_list_update_less:
  "i < length xs \<Longrightarrow> f y < f (xs ! i) \<Longrightarrow>
   sum_list (map f (xs[i := y])) < (sum_list (map f xs) :: nat)"
  by (induction xs arbitrary: i) (auto split: nat.split)

lemma sum_list_update_same:
  "f y = f (xs ! i) \<Longrightarrow> sum_list (map f (xs[i := y])) = (sum_list (map f xs) :: nat)"
  by (simp add: map_update_same)

lemma map_sum_const: "map_sum f (\<lambda>_. a) z = Inr b \<longleftrightarrow> (\<exists>x. z = Inr x) \<and> a = b"
  by (cases z) auto

end
