(* ===== verification/Ast.thy ===== *)
theory Ast
  imports LapolPrelude
begin

text \<open>
  The syntax tree that the parser hands over (\<^verbatim>\<open>internal/ast.ts\<close>), and the warnings about the
  children of its root (\<^verbatim>\<open>internal/evaluate/root.ts\<close>).
\<close>

section \<open>Syntax trees\<close>

record ast_meta =
  startOffset :: int
  startLine :: int
  startCol :: int

text \<open>
  A keyword argument is an array of entries, of which the evaluator takes the first two; an
  absent list of square arguments is \<^verbatim>\<open>null\<close>.
\<close>

datatype ast_node =
    AstTextNode jstr ast_meta
  | AstCommandNode jstr "square_arg list option" "ast_node list list" ast_meta
  | AstRootNode "ast_node list" ast_meta
and square_arg =
    ArgVal square_entry
  | ArgKeyVal "square_entry list"
and square_entry =
    EntryNum js_number
  | EntryIdent jstr
  | EntryBool bool
  | EntryQuotedStr jstr
  | EntryAstNode ast_node

section \<open>Warnings about the root\<close>

datatype root_warning =
    RootHasDirectText
  | RootHasNoDoc
  | TwoDocs
  | NonWhitespaceAfterDoc

definition isDocNode :: "ast_node \<Rightarrow> bool" where
  "isDocNode n = (case n of AstCommandNode name _ _ _ \<Rightarrow> name = js ''__doc'' | _ \<Rightarrow> False)"

definition is_blank_text :: "ast_node \<Rightarrow> bool" where
  "is_blank_text n = (case n of AstTextNode c _ \<Rightarrow> isWhitespace c | _ \<Rightarrow> False)"

definition is_direct_text :: "ast_node \<Rightarrow> bool" where
  "is_direct_text n = (case n of AstTextNode c _ \<Rightarrow> \<not> isWhitespace c | _ \<Rightarrow> False)"

text \<open>\<^verbatim>\<open>findIndex\<close>, and the \<^verbatim>\<open>map(f).reduce((a, b) => a || b, false)\<close> of the source.\<close>

fun findIndex :: "('a \<Rightarrow> bool) \<Rightarrow> 'a list \<Rightarrow> nat option" where
  "findIndex p [] = None"
| "findIndex p (x # xs) = (if p x then Some 0 else map_option Suc (findIndex p xs))"

definition reduce_or :: "bool list \<Rightarrow> bool" where
  "reduce_or bs = foldl (\<lambda>a b. a \<or> b) False bs"

text \<open>The lines the function prints on the console, in their order.\<close>

definition warnUserOfIssuesWithRootNode :: "ast_node list \<Rightarrow> root_warning list" where
  "warnUserOfIssuesWithRootNode subNodes =
     (if reduce_or (map is_direct_text subNodes) then [RootHasDirectText] else []) @
     (case findIndex isDocNode subNodes of
        None \<Rightarrow> [RootHasNoDoc]
      | Some docIndex \<Rightarrow>
          (if reduce_or (map isDocNode (drop (docIndex + 1) subNodes)) then [TwoDocs] else []) @
          (if reduce_or (map (\<lambda>n. \<not> is_blank_text n) (drop (docIndex + 1) subNodes))
           then [NonWhitespaceAfterDoc] else []))"

lemma reduce_or_iff: "reduce_or bs \<longleftrightarrow> True \<in> set bs"
proof -
  have "foldl (\<lambda>a b. a \<or> b) a bs \<longleftrightarrow> a \<or> True \<in> set bs" for a
    by (induction bs arbitrary: a) auto
  then show ?thesis by (simp add: reduce_or_def)
qed

lemma reduce_or_map [simp]: "reduce_or (map p xs) \<longleftrightarrow> (\<exists>x \<in> set xs. p x)"
  by (auto simp: reduce_or_iff image_iff)

lemma findIndex_append:
  "p x \<Longrightarrow> \<forall>y \<in> set ys. \<not> p y \<Longrightarrow> findIndex p (ys @ x # zs) = Some (length ys)"
  by (induction ys) auto

lemma findIndex_Some:
  "findIndex p xs = Some i \<Longrightarrow>
     \<exists>ys x zs. xs = ys @ x # zs \<and> length ys = i \<and> p x \<and> (\<forall>y \<in> set ys. \<not> p y)"
proof (induction xs arbitrary: i)
  case (Cons a xs)
  show ?case
  proof (cases "p a")
    case True
    with Cons.prems have "a # xs = [] @ a # xs \<and> length [] = i \<and> p a" by simp
    then show ?thesis by (metis empty_iff list.set(1))
  next
    case False
    with Cons.prems obtain j where j: "findIndex p xs = Some j" and i: "i = Suc j" by auto
    from Cons.IH [OF j] obtain ys x zs where "xs = ys @ x # zs" "length ys = j" "p x"
      "\<forall>y \<in> set ys. \<not> p y"
      by blast
    with False i have "a # xs = (a # ys) @ x # zs \<and> length (a # ys) = i \<and> p x \<and>
        (\<forall>y \<in> set (a # ys). \<not> p y)"
      by simp
    then show ?thesis by blast
  qed
qed simp

lemma findIndex_None: "findIndex p xs = None \<longleftrightarrow> (\<forall>x \<in> set xs. \<not> p x)"
  by (induction xs) auto

text \<open>
  No warning is printed exactly for a root of the expected form: no text but whitespace,
  any commands, then one \<^verbatim>\<open>__doc\<close>, then whitespace only.
\<close>

lemma no_root_warnings_iff:
  "warnUserOfIssuesWithRootNode ns = [] \<longleftrightarrow>
    (\<exists>before doc after. ns = before @ doc # after \<and> isDocNode doc \<and>
      list_all (\<lambda>n. \<not> isDocNode n \<and> \<not> is_direct_text n) before \<and>
      list_all is_blank_text after)"
proof
  assume none: "warnUserOfIssuesWithRootNode ns = []"
  then obtain i where i: "findIndex isDocNode ns = Some i"
    by (cases "findIndex isDocNode ns") (auto simp: warnUserOfIssuesWithRootNode_def)
  obtain before doc after where ns: "ns = before @ doc # after" and len: "length before = i"
    and doc: "isDocNode doc" and first: "\<forall>y \<in> set before. \<not> isDocNode y"
    using findIndex_Some [OF i] by blast
  have "drop (i + 1) ns = after" using ns len by simp
  with none i have "\<forall>n \<in> set ns. \<not> is_direct_text n" and "\<forall>n \<in> set after. is_blank_text n"
    by (auto simp: warnUserOfIssuesWithRootNode_def split: if_splits)
  with ns doc first show "\<exists>before doc after. ns = before @ doc # after \<and> isDocNode doc \<and>
      list_all (\<lambda>n. \<not> isDocNode n \<and> \<not> is_direct_text n) before \<and> list_all is_blank_text after"
    by (fastforce simp: list_all_iff)
next
  assume "\<exists>before doc after. ns = before @ doc # after \<and> isDocNode doc \<and>
      list_all (\<lambda>n. \<not> isDocNode n \<and> \<not> is_direct_text n) before \<and> list_all is_blank_text after"
  then obtain before doc after where ns: "ns = before @ doc # after" and doc: "isDocNode doc"
    and before: "\<forall>n \<in> set before. \<not> isDocNode n \<and> \<not> is_direct_text n"
    and after: "\<forall>n \<in> set after. is_blank_text n"
    by (auto simp: list_all_iff)
  have i: "findIndex isDocNode ns = Some (length before)"
    unfolding ns by (rule findIndex_append) (use doc before in auto)
  have blank: "is_blank_text n \<Longrightarrow> \<not> isDocNode n \<and> \<not> is_direct_text n" for n
    by (auto simp: is_blank_text_def isDocNode_def is_direct_text_def split: ast_node.splits)
  have "\<not> is_direct_text doc"
    using doc by (auto simp: isDocNode_def is_direct_text_def split: ast_node.splits)
  with before after blank have "\<forall>n \<in> set ns. \<not> is_direct_text n" by (auto simp: ns)
  moreover have "\<forall>n \<in> set after. \<not> isDocNode n" using after blank by blast
  moreover have drop: "drop (Suc (length before)) ns = after" by (simp add: ns)
  ultimately show "warnUserOfIssuesWithRootNode ns = []"
    using after drop by (simp add: warnUserOfIssuesWithRootNode_def i)
qed

end
