(* ===== verification/Ltrf.thy ===== *)
theory Ltrf
  imports LapolPrelude
begin

text \<open>
  The LaPoL text representation format (\<^verbatim>\<open>internal/ltrf/ltrf.ts\<close>): the immutable tree that
  evaluation produces, processing rewrites and output reads.
\<close>

section \<open>Objects and nodes\<close>

text \<open>
  A value of the type \<^verbatim>\<open>unknown\<close> in a node's key-value record.  \<open>JOther\<close> stands for an
  object or function, of which the program only sees that it is none of the others.
\<close>

datatype js_val =
    JUndefined
  | JNull
  | JBool bool
  | JNumber js_number
  | JString jstr
  | JOther nat

datatype 'n ltrf_obj_of = LtrfStr jstr | Nd 'n

datatype ltrf_node =
  LtrfNode (node_tag: jstr) (node_kv: "js_val jmap") (node_elems: "ltrf_node ltrf_obj_of list")

type_synonym ltrf_obj = "ltrf_node ltrf_obj_of"

lemma ltrf_node_induct [case_names LtrfNode, induct type: ltrf_node]:
  assumes "\<And>t kv es. (\<And>m. Nd m \<in> set es \<Longrightarrow> P m) \<Longrightarrow> P (LtrfNode t kv es)"
  shows "P n"
  by (induction n rule: ltrf_node.induct) (auto intro: assms)

definition ltrf_make :: "jstr \<Rightarrow> js_val jmap \<Rightarrow> ltrf_obj list \<Rightarrow> ltrf_node" where
  "ltrf_make tag kv cont = LtrfNode tag kv cont"

definition withTag :: "ltrf_node \<Rightarrow> jstr \<Rightarrow> ltrf_node" where
  "withTag n newTag = ltrf_make newTag (node_kv n) (node_elems n)"

definition updateTag :: "ltrf_node \<Rightarrow> (jstr \<Rightarrow> jstr) \<Rightarrow> ltrf_node" where
  "updateTag n f = ltrf_make (f (node_tag n)) (node_kv n) (node_elems n)"

definition withKv :: "ltrf_node \<Rightarrow> js_val jmap \<Rightarrow> ltrf_node" where
  "withKv n newKv = ltrf_make (node_tag n) newKv (node_elems n)"

definition updateKv :: "ltrf_node \<Rightarrow> (js_val jmap \<Rightarrow> js_val jmap) \<Rightarrow> ltrf_node" where
  "updateKv n f = ltrf_make (node_tag n) (f (node_kv n)) (node_elems n)"

definition withElems :: "ltrf_node \<Rightarrow> ltrf_obj list \<Rightarrow> ltrf_node" where
  "withElems n newElems = ltrf_make (node_tag n) (node_kv n) newElems"

definition updateElems :: "ltrf_node \<Rightarrow> (ltrf_obj list \<Rightarrow> ltrf_obj list) \<Rightarrow> ltrf_node" where
  "updateElems n f = ltrf_make (node_tag n) (node_kv n) (f (node_elems n))"

text \<open>\<^verbatim>\<open>Array.map\<close> and \<^verbatim>\<open>Array.flatMap\<close> hand the callback the element, its index and the array.\<close>

definition js_array_map :: "('a \<Rightarrow> nat \<Rightarrow> 'a list \<Rightarrow> 'b) \<Rightarrow> 'a list \<Rightarrow> 'b list" where
  "js_array_map f xs = map (\<lambda>(i, el). f el i xs) (enumerate 0 xs)"

definition js_array_flatMap :: "('a \<Rightarrow> nat \<Rightarrow> 'a list \<Rightarrow> 'b list) \<Rightarrow> 'a list \<Rightarrow> 'b list" where
  "js_array_flatMap f xs = concat (js_array_map f xs)"

definition mapElems ::
  "ltrf_node \<Rightarrow> (ltrf_obj \<Rightarrow> nat \<Rightarrow> ltrf_obj list \<Rightarrow> ltrf_obj) \<Rightarrow> ltrf_node" where
  "mapElems n f = updateElems n (\<lambda>elems. js_array_map f elems)"

definition flatMapElems ::
  "ltrf_node \<Rightarrow> (ltrf_obj \<Rightarrow> nat \<Rightarrow> ltrf_obj list \<Rightarrow> ltrf_obj list) \<Rightarrow> ltrf_node" where
  "flatMapElems n f = updateElems n (\<lambda>elems. js_array_flatMap f elems)"

definition ltrf_update ::
  "ltrf_node \<Rightarrow> (jstr \<Rightarrow> jstr) \<Rightarrow> (js_val jmap \<Rightarrow> js_val jmap) \<Rightarrow>
   (ltrf_obj list \<Rightarrow> ltrf_obj list) \<Rightarrow> ltrf_node" where
  "ltrf_update n ft fk fs = ltrf_make (ft (node_tag n)) (fk (node_kv n)) (fs (node_elems n))"

text \<open>A value of static type \<^verbatim>\<open>unknown\<close>: what a function of a user's module may return.\<close>

datatype js_unknown =
    UPrim js_val
  | UNode ltrf_node
  | UArray "js_unknown list"

fun isLtrfObj :: "js_unknown \<Rightarrow> bool" where
  "isLtrfObj (UPrim (JString _)) = True"
| "isLtrfObj (UNode _) = True"
| "isLtrfObj _ = False"

definition isLtrfStr :: "ltrf_obj \<Rightarrow> bool" where
  "isLtrfStr l = (case l of LtrfStr _ \<Rightarrow> True | Nd _ \<Rightarrow> False)"

definition isLtrfNode :: "ltrf_obj \<Rightarrow> bool" where
  "isLtrfNode l = (case l of LtrfStr _ \<Rightarrow> False | Nd _ \<Rightarrow> True)"

text \<open>
  \<^verbatim>\<open>ltrfObjLift\<close> and \<^verbatim>\<open>ltrfObjLiftArr\<close>: the source writes the same function at two result types.
\<close>

definition ltrfObjLift :: "(jstr \<Rightarrow> 'r) \<Rightarrow> (ltrf_node \<Rightarrow> 'r) \<Rightarrow> ltrf_obj \<Rightarrow> 'r" where
  "ltrfObjLift fs fn = (\<lambda>l. case l of LtrfStr s \<Rightarrow> fs s | Nd n \<Rightarrow> fn n)"

definition flatMapId :: "'a \<Rightarrow> 'a list" where
  "flatMapId x = [x]"

section \<open>Automation\<close>

lemma isLtrf_simps [simp]:
  "isLtrfStr (LtrfStr s)" "\<not> isLtrfStr (Nd n)"
  "isLtrfNode (Nd n)" "\<not> isLtrfNode (LtrfStr s)"
  by (simp_all add: isLtrfStr_def isLtrfNode_def)

lemma isLtrfStr_iff: "isLtrfStr l \<longleftrightarrow> (\<exists>s. l = LtrfStr s)"
  by (cases l) simp_all

lemma isLtrfNode_iff: "isLtrfNode l \<longleftrightarrow> (\<exists>n. l = Nd n)"
  by (cases l) simp_all

lemma ltrfObjLift_simps [simp]:
  "ltrfObjLift fs fn (LtrfStr s) = fs s"
  "ltrfObjLift fs fn (Nd n) = fn n"
  by (simp_all add: ltrfObjLift_def)

lemma ltrfObjLift_cong [fundef_cong]:
  assumes "l = l'" and "\<And>s. l' = LtrfStr s \<Longrightarrow> fs s = gs s"
    and "\<And>n. l' = Nd n \<Longrightarrow> fn n = gn n"
  shows "ltrfObjLift fs fn l = ltrfObjLift gs gn l'"
  using assms by (cases l') auto

text \<open>Rewriting the nodes among the children and keeping the strings.\<close>

lemma Nd_in_lift:
  "Nd m \<in> set (map (ltrfObjLift LtrfStr (\<lambda>n. Nd (f n))) es) \<longleftrightarrow>
     (\<exists>n. Nd n \<in> set es \<and> m = f n)"
proof (induction es)
  case (Cons el es)
  then show ?case by (cases el) auto
qed simp

lemma js_array_map_elem [simp]: "js_array_map (\<lambda>el _ _. f el) xs = map f xs"
  unfolding js_array_map_def split_def
  by (subst map_map [of f snd, unfolded comp_def, symmetric]) (simp add: enumerate_eq_zip)

lemma js_array_flatMap_elem [simp]:
  "js_array_flatMap (\<lambda>el _ _. f el) xs = concat (map f xs)"
  by (simp add: js_array_flatMap_def)

lemma js_array_map_cong [fundef_cong]:
  assumes "xs = ys" and "\<And>el i. el \<in> set ys \<Longrightarrow> f el i ys = g el i ys"
  shows "js_array_map f xs = js_array_map g ys"
  unfolding js_array_map_def assms(1)
  by (rule map_cong) (auto simp: in_set_enumerate_eq assms(2))

lemma mapElems_cong [fundef_cong]:
  assumes "n = m"
    and "\<And>el i. el \<in> set (node_elems m) \<Longrightarrow> f el i (node_elems m) = g el i (node_elems m)"
  shows "mapElems n f = mapElems m g"
  using assms by (auto simp: mapElems_def updateElems_def cong: js_array_map_cong)

lemma flatMapElems_cong [fundef_cong]:
  assumes "n = m"
    and "\<And>el i. el \<in> set (node_elems m) \<Longrightarrow> f el i (node_elems m) = g el i (node_elems m)"
  shows "flatMapElems n f = flatMapElems m g"
  using assms
  by (auto simp: flatMapElems_def js_array_flatMap_def updateElems_def cong: js_array_map_cong)

lemma ltrf_selectors [simp]:
  "node_tag (ltrf_make t kv es) = t" "node_kv (ltrf_make t kv es) = kv"
  "node_elems (ltrf_make t kv es) = es"
  "node_tag (withElems n fs) = node_tag n" "node_kv (withElems n fs) = node_kv n"
  "node_elems (withElems n fs) = fs"
  "node_tag (updateElems n h) = node_tag n" "node_kv (updateElems n h) = node_kv n"
  "node_elems (updateElems n h) = h (node_elems n)"
  "node_tag (mapElems n f) = node_tag n" "node_kv (mapElems n f) = node_kv n"
  "node_elems (mapElems n f) = js_array_map f (node_elems n)"
  "node_tag (flatMapElems n g) = node_tag n" "node_kv (flatMapElems n g) = node_kv n"
  "node_elems (flatMapElems n g) = js_array_flatMap g (node_elems n)"
  by (simp_all add: ltrf_make_def withElems_def updateElems_def mapElems_def flatMapElems_def)

lemma node_size_elem [termination_simp]:
  "Nd m \<in> set (node_elems n) \<Longrightarrow> size m < size n"
proof (cases n)
  case (LtrfNode t kv es)
  assume "Nd m \<in> set (node_elems n)"
  with LtrfNode have "Nd m \<in> set es" by simp
  then have "size_ltrf_obj_of size (Nd m) \<le> size_list (size_ltrf_obj_of size) es"
    by (rule size_list_estimation') simp
  with LtrfNode show ?thesis by simp
qed

section \<open>Walking a tree\<close>

text \<open>Every node of a tree, itself included, satisfies \<open>P\<close>.\<close>

fun all_nodes :: "(ltrf_node \<Rightarrow> bool) \<Rightarrow> ltrf_node \<Rightarrow> bool" where
  "all_nodes P n \<longleftrightarrow> P n \<and> list_all (ltrfObjLift (\<lambda>_. True) (all_nodes P)) (node_elems n)"

declare all_nodes.simps [simp del]

lemmas all_nodes_code [code] = all_nodes.simps [of P "LtrfNode t kv es" for P t kv es]

definition all_below :: "(ltrf_node \<Rightarrow> bool) \<Rightarrow> ltrf_obj list \<Rightarrow> bool" where
  "all_below P es = list_all (ltrfObjLift (\<lambda>_. True) (all_nodes P)) es"

lemma all_nodes_iff: "all_nodes P n \<longleftrightarrow> P n \<and> all_below P (node_elems n)"
  by (simp add: all_nodes.simps all_below_def)

lemma all_below_simps [simp]:
  "all_below P []"
  "all_below P (LtrfStr s # es) \<longleftrightarrow> all_below P es"
  "all_below P (Nd n # es) \<longleftrightarrow> all_nodes P n \<and> all_below P es"
  "all_below P (es @ fs) \<longleftrightarrow> all_below P es \<and> all_below P fs"
  by (simp_all add: all_below_def)

lemma all_below_iff: "all_below P es \<longleftrightarrow> (\<forall>n. Nd n \<in> set es \<longrightarrow> all_nodes P n)"
  unfolding all_below_def list_all_iff
  by (metis (full_types) ltrfObjLift_simps ltrf_obj_of.exhaust)

lemma all_nodes_mono: "all_nodes P n \<Longrightarrow> (\<And>m. P m \<Longrightarrow> Q m) \<Longrightarrow> all_nodes Q n"
  by (induction n rule: ltrf_node_induct)
    (auto simp: all_nodes_iff [of _ "LtrfNode _ _ _"] all_below_iff)

text \<open>The number of nodes on the longest path down a tree.\<close>

fun node_height :: "ltrf_node \<Rightarrow> nat" where
  "node_height n = Suc (foldr max (map (ltrfObjLift (\<lambda>_. 0) node_height) (node_elems n)) 0)"

declare node_height.simps [simp del]

lemmas node_height_code [code] = node_height.simps [of "LtrfNode t kv es" for t kv es]

definition elems_height :: "ltrf_obj list \<Rightarrow> nat" where
  "elems_height es = foldr max (map (ltrfObjLift (\<lambda>_. 0) node_height) es) 0"

lemma node_height_eq: "node_height n = Suc (elems_height (node_elems n))"
  by (simp add: node_height.simps [of n] elems_height_def)

lemma elems_height_mem: "Nd n \<in> set es \<Longrightarrow> node_height n \<le> elems_height es"
  by (induction es) (auto simp: elems_height_def intro: max.coboundedI2)

end
