(* ===== verification/Commands.thy ===== *)
theory Commands
  imports Ltrf
begin

text \<open>
  Command arguments (\<^verbatim>\<open>internal/command/argument.ts\<close>), commands made from JavaScript functions
  (\<^verbatim>\<open>internal/command/command.ts\<close>) and the per-file storage of modules that command functions
  read and write (\<^verbatim>\<open>internal/module/module.ts\<close>, \<^verbatim>\<open>internal/command/commandContext.ts\<close>), with
  the functions that the standard modules export (\<^verbatim>\<open>std/core.ts\<close>, \<^verbatim>\<open>std/main.ts\<close>).
\<close>

section \<open>Arguments\<close>

datatype evaluation_strategy = Eager | Lazy

text \<open>A square argument is a number, a boolean or an \<^verbatim>\<open>LtrfObj\<close>, strings being \<^verbatim>\<open>LtrfObj\<close>s.\<close>

datatype cmd_square_arg =
    SqNumber js_number
  | SqBoolean bool
  | SqObj ltrf_obj

type_synonym cmd_curly_arg = "ltrf_obj list"

record command_args =
  keywordArgs :: "cmd_square_arg jmap"
  squareArgs :: "cmd_square_arg list"
  curlyArgs :: "cmd_curly_arg list"

definition cas :: "command_args \<Rightarrow> cmd_curly_arg list" where
  "cas a = curlyArgs a"

definition sas :: "command_args \<Rightarrow> cmd_square_arg list" where
  "sas a = squareArgs a"

definition kwas :: "command_args \<Rightarrow> cmd_square_arg jmap" where
  "kwas a = keywordArgs a"

text \<open>Accessors with an optional default, which stands in for \<^verbatim>\<open>undefined\<close> only.\<close>

definition or_default :: "'a option \<Rightarrow> 'a option \<Rightarrow> 'a option" where
  "or_default arg dflt = (case arg of None \<Rightarrow> dflt | Some x \<Rightarrow> Some x)"

definition ca :: "command_args \<Rightarrow> nat \<Rightarrow> cmd_curly_arg option \<Rightarrow> cmd_curly_arg option" where
  "ca a idx dflt = or_default (js_index (curlyArgs a) idx) dflt"

definition sa :: "command_args \<Rightarrow> nat \<Rightarrow> cmd_square_arg option \<Rightarrow> cmd_square_arg option" where
  "sa a idx dflt = or_default (js_index (squareArgs a) idx) dflt"

definition kwa :: "command_args \<Rightarrow> jstr \<Rightarrow> cmd_square_arg option \<Rightarrow> cmd_square_arg option" where
  "kwa a idx dflt = or_default (jmap_get (keywordArgs a) idx) dflt"

definition caOrErr :: "command_args \<Rightarrow> nat \<Rightarrow> cmd_curly_arg result" where
  "caOrErr a idx = (case ca a idx None of
       None \<Rightarrow> Inl (CommandError (CurlyArgUndefined idx))
     | Some arg \<Rightarrow> Inr arg)"

definition saOrErr :: "command_args \<Rightarrow> nat \<Rightarrow> cmd_square_arg result" where
  "saOrErr a idx = (case sa a idx None of
       None \<Rightarrow> Inl (CommandError (SquareArgUndefined idx))
     | Some arg \<Rightarrow> Inr arg)"

definition kwaOrErr :: "command_args \<Rightarrow> jstr \<Rightarrow> cmd_square_arg result" where
  "kwaOrErr a idx = (case kwa a idx None of
       None \<Rightarrow> Inl (CommandError (KeywordArgUndefined idx))
     | Some arg \<Rightarrow> Inr arg)"

lemma or_default_simps [simp]:
  "or_default (Some x) d = Some x" "or_default None d = d"
  by (simp_all add: or_default_def)

lemma caOrErr_eq: "caOrErr a idx =
    (if idx < length (curlyArgs a) then Inr (curlyArgs a ! idx)
     else Inl (CommandError (CurlyArgUndefined idx)))"
  by (simp add: caOrErr_def ca_def js_index_def)

section \<open>Per-file storage of modules\<close>

text \<open>
  A \<^verbatim>\<open>FileModuleStorage\<close> object with the fields that \<^verbatim>\<open>MainFileStore\<close> adds.  The code casts
  without a check, so a storage may lack them: \<open>None\<close> is \<^verbatim>\<open>undefined\<close> (for the count also
  \<^verbatim>\<open>NaN\<close>, which \<^verbatim>\<open>undefined\<close> becomes when incremented).  Whatever else a module keeps in
  its storage is the opaque \<open>store_rest\<close>.
\<close>

record file_store =
  store_moduleName :: jstr
  store_count :: "nat option"
  store_title :: "ltrf_obj list option"
  store_author :: "ltrf_obj list option"
  store_rest :: nat

type_synonym module_storage = "file_store jmap"

definition plain_store :: "jstr \<Rightarrow> file_store" where
  "plain_store name = \<lparr>store_moduleName = name, store_count = None, store_title = None,
     store_author = None, store_rest = 0\<rparr>"

definition getFileModuleStorage :: "module_storage \<Rightarrow> jstr \<Rightarrow> file_store result" where
  "getFileModuleStorage storage modName = (case jmap_get storage modName of
       None \<Rightarrow> Inl (CommandError (FileModuleStorageNotFound modName))
     | Some out \<Rightarrow> Inr out)"

section \<open>Command functions\<close>

text \<open>
  A JavaScript function value that defines a command: the closures of the standard modules,
  and a function of a user's module, given by a reference and its \<^verbatim>\<open>length\<close>.
\<close>

datatype js_fn =
    DocCommand
  | CountFn
  | TitleFn
  | AuthorFn
  | MaketitleFn
  | WrapInCmd jstr
  | WrapInBlockCmd jstr
  | UserFn nat nat

text \<open>Code of users' modules: what a function returns, given its arguments and the storage.\<close>

record user_code =
  user_fn :: "nat \<Rightarrow> command_args \<Rightarrow> (module_storage, js_unknown) act"
  user_command :: "nat \<Rightarrow> command_args \<Rightarrow> (module_storage, ltrf_obj list) act"

definition main_name :: jstr where
  "main_name = js ''std::main''"

definition block_kv :: "js_val jmap" where
  "block_kv = [(js ''isBlock'', JBool True)]"

text \<open>\<^verbatim>\<open>s.count++\<close> and \<^verbatim>\<open>s.count.toString()\<close>.\<close>

definition bump_count :: "file_store \<Rightarrow> file_store" where
  "bump_count s = s\<lparr>store_count := map_option js_incr (store_count s)\<rparr>"

definition count_string :: "file_store \<Rightarrow> jstr" where
  "count_string s = (case store_count s of None \<Rightarrow> js ''NaN'' | Some n \<Rightarrow> js_digits n)"

definition ltrf_array :: "ltrf_node \<Rightarrow> js_unknown" where
  "ltrf_array n = UArray [UNode n]"

definition count_fn :: "(module_storage, js_unknown) act" where
  "count_fn =
     act_bind (act_get (\<lambda>st. getFileModuleStorage st main_name)) (\<lambda>r.
     act_bind (act_lift r) (\<lambda>s.
     act_bind (act_update (jmap_set main_name (bump_count s))) (\<lambda>_.
     act_return (UArray [UPrim (JString (count_string (bump_count s)))]))))"

definition set_main_fn ::
  "(ltrf_obj list \<Rightarrow> file_store \<Rightarrow> file_store) \<Rightarrow> command_args \<Rightarrow>
   (module_storage, js_unknown) act" where
  "set_main_fn upd a =
     act_bind (act_get (\<lambda>st. getFileModuleStorage st main_name)) (\<lambda>r.
     act_bind (act_lift r) (\<lambda>s.
     act_bind (act_lift (caOrErr a 0)) (\<lambda>v.
     act_bind (act_update (jmap_set main_name (upd v s))) (\<lambda>_.
     act_return (UArray [])))))"

definition wrap_fn :: "jstr \<Rightarrow> js_val jmap \<Rightarrow> command_args \<Rightarrow> (module_storage, js_unknown) act" where
  "wrap_fn tag kv a =
     act_bind (act_lift (caOrErr a 0)) (\<lambda>c. act_return (ltrf_array (ltrf_make tag kv c)))"

fun run_fn :: "user_code \<Rightarrow> js_fn \<Rightarrow> command_args \<Rightarrow> (module_storage, js_unknown) act" where
  "run_fn u DocCommand a = wrap_fn (js ''__doc'') [] a"
| "run_fn u CountFn a = count_fn"
| "run_fn u TitleFn a = set_main_fn (\<lambda>v s. s\<lparr>store_title := Some v\<rparr>) a"
| "run_fn u AuthorFn a = set_main_fn (\<lambda>v s. s\<lparr>store_author := Some v\<rparr>) a"
| "run_fn u MaketitleFn a = act_return (ltrf_array (ltrf_make (js ''maketitle'') block_kv []))"
| "run_fn u (WrapInCmd name) a = wrap_fn name [] a"
| "run_fn u (WrapInBlockCmd name) a = wrap_fn name block_kv a"
| "run_fn u (UserFn f len) a = user_fn u f a"

text \<open>\<^verbatim>\<open>func.length\<close>: the number of declared parameters.\<close>

fun fn_length :: "js_fn \<Rightarrow> nat" where
  "fn_length DocCommand = 1"
| "fn_length CountFn = 2"
| "fn_length TitleFn = 2"
| "fn_length AuthorFn = 2"
| "fn_length MaketitleFn = 0"
| "fn_length (WrapInCmd _) = 1"
| "fn_length (WrapInBlockCmd _) = 1"
| "fn_length (UserFn _ len) = len"

section \<open>Commands\<close>

text \<open>
  The command objects: the three classes of \<^verbatim>\<open>std/core.ts\<close>, a \<^verbatim>\<open>JsFnCommand\<close> with its name
  and function, and an instance of a subclass that a user's module defines.
\<close>

datatype command =
    RequireCommand
  | UsingCommand
  | UsingAllCommand
  | JsFnCommand jstr js_fn
  | UserCommand nat evaluation_strategy

fun argumentEvaluation :: "command \<Rightarrow> evaluation_strategy" where
  "argumentEvaluation (UserCommand _ strategy) = strategy"
| "argumentEvaluation _ = Eager"

definition fromJsFunction :: "js_fn \<Rightarrow> jstr \<Rightarrow> command result" where
  "fromJsFunction func cmdName =
     (if fn_length func \<noteq> 0 \<and> fn_length func \<noteq> 1 \<and> fn_length func \<noteq> 2
      then Inl (CommandError BadCommandFunctionArity)
      else Inr (JsFnCommand cmdName func))"

fun to_ltrf :: "js_unknown \<Rightarrow> ltrf_obj option" where
  "to_ltrf (UPrim (JString s)) = Some (LtrfStr s)"
| "to_ltrf (UNode n) = Some (Nd n)"
| "to_ltrf _ = None"

text \<open>The check of \<^verbatim>\<open>cmdFn\<close> on what the function returned.\<close>

definition check_returned :: "jstr \<Rightarrow> js_unknown \<Rightarrow> ltrf_obj list result" where
  "check_returned cmdName out = (case out of
       UArray us \<Rightarrow>
         (if list_all isLtrfObj us then Inr (List.map_filter to_ltrf us)
          else Inl (CommandError (CommandReturnedNonLtrf cmdName)))
     | _ \<Rightarrow> Inl (CommandError (CommandReturnedNonLtrf cmdName)))"

definition call_js_fn ::
  "user_code \<Rightarrow> jstr \<Rightarrow> js_fn \<Rightarrow> command_args \<Rightarrow> (module_storage, ltrf_obj list) act" where
  "call_js_fn u cmdName func a =
     act_bind (run_fn u func a) (\<lambda>out. act_lift (check_returned cmdName out))"

lemma isLtrfObj_iff: "isLtrfObj x \<longleftrightarrow> to_ltrf x \<noteq> None"
  by (cases x rule: to_ltrf.cases) auto

lemma check_returned_array:
  "check_returned c (UArray us) = Inr es \<longleftrightarrow> list_all2 (\<lambda>x e. to_ltrf x = Some e) us es"
proof -
  have "list_all isLtrfObj us \<and> List.map_filter to_ltrf us = es \<longleftrightarrow>
      list_all2 (\<lambda>x e. to_ltrf x = Some e) us es" for us es
  proof (induction us arbitrary: es)
    case (Cons x us)
    then show ?case
      by (cases "to_ltrf x") (auto simp: isLtrfObj_iff map_filter_simps list_all2_Cons1)
  qed (auto simp: map_filter_simps)
  from this [of us es] show ?thesis by (auto simp: check_returned_def)
qed

lemma check_returned_node [simp]: "check_returned c (ltrf_array n) = Inr [Nd n]"
  by (simp add: check_returned_def ltrf_array_def map_filter_simps)

lemma check_returned_simps [simp]:
  "check_returned c (UArray []) = Inr []"
  "check_returned c (UArray [UPrim (JString s)]) = Inr [LtrfStr s]"
  by (simp_all add: check_returned_def map_filter_simps)

section \<open>The standard functions\<close>

lemma call_wrap:
  "run_fn u f = wrap_fn tag kv \<Longrightarrow> call_js_fn u c f a st =
     (if curlyArgs a = [] then Some (Inl (CommandError (CurlyArgUndefined 0)))
      else Some (Inr ([Nd (ltrf_make tag kv (hd (curlyArgs a)))], st)))"
  by (auto simp: call_js_fn_def wrap_fn_def caOrErr_eq act_simps act_bind_def hd_conv_nth)

text \<open>
  The standard functions write no storage but that of \<^verbatim>\<open>std::main\<close>, never add an entry, and
  always return or throw.
\<close>

fun std_fn :: "js_fn \<Rightarrow> bool" where
  "std_fn (UserFn _ _) = False"
| "std_fn _ = True"

definition same_stores :: "module_storage \<Rightarrow> module_storage \<Rightarrow> bool" where
  "same_stores st st' \<longleftrightarrow> jmap_keys st' = jmap_keys st \<and>
     (\<forall>m. m \<noteq> main_name \<longrightarrow> jmap_get st' m = jmap_get st m)"

interpretation stores: effect_frame "\<lambda>_. True" same_stores
  by unfold_locales (auto simp: same_stores_def)

lemma getFileModuleStorage_has:
  "getFileModuleStorage st m = Inr s \<Longrightarrow> jmap_has st m"
  by (auto simp: getFileModuleStorage_def jmap_has_def split: option.splits)

lemma update_main_store:
  "getFileModuleStorage st main_name = Inr s \<Longrightarrow>
   same_stores st (jmap_set main_name s' st)"
  by (drule getFileModuleStorage_has) (simp add: same_stores_def jm.keys_set jm.get_set)

lemma count_fn_safe: "stores.safe count_fn"
proof (rule stores.safeI)
  fix st
  show "count_fn st \<noteq> None"
    by (auto simp: count_fn_def act_bind_def act_simps act_lift_def split: sum.splits)
next
  fix st x st' assume "count_fn st = Some (Inr (x, st'))"
  then show "same_stores st st' \<and> True"
    by (auto simp: count_fn_def act_bind_eq_Inr_iff act_simps act_lift_def update_main_store
        split: sum.splits)
qed

lemma set_main_fn_safe: "stores.safe (set_main_fn upd a)"
proof (rule stores.safeI)
  fix st
  show "set_main_fn upd a st \<noteq> None"
    by (auto simp: set_main_fn_def act_bind_def act_simps act_lift_def split: sum.splits)
next
  fix st x st' assume "set_main_fn upd a st = Some (Inr (x, st'))"
  then show "same_stores st st' \<and> True"
    by (auto simp: set_main_fn_def act_bind_eq_Inr_iff act_simps act_lift_def update_main_store
        split: sum.splits)
qed

lemma std_fn_safe: "std_fn f \<Longrightarrow> stores.safe (call_js_fn u c f a)"
  unfolding call_js_fn_def
  by (cases f) (auto simp: count_fn_safe set_main_fn_safe wrap_fn_def
      intro!: stores.safe_intros)

end
