(* ===== verification/Identifiers.thy ===== *)
theory Identifiers
  imports LapolPrelude
begin

text \<open>
  Identifiers such as \<^verbatim>\<open>std::core:__doc\<close> (\<^verbatim>\<open>internal/identifier.ts\<close>): the parser, the
  conditions under which it throws, and its inverse.  A single colon separates the parts of an
  identifier, a double colon belongs to a part.
\<close>

section \<open>The parser\<close>

record ident =
  id_absolute :: bool
  id_path :: "jstr list"
  id_name :: jstr

definition colon :: code_unit where
  "colon = 0x3A"

text \<open>
  The \<^verbatim>\<open>while\<close> loop over \<^verbatim>\<open>idStr\<close>, with the unread rest of the string in place of the index
  \<^verbatim>\<open>i\<close>; reading \<^verbatim>\<open>idStr[i + 1]\<close> past the end gives \<^verbatim>\<open>undefined\<close>, which is no colon.  The
  last equation is the \<^verbatim>\<open>if (acc !== "") parts.push(acc)\<close> after the loop.
\<close>

function parse_loop :: "jstr \<Rightarrow> jstr list \<Rightarrow> jstr \<Rightarrow> jstr list" where
  "parse_loop (c # rest) parts acc =
     (if c = colon \<and> js_index rest 0 = Some colon
      then parse_loop (drop 1 rest) parts (acc @ [colon, colon])
      else if c = colon then parse_loop rest (parts @ [acc]) []
      else parse_loop rest parts (acc @ [c]))"
| "parse_loop [] parts acc = (if acc \<noteq> [] then parts @ [acc] else parts)"
  by pat_completeness auto
termination
  by (relation "measure (\<lambda>(s, _, _). length s)") auto

text \<open>
  After the loop: \<^verbatim>\<open>parts.pop()\<close> (\<^verbatim>\<open>undefined\<close> for an empty array), then a leading empty part
  is dropped and makes the identifier absolute.
\<close>

definition parseIdentifier :: "jstr \<Rightarrow> ident result" where
  "parseIdentifier idStr = bindR (assertR (idStr \<noteq> [])) (\<lambda>_.
     let parts0 = parse_loop idStr [] [];
         name = (if parts0 = [] then None else Some (last parts0));
         parts1 = butlast parts0;
         absolute = (js_index parts1 0 = Some []);
         parts2 = (if absolute then drop 1 parts1 else parts1)
     in case name of
          None \<Rightarrow> Inl (NameError (MalformedIdentifier idStr))
        | Some nm \<Rightarrow> Inr \<lparr>id_absolute = absolute, id_path = parts2, id_name = nm\<rparr>)"

section \<open>Totality\<close>

lemma parse_loop_nonempty:
  "parts \<noteq> [] \<or> acc \<noteq> [] \<or> s \<noteq> [] \<Longrightarrow> parse_loop s parts acc \<noteq> []"
  by (induction s parts acc rule: parse_loop.induct) auto

text \<open>The exact behaviour on the error side.\<close>

lemma parseIdentifier_eq:
  assumes "s \<noteq> []"
  shows "parseIdentifier s = Inr (let ps = butlast (parse_loop s [] []) in
    \<lparr>id_absolute = (js_index ps 0 = Some []),
     id_path = (if js_index ps 0 = Some [] then drop 1 ps else ps),
     id_name = last (parse_loop s [] [])\<rparr>)"
  using assms parse_loop_nonempty [of "[]" "[]" s]
  by (simp add: parseIdentifier_def Let_def)

text \<open>
  Parsing an identifier fails on the empty string only, with the assertion error; the error
  \<^verbatim>\<open>Malformed identifier\<close> that the code prepares for is never thrown.
\<close>

lemma parseIdentifier_fails_iff:
  "(\<exists>i. parseIdentifier s = Inr i) = (s \<noteq> []) \<and>
   (parseIdentifier s = Inl e) = (s = [] \<and> e = AssertionError)"
  by (cases "s = []") (simp_all add: parseIdentifier_eq, auto simp: parseIdentifier_def)

section \<open>Printing and parsing back\<close>

text \<open>
  A part survives printing when its colons come in pairs and it does not start with one (a
  preceding separator would pair up with it).
\<close>

function paired_colons :: "jstr \<Rightarrow> bool" where
  "paired_colons (c # rest) =
     (if c = colon then js_index rest 0 = Some colon \<and> paired_colons (drop 1 rest)
      else paired_colons rest)"
| "paired_colons [] = True"
  by pat_completeness auto
termination
  by (relation "measure length") auto

definition good_part :: "jstr \<Rightarrow> bool" where
  "good_part s \<longleftrightarrow> s \<noteq> [] \<and> hd s \<noteq> colon \<and> paired_colons s"

definition good_identifier :: "ident \<Rightarrow> bool" where
  "good_identifier i \<longleftrightarrow> list_all good_part (id_path i) \<and> good_part (id_name i)"

fun join_colon :: "jstr list \<Rightarrow> jstr" where
  "join_colon [] = []"
| "join_colon [s] = s"
| "join_colon (s # t # ts) = s @ colon # join_colon (t # ts)"

definition print_identifier :: "ident \<Rightarrow> jstr" where
  "print_identifier i =
     (if id_absolute i then [colon] else []) @ join_colon (id_path i @ [id_name i])"

lemma parse_loop_part:
  "paired_colons s \<Longrightarrow>
   parse_loop (s @ t) parts acc = parse_loop t parts (acc @ s)"
proof (induction s arbitrary: acc rule: paired_colons.induct)
  case (1 c rest)
  show ?case
  proof (cases "c = colon")
    case True
    with 1 obtain r where "rest = colon # r" by (cases rest) auto
    with True 1 show ?thesis by simp
  next
    case False
    with 1 show ?thesis by simp
  qed
qed simp

lemma parse_loop_sep:
  "good_part t \<Longrightarrow> parse_loop (colon # t @ u) parts acc = parse_loop (t @ u) (parts @ [acc]) []"
  by (cases t) (auto simp: good_part_def)

lemma parse_loop_join:
  "list_all good_part (p # ps) \<Longrightarrow> parse_loop (join_colon (p # ps)) parts [] = parts @ p # ps"
proof (induction ps arbitrary: p parts)
  case Nil
  then show ?case using parse_loop_part [of p "[]"] by (simp add: good_part_def)
next
  case (Cons q qs)
  obtain u where u: "join_colon (q # qs) = q @ u"
    by (cases qs) auto
  have good: "good_part p" "good_part q" using Cons.prems by simp_all
  have "parse_loop (join_colon (p # q # qs)) parts [] = parse_loop (colon # q @ u) parts p"
    using good parse_loop_part [of p "colon # q @ u" parts "[]"]
    by (simp add: u good_part_def del: parse_loop.simps)
  also have "\<dots> = parse_loop (q @ u) (parts @ [p]) []"
    by (rule parse_loop_sep [OF good(2)])
  finally have "parse_loop (join_colon (p # q # qs)) parts [] = parse_loop (q @ u) (parts @ [p]) []" .
  with Cons show ?case by (simp flip: u)
qed

text \<open>Names without a colon, and a name in a namespace.\<close>

lemma paired_colons_plain: "colon \<notin> set s \<Longrightarrow> paired_colons s"
  by (induction s rule: paired_colons.induct) auto

lemma parseIdentifier_plain:
  assumes "s \<noteq> []" and "colon \<notin> set s"
  shows "parseIdentifier s = Inr \<lparr>id_absolute = False, id_path = [], id_name = s\<rparr>"
  using assms parse_loop_part [OF paired_colons_plain [OF assms(2)], of "[]" "[]" "[]"]
  by (simp add: parseIdentifier_eq)

lemma parseIdentifier_member:
  assumes "good_part m" and "good_part n"
  shows "parseIdentifier (m @ [colon] @ n) =
    Inr \<lparr>id_absolute = False, id_path = [m], id_name = n\<rparr>"
  using assms parse_loop_join [of m "[n]" "[]"]
  by (auto simp: parseIdentifier_eq good_part_def)

text \<open>
  C21: an identifier whose parts are good, printed with the separating colons, parses back to
  itself: the parts, the order of the path and the absolute flag are all recovered.
\<close>

theorem parse_print_identifier:
  assumes "good_identifier i"
  shows "parseIdentifier (print_identifier i) = Inr i"
proof -
  obtain p ps where parts: "id_path i @ [id_name i] = p # ps"
    by (cases "id_path i @ [id_name i]") auto
  have good: "list_all good_part (p # ps)"
    using assms unfolding parts [symmetric] by (simp add: good_identifier_def)
  obtain u where u: "join_colon (p # ps) = p @ u"
    by (cases ps) auto
  have nonempty: "print_identifier i \<noteq> []" and "p \<noteq> []"
    using good by (auto simp: print_identifier_def parts u good_part_def)
  have loop: "parse_loop (print_identifier i) [] [] =
      (if id_absolute i then [[]] else []) @ p # ps"
    using good parse_loop_sep [of p u "[]" "[]"] parse_loop_join [of p ps]
    by (auto simp: print_identifier_def parts u)
  have "p # ps = id_path i @ [id_name i]" by (simp add: parts)
  then have "butlast (p # ps) = id_path i" and "last (p # ps) = id_name i"
    by (simp_all only: butlast_snoc last_snoc)
  moreover have "js_index (id_path i) 0 \<noteq> Some []"
    using assms by (cases "id_path i") (auto simp: good_identifier_def good_part_def)
  ultimately show ?thesis
    using nonempty by (simp add: parseIdentifier_eq loop butlast_append del: butlast.simps last.simps)
qed

definition sample_identifier :: ident where
  "sample_identifier =
     \<lparr>id_absolute = True, id_path = [js ''std::core'', js ''a''], id_name = js ''__doc''\<rparr>"

theorem parse_print_identifier_witness:
  "parseIdentifier (print_identifier sample_identifier) = Inr sample_identifier"
proof (rule parse_print_identifier)
  show "good_identifier sample_identifier"
    by (simp add: sample_identifier_def good_identifier_def good_part_def js_def colon_def)
qed

end
