(* ===== verification/Namespaces.thy ===== *)
theory Namespaces
  imports Commands Identifiers
begin

text \<open>
  Namespaces (\<^verbatim>\<open>internal/namespace.ts\<close>).  Namespace objects are shared (the namespace of a
  module is a child of the root of every file that loads it) and point to each other both ways,
  so they live in a store: an address is a position of the list, an allocation appends.
\<close>

section \<open>The object store\<close>

type_synonym ns_addr = nat

text \<open>
  A child is a namespace or an item.  The set-up of an environment can also store \<^verbatim>\<open>undefined\<close>
  (it adds what a lookup returned without looking at it).
\<close>

datatype ns_entry = EntryNs ns_addr | EntryItem command | EntryUndefined

record namespace =
  ns_name :: jstr
  ns_isRoot :: bool
  ns_parent :: "ns_addr option"
  ns_children :: "ns_entry jmap"

type_synonym ns_heap = "namespace list"

definition SUPER_IDENTIFIER :: jstr where
  "SUPER_IDENTIFIER = js ''super''"

definition ns_deref :: "ns_heap \<Rightarrow> ns_addr \<Rightarrow> namespace result" where
  "ns_deref h a = (case js_index h a of None \<Rightarrow> Inl DanglingReference | Some n \<Rightarrow> Inr n)"

definition defined_entry :: "ns_entry option \<Rightarrow> ns_entry option" where
  "defined_entry x = (case x of Some EntryUndefined \<Rightarrow> None | _ \<Rightarrow> x)"

section \<open>Operations\<close>

text \<open>The constructors, which return the new address.\<close>

definition new_Namespace :: "jstr \<Rightarrow> ns_heap \<Rightarrow> ns_addr \<times> ns_heap" where
  "new_Namespace name h =
     (length h, h @ [\<lparr>ns_name = name, ns_isRoot = False, ns_parent = None, ns_children = []\<rparr>])"

definition new_RootNamespace :: "ns_heap \<Rightarrow> ns_addr \<times> ns_heap" where
  "new_RootNamespace h =
     (length h, h @ [\<lparr>ns_name = js ''__root__'', ns_isRoot = True, ns_parent = None,
        ns_children = []\<rparr>])"

definition setParent :: "ns_heap \<Rightarrow> ns_addr \<Rightarrow> ns_addr \<Rightarrow> ns_heap result" where
  "setParent h this parent =
     bindR (ns_deref h this) (\<lambda>t. Inr (h[this := t\<lparr>ns_parent := Some parent\<rparr>]))"

definition children_set :: "ns_heap \<Rightarrow> ns_addr \<Rightarrow> jstr \<Rightarrow> ns_entry \<Rightarrow> ns_heap result" where
  "children_set h this as child =
     bindR (ns_deref h this) (\<lambda>t.
       Inr (h[this := t\<lparr>ns_children := jmap_set as child (ns_children t)\<rparr>]))"

definition addChildNamespace ::
  "ns_heap \<Rightarrow> ns_addr \<Rightarrow> jstr \<Rightarrow> ns_addr \<Rightarrow> ns_heap result" where
  "addChildNamespace h this as child =
     bindR (ns_deref h this) (\<lambda>t.
     bindR (assertR (\<not> ns_isRoot t)) (\<lambda>_.
     bindR (assertR (\<not> jmap_has (ns_children t) as)) (\<lambda>_.
     bindR (assertR (as \<noteq> SUPER_IDENTIFIER)) (\<lambda>_.
     bindR (ns_deref h child) (\<lambda>c.
     bindR (assertR (ns_parent c = None)) (\<lambda>_.
     bindR (setParent h child this) (\<lambda>h'.
     children_set h' this as (EntryNs child))))))))"

definition addChildItem ::
  "ns_heap \<Rightarrow> ns_addr \<Rightarrow> jstr \<Rightarrow> command \<Rightarrow> ns_heap result" where
  "addChildItem h this as child =
     bindR (ns_deref h this) (\<lambda>t.
     bindR (assertR (\<not> jmap_has (ns_children t) as)) (\<lambda>_.
     bindR (assertR (as \<noteq> SUPER_IDENTIFIER)) (\<lambda>_.
     children_set h this as (EntryItem child))))"

definition addUsing ::
  "ns_heap \<Rightarrow> ns_addr \<Rightarrow> jstr \<Rightarrow> ns_entry \<Rightarrow> ns_heap result" where
  "addUsing h this as child =
     bindR (ns_deref h this) (\<lambda>t.
     bindR (assertR (\<not> jmap_has (ns_children t) as)) (\<lambda>_.
     bindR (assertR (as \<noteq> SUPER_IDENTIFIER)) (\<lambda>_.
     bindR (case child of
         EntryNs c \<Rightarrow> bindR (ns_deref h c) (\<lambda>cn. assertR (ns_parent cn \<noteq> None))
       | _ \<Rightarrow> Inr ()) (\<lambda>_.
     children_set h this as child))))"

text \<open>
  Root's own way of adding a namespace leaves the parent of the child alone, because the child
  may be shared between compilations.
\<close>

definition rootAddChildNamespace ::
  "ns_heap \<Rightarrow> ns_addr \<Rightarrow> jstr \<Rightarrow> ns_addr \<Rightarrow> ns_heap result" where
  "rootAddChildNamespace h this as child =
     bindR (ns_deref h this) (\<lambda>t.
     bindR (assertR (\<not> jmap_has (ns_children t) as)) (\<lambda>_.
     bindR (assertR (as \<noteq> SUPER_IDENTIFIER)) (\<lambda>_.
     children_set h this as (EntryNs child))))"

text \<open>
  \<^verbatim>\<open>lookup\<close> and \<^verbatim>\<open>lookupItem\<close>.  The test that \<^verbatim>\<open>loc\<close> is a namespace comes first and also
  refuses \<^verbatim>\<open>undefined\<close>, so the code's next line, \<^verbatim>\<open>if (loc === undefined) return undefined\<close>,
  is never reached.
\<close>

function ns_lookup :: "ns_heap \<Rightarrow> ns_addr \<Rightarrow> ident \<Rightarrow> ns_entry option result"
  and ns_lookupItem :: "ns_heap \<Rightarrow> ns_addr \<Rightarrow> ident \<Rightarrow> command option result" where
  "ns_lookup h this i =
     bindR (ns_deref h this) (\<lambda>t.
       if ns_isRoot t \<or> \<not> id_absolute i then
         (case id_path i of
            [] \<Rightarrow> Inr (defined_entry (jmap_get (ns_children t) (id_name i)))
          | sub # rest \<Rightarrow>
              (case (if sub = SUPER_IDENTIFIER then map_option EntryNs (ns_parent t)
                     else jmap_get (ns_children t) sub) of
                 Some (EntryNs loc) \<Rightarrow>
                   bindR (ns_lookupItem h loc
                       \<lparr>id_absolute = id_absolute i, id_path = rest, id_name = id_name i\<rparr>)
                     (\<lambda>item. Inr (map_option EntryItem item))
               | _ \<Rightarrow> Inl (NameError (FoundChildItem sub (ns_name t)))))
       else Inl (NameError AbsoluteOutsideRoot))"
| "ns_lookupItem h this i =
     bindR (ns_lookup h this i) (\<lambda>item. case item of
         None \<Rightarrow> Inr None
       | Some EntryUndefined \<Rightarrow> Inr None
       | Some (EntryItem c) \<Rightarrow> Inr (Some c)
       | Some (EntryNs _) \<Rightarrow>
           bindR (ns_deref h this) (\<lambda>t.
             Inl (NameError (LookupItemFoundNamespace (id_name i) (ns_name t)))))"
  by pat_completeness auto
termination
  by (relation "measure (\<lambda>x. case x of Inl (h, a, i) \<Rightarrow> 2 * length (id_path i)
      | Inr (h, a, i) \<Rightarrow> Suc (2 * length (id_path i)))") auto

declare ns_lookup.simps [simp del] ns_lookupItem.simps [simp del]

lemma defined_entry_iff [simp]:
  "defined_entry x = Some e \<longleftrightarrow> x = Some e \<and> e \<noteq> EntryUndefined"
  by (auto simp: defined_entry_def split: option.splits ns_entry.splits)

lemma defined_entry_simps [simp]:
  "defined_entry (Some (EntryItem c)) = Some (EntryItem c)"
  "defined_entry (Some (EntryNs a)) = Some (EntryNs a)"
  "defined_entry None = None"
  by (simp_all add: defined_entry_def)

lemma ns_deref_eq: "ns_deref h a = (if a < length h then Inr (h ! a) else Inl DanglingReference)"
  by (simp add: ns_deref_def js_index_def)

lemma ns_deref_Inr [simp]: "ns_deref h a = Inr n \<longleftrightarrow> a < length h \<and> n = h ! a"
  by (auto simp: ns_deref_eq)

section \<open>The heap invariant and the extension order\<close>

text \<open>
  Every reference is to an allocated namespace, no child is called \<^verbatim>\<open>super\<close>, and no name is
  bound twice.
\<close>

definition entry_ok :: "nat \<Rightarrow> ns_entry \<Rightarrow> bool" where
  "entry_ok n e \<longleftrightarrow> (case e of EntryNs a \<Rightarrow> a < n | _ \<Rightarrow> True)"

definition ns_ok :: "nat \<Rightarrow> namespace \<Rightarrow> bool" where
  "ns_ok n s \<longleftrightarrow>
     (\<forall>p. ns_parent s = Some p \<longrightarrow> p < n) \<and>
     distinct (jmap_keys (ns_children s)) \<and>
     SUPER_IDENTIFIER \<notin> set (jmap_keys (ns_children s)) \<and>
     (\<forall>(k, e) \<in> set (ns_children s). entry_ok n e)"

definition heap_ok :: "ns_heap \<Rightarrow> bool" where
  "heap_ok h \<longleftrightarrow> (\<forall>s \<in> set h. ns_ok (length h) s)"

text \<open>One namespace grows into another: names stay bound, a parent once set stays.\<close>

definition ns_grows :: "namespace \<Rightarrow> namespace \<Rightarrow> bool" where
  "ns_grows s s' \<longleftrightarrow> ns_name s' = ns_name s \<and> ns_isRoot s' = ns_isRoot s \<and>
     (ns_parent s \<noteq> None \<longrightarrow> ns_parent s' = ns_parent s) \<and>
     (\<exists>new. ns_children s' = ns_children s @ new)"

definition heap_grows :: "ns_heap \<Rightarrow> ns_heap \<Rightarrow> bool" where
  "heap_grows h h' \<longleftrightarrow> length h \<le> length h' \<and> (\<forall>a < length h. ns_grows (h ! a) (h' ! a))"

lemma ns_grows_refl [simp]: "ns_grows s s"
  by (simp add: ns_grows_def)

lemma ns_grows_trans: "ns_grows s t \<Longrightarrow> ns_grows t u \<Longrightarrow> ns_grows s u"
  by (fastforce simp: ns_grows_def)

lemma heap_grows_refl [simp]: "heap_grows h h"
  by (simp add: heap_grows_def)

lemma heap_grows_trans: "heap_grows h i \<Longrightarrow> heap_grows i j \<Longrightarrow> heap_grows h j"
  unfolding heap_grows_def by (meson le_trans less_le_trans ns_grows_trans)

lemma ns_grows_get:
  "ns_grows s s' \<Longrightarrow> jmap_get (ns_children s) k = Some e \<Longrightarrow> jmap_get (ns_children s') k = Some e"
  by (auto simp: ns_grows_def map_add_Some_iff)

lemma heap_grows_update:
  "a < length h \<Longrightarrow> ns_grows (h ! a) s \<Longrightarrow> heap_grows h (h[a := s])"
  by (auto simp: heap_grows_def nth_list_update)

lemma heap_grows_append: "heap_grows h (h @ k)"
  by (auto simp: heap_grows_def nth_append)

lemma ns_ok_mono: "ns_ok n s \<Longrightarrow> n \<le> m \<Longrightarrow> ns_ok m s"
  by (fastforce simp: ns_ok_def entry_ok_def split: ns_entry.splits)

lemma heap_ok_nth: "heap_ok h \<Longrightarrow> a < length h \<Longrightarrow> ns_ok (length h) (h ! a)"
  by (simp add: heap_ok_def)

lemma heap_ok_update: "heap_ok h \<Longrightarrow> ns_ok (length h) s \<Longrightarrow> heap_ok (h[a := s])"
  unfolding heap_ok_def by (auto dest!: set_update_subset_insert [THEN subsetD])

lemma heap_ok_append: "heap_ok h \<Longrightarrow> ns_ok (Suc (length h)) s \<Longrightarrow> heap_ok (h @ [s])"
  by (auto simp: heap_ok_def intro: ns_ok_mono)

lemma ns_ok_add:
  assumes "ns_ok n s" and "\<not> jmap_has (ns_children s) k" and "k \<noteq> SUPER_IDENTIFIER"
    and "entry_ok n e"
  shows "ns_ok n (s\<lparr>ns_children := jmap_set k e (ns_children s)\<rparr>)"
  using assms jm.in_keys_iff [of k "ns_children s"]
  by (auto simp: ns_ok_def jmap_set_new jmap_keys_def)

lemma ns_grows_add:
  "\<not> jmap_has (ns_children s) k \<Longrightarrow>
   ns_grows s (s\<lparr>ns_children := jmap_set k e (ns_children s)\<rparr>)"
  by (simp add: ns_grows_def jmap_set_new)

lemma children_set_Inr:
  "children_set h a k e = Inr h' \<longleftrightarrow>
     a < length h \<and> h' = h[a := (h ! a)\<lparr>ns_children := jmap_set k e (ns_children (h ! a))\<rparr>]"
  by (auto simp: children_set_def bindR_eq_Inr_iff)

lemma children_set_new:
  assumes "children_set h a k e = Inr h'" and "\<not> jmap_has (ns_children (h ! a)) k"
  shows "heap_grows h h'"
    and "heap_ok h \<Longrightarrow> k \<noteq> SUPER_IDENTIFIER \<Longrightarrow> entry_ok (length h) e \<Longrightarrow> heap_ok h'"
  using assms
  by (auto simp: children_set_Inr intro: heap_grows_update ns_grows_add heap_ok_update
      ns_ok_add heap_ok_nth)

section \<open>Mutators\<close>

text \<open>
  The contract of every operation that changes the store: it keeps the invariant and only
  extends namespaces.  Clients that run several operations rely on nothing else.
\<close>

locale heap_mutator =
  fixes run :: "ns_heap \<Rightarrow> ns_heap result"
  assumes keeps_ok: "heap_ok h \<Longrightarrow> run h = Inr h' \<Longrightarrow> heap_ok h'"
    and grows: "heap_ok h \<Longrightarrow> run h = Inr h' \<Longrightarrow> heap_grows h h'"
begin

lemma keeps_binding:
  assumes "heap_ok h" and "run h = Inr h'" and "a < length h"
    and "jmap_get (ns_children (h ! a)) k = Some e"
  shows "jmap_get (ns_children (h' ! a)) k = Some e"
  using grows [OF assms(1,2)] assms(3,4) by (auto simp: heap_grows_def intro: ns_grows_get)

lemma keeps_parent:
  assumes "heap_ok h" and "run h = Inr h'" and "a < length h"
    and "ns_parent (h ! a) = Some p"
  shows "ns_parent (h' ! a) = Some p"
  using grows [OF assms(1,2)] assms(3,4) by (auto simp: heap_grows_def ns_grows_def)

end

lemma addChildNamespace_Inr:
  assumes "addChildNamespace h this as child = Inr h'"
  shows "this < length h" "child < length h" "\<not> ns_isRoot (h ! this)"
    and "\<not> jmap_has (ns_children (h ! this)) as" "as \<noteq> SUPER_IDENTIFIER"
    and "ns_parent (h ! child) = None"
    and "children_set (h[child := (h ! child)\<lparr>ns_parent := Some this\<rparr>]) this as
      (EntryNs child) = Inr h'"
  using assms by (auto simp: addChildNamespace_def bindR_eq_Inr_iff setParent_def)

interpretation add_child_ns: heap_mutator "\<lambda>h. addChildNamespace h this as child" for this as child
proof
  fix h h' assume ok: "heap_ok h" and run: "addChildNamespace h this as child = Inr h'"
  note facts = addChildNamespace_Inr [OF run]
  let ?h = "h[child := (h ! child)\<lparr>ns_parent := Some this\<rparr>]"
  have grows: "heap_grows h ?h"
    using facts by (auto intro: heap_grows_update simp: ns_grows_def)
  have "ns_ok (length h) ((h ! child)\<lparr>ns_parent := Some this\<rparr>)"
    using heap_ok_nth [OF ok facts(2)] facts(1) by (simp add: ns_ok_def)
  with ok have ok': "heap_ok ?h" by (rule heap_ok_update)
  have new: "\<not> jmap_has (ns_children (?h ! this)) as"
    using facts by (cases "this = child") simp_all
  show "heap_ok h'"
    using children_set_new(2) [OF facts(7) new ok'] facts by (simp add: entry_ok_def)
  show "heap_grows h h'"
    using grows children_set_new(1) [OF facts(7) new] by (rule heap_grows_trans)
qed

interpretation add_child_item: heap_mutator "\<lambda>h. addChildItem h this as c" for this as c
  by unfold_locales
    (auto simp: addChildItem_def bindR_eq_Inr_iff entry_ok_def dest: children_set_new)

interpretation add_using: heap_mutator "\<lambda>h. addUsing h this as e" for this as e
  by unfold_locales
    (auto simp: addUsing_def bindR_eq_Inr_iff entry_ok_def dest: children_set_new
      split: ns_entry.splits)

definition root_adder :: "ns_addr \<Rightarrow> jstr \<Rightarrow> ns_addr \<Rightarrow> ns_heap \<Rightarrow> ns_heap result" where
  "root_adder this as child h =
     (if child < length h then rootAddChildNamespace h this as child else Inl DanglingReference)"

interpretation root_add: heap_mutator "root_adder this as child" for this as child
  by unfold_locales
    (auto simp: root_adder_def rootAddChildNamespace_def bindR_eq_Inr_iff entry_ok_def
      dest: children_set_new split: if_splits)

interpretation new_ns: heap_mutator "\<lambda>h. Inr (snd (new_Namespace name h))" for name
  by unfold_locales
    (auto simp: new_Namespace_def ns_ok_def jmap_keys_def intro!: heap_ok_append heap_grows_append)

interpretation new_root: heap_mutator "\<lambda>h. Inr (snd (new_RootNamespace h))"
  by unfold_locales
    (auto simp: new_RootNamespace_def ns_ok_def jmap_keys_def
      intro!: heap_ok_append heap_grows_append)

section \<open>Sequences of operations\<close>

text \<open>One step of the program on the store: any of the operations, with any arguments.\<close>

inductive ns_step :: "ns_heap \<Rightarrow> ns_heap \<Rightarrow> bool" where
  step_new: "new_Namespace name h = (a, h') \<Longrightarrow> ns_step h h'"
| step_new_root: "new_RootNamespace h = (a, h') \<Longrightarrow> ns_step h h'"
| step_child: "addChildNamespace h this as child = Inr h' \<Longrightarrow> ns_step h h'"
| step_item: "addChildItem h this as c = Inr h' \<Longrightarrow> ns_step h h'"
| step_using: "addUsing h this as e = Inr h' \<Longrightarrow> ns_step h h'"
| step_root: "child < length h \<Longrightarrow> rootAddChildNamespace h this as child = Inr h' \<Longrightarrow> ns_step h h'"

lemma ns_step_mutates: "ns_step h h' \<Longrightarrow> heap_ok h \<Longrightarrow> heap_ok h' \<and> heap_grows h h'"
proof (induction rule: ns_step.induct)
  case (step_new name h a h')
  then show ?case using new_ns.keeps_ok new_ns.grows by (metis snd_conv)
next
  case (step_new_root h a h')
  then show ?case using new_root.keeps_ok new_root.grows by (metis snd_conv)
next
  case (step_child h this as child h')
  then show ?case by (blast intro: add_child_ns.keeps_ok add_child_ns.grows)
next
  case (step_item h this as c h')
  then show ?case by (blast intro: add_child_item.keeps_ok add_child_item.grows)
next
  case (step_using h this as e h')
  then show ?case by (blast intro: add_using.keeps_ok add_using.grows)
next
  case (step_root child h this as h')
  then have "root_adder this as child h = Inr h'" by (simp add: root_adder_def)
  with step_root show ?case by (blast intro: root_add.keeps_ok root_add.grows)
qed

lemma ns_steps_mutate: "ns_step\<^sup>*\<^sup>* h h' \<Longrightarrow> heap_ok h \<Longrightarrow> heap_ok h' \<and> heap_grows h h'"
  by (induction rule: rtranclp_induct) (auto dest: ns_step_mutates intro: heap_grows_trans)

section \<open>Lookup\<close>

lemma lookupItem_Some_iff:
  "ns_lookupItem h a i = Inr (Some c) \<longleftrightarrow> ns_lookup h a i = Inr (Some (EntryItem c))"
proof (cases "ns_lookup h a i")
  case (Inr r)
  then show ?thesis
    by (cases r; cases "the r") (auto simp: ns_lookupItem.simps bindR_eq_Inr_iff)
qed (simp add: ns_lookupItem.simps)

lemma lookup_grows:
  "heap_grows h h' \<Longrightarrow> ns_lookup h a i = Inr (Some e) \<Longrightarrow> ns_lookup h' a i = Inr (Some e)"
  "heap_grows h h' \<Longrightarrow> ns_lookupItem h a i = Inr (Some c) \<Longrightarrow> ns_lookupItem h' a i = Inr (Some c)"
proof (induction h a i and h a i arbitrary: e and c rule: ns_lookup_ns_lookupItem.induct)
  case (1 h a i)
  from "1.prems"(2) have a: "a < length h"
    by (auto simp: ns_lookup.simps [of h] bindR_eq_Inr_iff)
  with "1.prems"(1) have a': "a < length h'" and g: "ns_grows (h ! a) (h' ! a)"
    by (auto simp: heap_grows_def)
  show ?case
  proof (cases "id_path i")
    case Nil
    with "1.prems"(2) a a' g show ?thesis
      by (auto simp: ns_lookup.simps [of h] ns_lookup.simps [of h'] ns_deref_eq ns_grows_def
          map_add_Some_iff split: if_splits)
  next
    case (Cons sub rest)
    define loc where "loc n = (if sub = SUPER_IDENTIFIER then map_option EntryNs (ns_parent n)
        else jmap_get (ns_children n) sub)" for n :: namespace
    from "1.prems"(2) a Cons obtain l item where cond: "ns_isRoot (h ! a) \<or> \<not> id_absolute i"
      and l: "loc (h ! a) = Some (EntryNs l)"
      and item: "ns_lookupItem h l \<lparr>id_absolute = id_absolute i, id_path = rest,
          id_name = id_name i\<rparr> = Inr (Some item)" and e: "e = EntryItem item"
      by (auto simp: ns_lookup.simps [of h] ns_deref_eq loc_def bindR_eq_Inr_iff
          split: if_splits option.splits ns_entry.splits)
    have "loc (h' ! a) = Some (EntryNs l)"
      using l g ns_grows_get [OF g] by (auto simp: loc_def ns_grows_def split: if_splits)
    moreover have "ns_lookupItem h' l \<lparr>id_absolute = id_absolute i, id_path = rest,
          id_name = id_name i\<rparr> = Inr (Some item)"
      using "1.IH" a cond Cons l item "1.prems"(1) by (simp add: loc_def ns_deref_eq)
    ultimately show ?thesis
      using a' cond g Cons e
      by (simp add: ns_lookup.simps [of h'] ns_deref_eq loc_def ns_grows_def)
  qed
next
  case (2 h a i)
  then show ?case by (simp add: lookupItem_Some_iff)
qed

text \<open>
  C13: names never change their meaning.  Whatever sequence of namespace operations the program
  performs on a well-formed store, the store stays well formed (no dangling reference, no name
  bound twice, none called \<^verbatim>\<open>super\<close>) and an identifier that resolved before resolves to the
  same item after.
\<close>

theorem name_resolution_stable:
  assumes "heap_ok h" and "ns_step\<^sup>*\<^sup>* h h'"
  shows "heap_ok h' \<and>
    (\<forall>a i e. ns_lookup h a i = Inr (Some e) \<longrightarrow> ns_lookup h' a i = Inr (Some e))"
  using ns_steps_mutate [OF assms(2,1)] lookup_grows(1) by blast

text \<open>The namespace that the first part of a path names.\<close>

definition path_step :: "namespace \<Rightarrow> jstr \<Rightarrow> ns_entry option" where
  "path_step n sub =
     (if sub = SUPER_IDENTIFIER then map_option EntryNs (ns_parent n)
      else jmap_get (ns_children n) sub)"

lemma ns_lookup_Nil:
  "a < length h \<Longrightarrow> id_path i = [] \<Longrightarrow> ns_lookup h a i =
     (if ns_isRoot (h ! a) \<or> \<not> id_absolute i
      then Inr (defined_entry (jmap_get (ns_children (h ! a)) (id_name i)))
      else Inl (NameError AbsoluteOutsideRoot))"
  by (simp add: ns_lookup.simps [of h] ns_deref_eq)

lemma ns_lookup_Cons:
  "a < length h \<Longrightarrow> id_path i = sub # rest \<Longrightarrow> ns_lookup h a i =
     (if ns_isRoot (h ! a) \<or> \<not> id_absolute i
      then (case path_step (h ! a) sub of
           Some (EntryNs loc) \<Rightarrow>
             bindR (ns_lookupItem h loc
                 \<lparr>id_absolute = id_absolute i, id_path = rest, id_name = id_name i\<rparr>)
               (\<lambda>item. Inr (map_option EntryItem item))
         | _ \<Rightarrow> Inl (NameError (FoundChildItem sub (ns_name (h ! a)))))
      else Inl (NameError AbsoluteOutsideRoot))"
  by (simp add: ns_lookup.simps [of h] ns_deref_eq path_step_def)

lemma ns_lookupItem_eq:
  "a < length h \<Longrightarrow> ns_lookupItem h a i =
     bindR (ns_lookup h a i) (\<lambda>item. case item of
         None \<Rightarrow> Inr None
       | Some EntryUndefined \<Rightarrow> Inr None
       | Some (EntryItem c) \<Rightarrow> Inr (Some c)
       | Some (EntryNs _) \<Rightarrow>
           Inl (NameError (LookupItemFoundNamespace (id_name i) (ns_name (h ! a)))))"
  by (simp add: ns_lookupItem.simps ns_deref_eq cong: option.case_cong ns_entry.case_cong)

lemmas ns_lookup_eqs = ns_lookup_Nil ns_lookup_Cons ns_lookupItem_eq

lemma path_step_ok:
  assumes "heap_ok h" and "a < length h" and "path_step (h ! a) sub = Some (EntryNs l)"
  shows "l < length h"
  using heap_ok_nth [OF assms(1,2)] assms(3)
  by (fastforce simp: path_step_def ns_ok_def entry_ok_def split: if_splits dest: map_of_SomeD)

lemma lookup_item_only:
  "a < length h \<Longrightarrow> id_path i \<noteq> [] \<Longrightarrow> ns_lookup h a i = Inr (Some e) \<Longrightarrow> \<exists>c. e = EntryItem c"
  by (cases "id_path i")
    (auto simp: ns_lookup_Cons bindR_eq_Inr_iff split: if_splits option.splits ns_entry.splits)

text \<open>The errors of a lookup in a well-formed store.\<close>

definition lookup_error :: "js_error \<Rightarrow> bool" where
  "lookup_error e \<longleftrightarrow> (case e of NameError n \<Rightarrow>
       (case n of FoundChildItem _ _ \<Rightarrow> True | LookupItemFoundNamespace _ _ \<Rightarrow> True
        | AbsoluteOutsideRoot \<Rightarrow> True | _ \<Rightarrow> False)
     | _ \<Rightarrow> False)"

lemma lookup_errors:
  "heap_ok h \<Longrightarrow> a < length h \<Longrightarrow> ns_lookup h a i = Inl e \<Longrightarrow> lookup_error e"
  "heap_ok h \<Longrightarrow> a < length h \<Longrightarrow> ns_lookupItem h a i = Inl f \<Longrightarrow> lookup_error f"
proof (induction h a i and h a i arbitrary: e and f rule: ns_lookup_ns_lookupItem.induct)
  case (1 h a i)
  show ?case
  proof (cases "id_path i")
    case Nil
    with "1.prems" show ?thesis
      by (auto simp: ns_lookup_Nil lookup_error_def split: if_splits)
  next
    case (Cons sub rest)
    show ?thesis
    proof (cases "(ns_isRoot (h ! a) \<or> \<not> id_absolute i) \<and>
        (\<exists>l. path_step (h ! a) sub = Some (EntryNs l))")
      case True
      then obtain l where cond: "ns_isRoot (h ! a) \<or> \<not> id_absolute i"
        and l: "path_step (h ! a) sub = Some (EntryNs l)"
        by blast
      have "l < length h" using "1.prems"(1,2) l by (rule path_step_ok)
      moreover have "ns_lookupItem h l
          \<lparr>id_absolute = id_absolute i, id_path = rest, id_name = id_name i\<rparr> = Inl e"
        using "1.prems" cond l Cons by (simp add: ns_lookup_Cons bindR_eq_Inl_iff)
      ultimately show ?thesis
        using "1.IH" "1.prems"(1,2) cond Cons l by (simp add: path_step_def ns_deref_eq)
    next
      case False
      with "1.prems" Cons show ?thesis
        by (auto simp: ns_lookup_Cons lookup_error_def
            split: if_splits option.splits ns_entry.splits)
    qed
  qed
next
  case (2 h a i)
  show ?case
  proof (cases "ns_lookup h a i")
    case (Inl e)
    with 2 show ?thesis by (simp add: ns_lookupItem_eq)
  next
    case (Inr r)
    with "2.prems" show ?thesis
      by (cases r; cases "the r") (auto simp: ns_lookupItem_eq lookup_error_def)
  qed
qed

text \<open>
  C39: looking a name up in a well-formed store either answers or throws one of the three errors
  of \<^verbatim>\<open>namespace.ts\<close>; no reference it follows dangles.
\<close>

theorem lookup_never_dangles:
  assumes "heap_ok h" and "a < length h"
  shows "case ns_lookup h a i of Inl e \<Rightarrow> lookup_error e
    | Inr r \<Rightarrow> (\<forall>n. r = Some (EntryNs n) \<longrightarrow> n < length h)"
proof (cases "ns_lookup h a i")
  case (Inl e)
  with assms show ?thesis by (simp add: lookup_errors)
next
  case (Inr r)
  have "n < length h" if r: "r = Some (EntryNs n)" for n
  proof (cases "id_path i")
    case Nil
    with Inr r assms(2) have "(id_name i, EntryNs n) \<in> set (ns_children (h ! a))"
      by (auto simp: ns_lookup_Nil split: if_splits dest: map_of_SomeD)
    with heap_ok_nth [OF assms] show ?thesis by (force simp: ns_ok_def entry_ok_def)
  next
    case Cons
    with Inr r assms(2) lookup_item_only [of a h i "EntryNs n"] show ?thesis by simp
  qed
  with Inr show ?thesis by simp
qed

text \<open>
  A path through a name that is bound to no namespace throws, also where the name is not
  bound at all: \<^verbatim>\<open>lookup\<close> answers \<^verbatim>\<open>undefined\<close> only when the last name is missing, never
  because a namespace on the way is (the code's test for an undefined namespace comes after the
  one that throws).
\<close>

lemma lookup_missing_namespace_throws:
  assumes "a < length h" and "id_path i = sub # rest"
    and "\<forall>l. path_step (h ! a) sub \<noteq> Some (EntryNs l)"
  shows "ns_lookup h a i = Inl (NameError
    (if ns_isRoot (h ! a) \<or> \<not> id_absolute i then FoundChildItem sub (ns_name (h ! a))
     else AbsoluteOutsideRoot))"
  using assms by (auto simp: ns_lookup_Cons split: option.splits ns_entry.splits)

text \<open>
  C40: an absolute identifier that names a namespace never resolves, even when it is looked up in
  the root namespace as the code demands: the flag is passed on to the child namespace, which
  is no root and refuses it.
\<close>

theorem absolute_path_never_resolves:
  assumes "heap_ok h" and "a < length h" and "id_absolute i" and "id_path i = sub # rest"
    and "\<forall>l. path_step (h ! a) sub = Some (EntryNs l) \<longrightarrow> \<not> ns_isRoot (h ! l)"
  shows "\<exists>e. ns_lookup h a i = Inl e"
proof (cases "ns_isRoot (h ! a) \<and> (\<exists>l. path_step (h ! a) sub = Some (EntryNs l))")
  case True
  then obtain l where root: "ns_isRoot (h ! a)" and l: "path_step (h ! a) sub = Some (EntryNs l)"
    by blast
  have "l < length h" using assms(1,2) l by (rule path_step_ok)
  with assms(3,5) l have "ns_lookup h l
      \<lparr>id_absolute = id_absolute i, id_path = rest, id_name = id_name i\<rparr>
      = Inl (NameError AbsoluteOutsideRoot)"
    by (simp add: ns_lookup.simps ns_deref_eq)
  with \<open>l < length h\<close> show ?thesis
    using assms(2,3,4) root l by (simp add: ns_lookup_Cons ns_lookupItem_eq)
next
  case False
  with assms show ?thesis by (auto simp: ns_lookup_Cons split: option.splits ns_entry.splits)
qed

text \<open>
  Adding a child namespace links both ways: from the parent, names of the child resolve under
  the new name, and from the child, \<^verbatim>\<open>super\<close> leads back to the parent.
\<close>

lemma addChildNamespace_links:
  assumes "addChildNamespace h this as child = Inr h'" and "this \<noteq> child"
  shows "ns_lookup h' this \<lparr>id_absolute = False, id_path = [as], id_name = n\<rparr> =
      bindR (ns_lookupItem h' child \<lparr>id_absolute = False, id_path = [], id_name = n\<rparr>)
        (\<lambda>c. Inr (map_option EntryItem c)) \<and>
    ns_lookup h' child \<lparr>id_absolute = False, id_path = [SUPER_IDENTIFIER], id_name = n\<rparr> =
      bindR (ns_lookupItem h' this \<lparr>id_absolute = False, id_path = [], id_name = n\<rparr>)
        (\<lambda>c. Inr (map_option EntryItem c))"
proof -
  note facts = addChildNamespace_Inr [OF assms(1)]
  from facts(7) assms(2) have "path_step (h' ! this) as = Some (EntryNs child)"
    and "path_step (h' ! child) SUPER_IDENTIFIER = Some (EntryNs this)"
    and "length h' = length h"
    using facts by (auto simp: children_set_Inr path_step_def)
  with facts show ?thesis by (simp add: ns_lookup_Cons)
qed

section \<open>Witnesses\<close>

text \<open>
  A store with the root of a file (address 0) and the namespace of a module \<^verbatim>\<open>m\<close> (address 1)
  that holds the command \<^verbatim>\<open>c\<close>, loaded into the root.
\<close>

definition sample_heap :: ns_heap where
  "sample_heap =
     [\<lparr>ns_name = js ''__root__'', ns_isRoot = True, ns_parent = None,
        ns_children = [(js ''m'', EntryNs 1)]\<rparr>,
      \<lparr>ns_name = js ''m'', ns_isRoot = False, ns_parent = None,
        ns_children = [(js ''c'', EntryItem RequireCommand)]\<rparr>]"

lemma sample_heap_ok: "heap_ok sample_heap"
  by (simp add: heap_ok_def sample_heap_def ns_ok_def entry_ok_def jmap_keys_def
      SUPER_IDENTIFIER_def)

lemma sample_steps:
  "ns_step\<^sup>*\<^sup>* sample_heap (snd (new_Namespace (js ''k'') sample_heap))"
  by (rule r_into_rtranclp) (rule step_new [of "js ''k''" _ 2], simp add: new_Namespace_def sample_heap_def)

theorem name_resolution_stable_witness:
  "ns_lookup (snd (new_Namespace (js ''k'') sample_heap)) 0
     \<lparr>id_absolute = False, id_path = [js ''m''], id_name = js ''c''\<rparr> =
   Inr (Some (EntryItem RequireCommand))"
proof -
  have "ns_lookup sample_heap 0 \<lparr>id_absolute = False, id_path = [js ''m''], id_name = js ''c''\<rparr> =
      Inr (Some (EntryItem RequireCommand))"
    by (simp add: ns_lookup_eqs path_step_def SUPER_IDENTIFIER_def sample_heap_def)
  with name_resolution_stable [OF sample_heap_ok sample_steps] show ?thesis by blast
qed

theorem lookup_never_dangles_witness:
  "case ns_lookup sample_heap 0 \<lparr>id_absolute = False, id_path = [], id_name = js ''m''\<rparr> of
     Inl e \<Rightarrow> lookup_error e | Inr r \<Rightarrow> (\<forall>n. r = Some (EntryNs n) \<longrightarrow> n < length sample_heap)"
  by (rule lookup_never_dangles [OF sample_heap_ok]) (simp add: sample_heap_def)

theorem absolute_path_never_resolves_witness:
  "\<exists>e. ns_lookup sample_heap 0 \<lparr>id_absolute = True, id_path = [js ''m''], id_name = js ''c''\<rparr> = Inl e"
  by (rule absolute_path_never_resolves [OF sample_heap_ok, where sub = "js ''m''" and rest = "[]"])
    (simp_all add: sample_heap_def path_step_def SUPER_IDENTIFIER_def)

definition pair_heap :: ns_heap where
  "pair_heap =
     [\<lparr>ns_name = js ''p'', ns_isRoot = False, ns_parent = None,
        ns_children = [(js ''c'', EntryItem RequireCommand)]\<rparr>,
      \<lparr>ns_name = js ''q'', ns_isRoot = False, ns_parent = None, ns_children = []\<rparr>]"

end
