(* ===== verification/Modules.thy ===== *)
theory Modules
  imports Namespaces
begin

text \<open>
  The registry of modules (\<^verbatim>\<open>internal/registry/registry.ts\<close>), the module objects
  (\<^verbatim>\<open>internal/module/module.ts\<close>) and the storage that a file gets of them
  (\<^verbatim>\<open>internal/context/fileContext.ts\<close>).
\<close>

section \<open>Drawers\<close>

text \<open>
  \<^verbatim>\<open>Drawer<T>\<close>: a map that refuses to bind a name twice.  The callback of \<^verbatim>\<open>forEach\<close> changes what it
  closes over, the last argument.
\<close>

definition new_Drawer :: "'v jmap" where
  "new_Drawer = []"

declare new_Drawer_def [simp]

definition drawer_forEach :: "('v \<Rightarrow> jstr \<Rightarrow> 's \<Rightarrow> 's) \<Rightarrow> 'v jmap \<Rightarrow> 's \<Rightarrow> 's" where
  "drawer_forEach f d s = foldl (\<lambda>s (name, val). f val name s) s d"

definition drawer_has :: "'v jmap \<Rightarrow> jstr \<Rightarrow> bool" where
  "drawer_has d name = jmap_has d name"

definition drawer_get :: "'v jmap \<Rightarrow> jstr \<Rightarrow> 'v option" where
  "drawer_get d name = jmap_get d name"

definition drawer_getOrErr :: "'v jmap \<Rightarrow> jstr \<Rightarrow> 'v result" where
  "drawer_getOrErr d name = (case jmap_get d name of
       None \<Rightarrow> Inl (ModuleError (DrawerEntryMissing name))
     | Some val \<Rightarrow> Inr val)"

definition drawer_declare :: "'v jmap \<Rightarrow> jstr \<Rightarrow> 'v \<Rightarrow> 'v jmap result" where
  "drawer_declare d name cont =
     (if jmap_has d name then Inl (ModuleError (DrawerDuplicate name))
      else Inr (jmap_set name cont d))"

text \<open>Declaring in sequence, as the loading of several modules does.\<close>

definition drawer_declare_all :: "'v jmap \<Rightarrow> (jstr \<times> 'v) list \<Rightarrow> 'v jmap result" where
  "drawer_declare_all d kvs = foldR (\<lambda>d (k, v). drawer_declare d k v) d kvs"

lemma drawer_declare_Inr:
  "drawer_declare d k v = Inr d' \<longleftrightarrow> \<not> jmap_has d k \<and> d' = d @ [(k, v)]"
  by (auto simp: drawer_declare_def jmap_set_new)

lemma jmap_has_append:
  "jmap_has (d @ e) k \<longleftrightarrow> jmap_has d k \<or> jmap_has e k"
  by (auto simp: jmap_has_def map_add_def split: option.splits)

lemma jmap_has_single [simp]: "jmap_has [(k, v)] k' \<longleftrightarrow> k' = k"
  by (auto simp: jmap_has_def)

lemma drawer_declare_all_Inr:
  "drawer_declare_all d kvs = Inr d' \<longleftrightarrow>
     distinct (map fst kvs) \<and> (\<forall>(k, v) \<in> set kvs. \<not> jmap_has d k) \<and> d' = d @ kvs"
proof (induction kvs arbitrary: d)
  case (Cons kv kvs)
  then show ?case
    by (cases kv)
      (force simp: drawer_declare_all_def bindR_eq_Inr_iff drawer_declare_Inr jmap_has_append)
qed (auto simp: drawer_declare_all_def)

section \<open>Modules\<close>

text \<open>
  The closures that \<^verbatim>\<open>std/output\<close> makes for nodes and strings, and those of users' modules, by
  reference.
\<close>

datatype node_outputter =
    HtmlRootOutputter
  | HtmlTagOutputter jstr "(jstr \<times> jstr) list"
  | HtmlMaketitleOutputter
  | LatexRootOutputter
  | LatexParaOutputter
  | LatexNoCurlyCommandOutputter jstr
  | LatexSingleCurlyCommandOutputter jstr
  | LatexBlockOutputter jstr
  | UserNodeOutputter nat

datatype string_provider =
    HtmlStringOutputter
  | LatexStringOutputter
  | UserStringProvider nat

text \<open>
  \<^verbatim>\<open>LapolModule\<close>.  The instantiator of a module makes a new storage object each time; its
  model is the object it makes.  The array of loaded submodules is shared with the loader, which
  appends to it later, so a module holds its address.
\<close>

type_synonym sub_array = nat

record lapol_module =
  mod_namespace :: ns_addr
  mod_identifier :: jstr
  mod_loadedSubModules :: sub_array
  mod_instantiate :: file_store
  mod_nodeOutputters :: "node_outputter jmap jmap"
  mod_stringProviders :: "string_provider jmap"

record registry =
  reg_targetNames :: "jstr list"
  reg_modules :: "lapol_module jmap"

text \<open>The namespaces of the modules lie below an address, such as the length of the store.\<close>

definition registry_ok :: "registry \<Rightarrow> nat \<Rightarrow> bool" where
  "registry_ok reg n \<longleftrightarrow> (\<forall>(k, m) \<in> set (reg_modules reg). mod_namespace m < n)"

definition new_LapolRegistry :: registry where
  "new_LapolRegistry = \<lparr>reg_targetNames = [], reg_modules = new_Drawer\<rparr>"

definition new_LapolModule ::
  "command jmap \<Rightarrow> jstr \<Rightarrow> sub_array \<Rightarrow> file_store \<Rightarrow> node_outputter jmap jmap \<Rightarrow>
   string_provider jmap \<Rightarrow> ns_heap \<Rightarrow> (lapol_module \<times> ns_heap) result" where
  "new_LapolModule commands identifier loadedSubModules instantiate nodeOutputters
       stringProviders h =
     (let (a, h1) = new_Namespace identifier h in
      bindR (foldR (\<lambda>h (n, c). addChildItem h a n c) h1 commands) (\<lambda>h2.
        Inr (\<lparr>mod_namespace = a, mod_identifier = identifier,
              mod_loadedSubModules = loadedSubModules, mod_instantiate = instantiate,
              mod_nodeOutputters = nodeOutputters, mod_stringProviders = stringProviders\<rparr>, h2)))"

definition getLtrfNodeOutputter_mod :: "lapol_module \<Rightarrow> jstr \<Rightarrow> jstr \<Rightarrow> node_outputter option" where
  "getLtrfNodeOutputter_mod m targetLanguage tag =
     (case jmap_get (mod_nodeOutputters m) targetLanguage of
        None \<Rightarrow> None
      | Some a \<Rightarrow> jmap_get a tag)"

definition getStringOutputterProvider :: "lapol_module \<Rightarrow> jstr \<Rightarrow> string_provider option" where
  "getStringOutputterProvider m targetLanguage = jmap_get (mod_stringProviders m) targetLanguage"

section \<open>The storage of a file\<close>

text \<open>\<^verbatim>\<open>FileContext.make\<close>: one fresh storage per registered module, under the module's key.\<close>

definition make_FileContext :: "registry \<Rightarrow> module_storage" where
  "make_FileContext reg =
     drawer_forEach (\<lambda>v k st. jmap_set k (mod_instantiate v) st) (reg_modules reg) []"

lemma make_FileContext_eq:
  "make_FileContext reg = foldl (\<lambda>st (k, v). jmap_set k (mod_instantiate v) st) [] (reg_modules reg)"
  by (simp add: make_FileContext_def drawer_forEach_def)

lemma foldl_set_distinct:
  "distinct (map fst kvs) \<Longrightarrow> (\<forall>(k, v) \<in> set kvs. \<not> jmap_has st k) \<Longrightarrow>
   foldl (\<lambda>st (k, v). jmap_set k (f v) st) st kvs = st @ map (\<lambda>(k, v). (k, f v)) kvs"
proof (induction kvs arbitrary: st)
  case (Cons kv kvs)
  obtain k v where kv: "kv = (k, v)" by (cases kv)
  with Cons.prems have "\<not> jmap_has st k" by simp
  moreover have "\<forall>(k', v') \<in> set kvs. \<not> jmap_has (st @ [(k, f v)]) k'"
    using Cons.prems kv by (force simp: jmap_has_append)
  ultimately show ?case
    using Cons.IH [of "st @ [(k, f v)]"] Cons.prems kv by (simp add: jmap_set_new)
qed simp

text \<open>
  A registry built by declarations gives every file a storage for exactly its modules, in
  their order, each the one its module instantiates.
\<close>

lemma make_FileContext_declared:
  assumes "drawer_declare_all [] mods = Inr (reg_modules reg)"
  shows "make_FileContext reg = map (\<lambda>(k, m). (k, mod_instantiate m)) mods \<and>
    (\<forall>k. getFileModuleStorage (make_FileContext reg) k =
      (case drawer_get (reg_modules reg) k of
         None \<Rightarrow> Inl (CommandError (FileModuleStorageNotFound k))
       | Some m \<Rightarrow> Inr (mod_instantiate m)))"
proof -
  from assms have d: "distinct (map fst mods)" and reg: "reg_modules reg = mods"
    by (simp_all add: drawer_declare_all_Inr)
  have fc: "make_FileContext reg = map (\<lambda>(k, m). (k, mod_instantiate m)) mods"
    unfolding make_FileContext_eq reg
    using foldl_set_distinct [OF d, of "[]" mod_instantiate] by (simp add: jmap_has_def)
  have "map_of (map (\<lambda>(k, m). (k, mod_instantiate m)) mods) k =
      map_option mod_instantiate (map_of mods k)" for k
    by (simp add: map_of_map)
  then show ?thesis
    by (simp add: fc reg drawer_get_def getFileModuleStorage_def split: option.splits)
qed

section \<open>The namespace of a module\<close>

lemma add_items_heap:
  assumes "foldR (\<lambda>h (n, c). addChildItem h a n c) h items = Inr h'" and "a < length h"
  shows "length h' = length h \<and> (\<forall>b. b \<noteq> a \<longrightarrow> h' ! b = h ! b) \<and>
    h' ! a = (h ! a)\<lparr>ns_children := ns_children (h ! a) @
      map (\<lambda>(n, c). (n, EntryItem c)) items\<rparr>"
  using assms
proof (induction items arbitrary: h)
  case (Cons nc items)
  obtain n c where nc: "nc = (n, c)" by (cases nc)
  with Cons.prems obtain h1 where h1: "addChildItem h a n c = Inr h1"
    and rest: "foldR (\<lambda>h (n, c). addChildItem h a n c) h1 items = Inr h'"
    by (auto simp: bindR_eq_Inr_iff)
  from h1 have "h1 = h[a := (h ! a)\<lparr>ns_children := ns_children (h ! a) @ [(n, EntryItem c)]\<rparr>]"
    by (auto simp: addChildItem_def bindR_eq_Inr_iff children_set_Inr jmap_set_new)
  with Cons.IH [OF rest] Cons.prems(2) nc show ?case by simp
qed simp

text \<open>
  The namespace of a new module holds exactly the module's commands, under their names and
  in their order, and no other namespace changes.
\<close>

lemma new_LapolModule_namespace:
  assumes "new_LapolModule commands ident subs inst outs provs h = Inr (m, h')"
  shows "mod_namespace m = length h \<and> length h' = Suc (length h) \<and>
    (\<forall>b < length h. h' ! b = h ! b) \<and>
    ns_children (h' ! length h) = map (\<lambda>(n, c). (n, EntryItem c)) commands \<and>
    \<not> ns_isRoot (h' ! length h) \<and> ns_parent (h' ! length h) = None"
proof -
  let ?h1 = "h @ [\<lparr>ns_name = ident, ns_isRoot = False, ns_parent = None, ns_children = []\<rparr>]"
  from assms have m: "mod_namespace m = length h"
    and fold: "foldR (\<lambda>h (n, c). addChildItem h (length h0) n c) ?h1 commands = Inr h'"
      if "h0 = h" for h0
    using that by (auto simp: new_LapolModule_def new_Namespace_def bindR_eq_Inr_iff)
  from add_items_heap [OF fold [OF refl]] have
    "length h' = Suc (length h)" "\<forall>b. b \<noteq> length h \<longrightarrow> h' ! b = ?h1 ! b"
    "h' ! length h = (?h1 ! length h)\<lparr>ns_children := ns_children (?h1 ! length h) @
      map (\<lambda>(n, c). (n, EntryItem c)) commands\<rparr>"
    by simp_all
  with m show ?thesis by (auto simp: nth_append)
qed

lemma add_items_total:
  assumes "a < length h"
  shows "(\<exists>h'. foldR (\<lambda>h (n, c). addChildItem h a n c) h items = Inr h') \<longleftrightarrow>
    distinct (map fst items) \<and> SUPER_IDENTIFIER \<notin> fst ` set items \<and>
    (\<forall>(n, c) \<in> set items. \<not> jmap_has (ns_children (h ! a)) n)"
  using assms
proof (induction items arbitrary: h)
  case (Cons nc items)
  obtain n c where nc: "nc = (n, c)" by (cases nc)
  let ?h = "h[a := (h ! a)\<lparr>ns_children := ns_children (h ! a) @ [(n, EntryItem c)]\<rparr>]"
  show ?case
  proof (cases "jmap_has (ns_children (h ! a)) n \<or> n = SUPER_IDENTIFIER")
    case True
    then show ?thesis
      using Cons.prems by (auto simp: nc addChildItem_def ns_deref_eq bindR_eq_Inr_iff)
  next
    case False
    then have "addChildItem h a n c = Inr ?h"
      using Cons.prems by (simp add: addChildItem_def ns_deref_eq children_set_def jmap_set_new)
    with Cons.IH [of ?h] Cons.prems False show ?thesis
      by (force simp: nc jmap_has_append)
  qed
qed simp

text \<open>The module that is made, and its namespace.\<close>

definition new_module ::
  "command jmap \<Rightarrow> jstr \<Rightarrow> sub_array \<Rightarrow> file_store \<Rightarrow> node_outputter jmap jmap \<Rightarrow>
   string_provider jmap \<Rightarrow> ns_addr \<Rightarrow> lapol_module" where
  "new_module commands ident subs inst outs provs a = \<lparr>mod_namespace = a, mod_identifier = ident,
     mod_loadedSubModules = subs, mod_instantiate = inst, mod_nodeOutputters = outs,
     mod_stringProviders = provs\<rparr>"

lemma new_LapolModule_eq:
  assumes "distinct (map fst commands)" and "SUPER_IDENTIFIER \<notin> fst ` set commands"
  shows "new_LapolModule commands ident subs inst outs provs h =
    Inr (new_module commands ident subs inst outs provs (length h),
      h @ [\<lparr>ns_name = ident, ns_isRoot = False, ns_parent = None,
        ns_children = map (\<lambda>(n, c). (n, EntryItem c)) commands\<rparr>])"
proof -
  let ?h1 = "h @ [\<lparr>ns_name = ident, ns_isRoot = False, ns_parent = None, ns_children = []\<rparr>]"
  obtain h' where fold: "foldR (\<lambda>h (n, c). addChildItem h (length h0) n c) ?h1 commands = Inr h'"
    if "h0 = h" for h0
    using add_items_total [of "length h" ?h1 commands] assms by (auto simp: jmap_has_def)
  from add_items_heap [OF fold [OF refl]] have "h' = h @ [\<lparr>ns_name = ident, ns_isRoot = False,
      ns_parent = None, ns_children = map (\<lambda>(n, c). (n, EntryItem c)) commands\<rparr>]"
    by (intro nth_equalityI) (auto simp: nth_append less_Suc_eq)
  with fold [OF refl] show ?thesis
    by (simp add: new_LapolModule_def new_Namespace_def new_module_def)
qed

text \<open>
  A module can be made exactly when no two of its commands have the same name and none is
  called \<^verbatim>\<open>super\<close>.
\<close>

lemma new_LapolModule_succeeds_iff:
  "(\<exists>m h'. new_LapolModule commands ident subs inst outs provs h = Inr (m, h')) =
     (distinct (map fst commands) \<and> SUPER_IDENTIFIER \<notin> fst ` set commands)"
  using add_items_total [of "length h" "snd (new_Namespace ident h)" commands]
  by (auto simp: new_LapolModule_def new_Namespace_def bindR_eq_Inr_iff jmap_has_def)

end
