(* ===== verification/CoreCommands.thy ===== *)
theory CoreCommands
  imports Modules Ast
begin

text \<open>
  Environments (\<^verbatim>\<open>internal/evaluate/environment.ts\<close>, \<^verbatim>\<open>internal/evaluate/setup.ts\<close>) and the
  commands that change them: \<^verbatim>\<open>__require\<close>, \<^verbatim>\<open>__using\<close> and \<^verbatim>\<open>__using_all\<close> (\<^verbatim>\<open>std/core.ts\<close>).
\<close>

section \<open>Evaluation state\<close>

text \<open>
  What evaluating a file reads and what it changes: the registry, the address of the file's root
  namespace and the code of users' modules on the one hand; the namespaces, the names of the
  loaded modules, the file's module storage and the warnings printed so far on the other.
\<close>

record eval_ctx =
  ctx_registry :: registry
  ctx_root :: ns_addr
  ctx_user :: user_code

record eval_state =
  ev_heap :: ns_heap
  ev_loadedModules :: "jstr list"
  ev_storage :: module_storage
  ev_console :: "root_warning list"

type_synonym 'a eval = "(eval_state, 'a) act"

definition on_heap :: "(ns_heap \<Rightarrow> ns_heap result) \<Rightarrow> unit eval" where
  "on_heap f = (\<lambda>s. Some (case f (ev_heap s) of
       Inl e \<Rightarrow> Inl e
     | Inr h \<Rightarrow> Inr ((), s\<lparr>ev_heap := h\<rparr>)))"

definition ask_heap :: "(ns_heap \<Rightarrow> 'a result) \<Rightarrow> 'a eval" where
  "ask_heap f = (\<lambda>s. Some (case f (ev_heap s) of Inl e \<Rightarrow> Inl e | Inr x \<Rightarrow> Inr (x, s)))"

definition on_storage :: "(module_storage, 'a) act \<Rightarrow> 'a eval" where
  "on_storage m = (\<lambda>s. case m (ev_storage s) of
       None \<Rightarrow> None
     | Some (Inl e) \<Rightarrow> Some (Inl e)
     | Some (Inr (x, st)) \<Rightarrow> Some (Inr (x, s\<lparr>ev_storage := st\<rparr>)))"

lemma on_heap_Inr:
  "on_heap f s = Some (Inr (u, s')) \<longleftrightarrow> (\<exists>h. f (ev_heap s) = Inr h \<and> s' = s\<lparr>ev_heap := h\<rparr>)"
  by (auto simp: on_heap_def split: sum.splits)

lemma ask_heap_Inr: "ask_heap f s = Some (Inr (x, s')) \<longleftrightarrow> f (ev_heap s) = Inr x \<and> s' = s"
  by (auto simp: ask_heap_def split: sum.splits)

lemmas eval_Inr_iffs = act_Inr_iffs on_heap_Inr ask_heap_Inr

section \<open>Environments\<close>

text \<open>\<^verbatim>\<open>loadModule\<close>: the module's name is recorded first, then its namespace is added.\<close>

definition env_loadModule :: "eval_ctx \<Rightarrow> lapol_module \<Rightarrow> jstr option \<Rightarrow> unit eval" where
  "env_loadModule c m as =
     act_bind (act_update (\<lambda>s. s\<lparr>ev_loadedModules := ev_loadedModules s @ [mod_identifier m]\<rparr>)) (\<lambda>_.
       on_heap (\<lambda>h. rootAddChildNamespace h (ctx_root c)
         (case as of None \<Rightarrow> mod_identifier m | Some a \<Rightarrow> a) (mod_namespace m)))"

definition lookup_name :: "ns_heap \<Rightarrow> ns_addr \<Rightarrow> jstr \<Rightarrow> ns_entry option result" where
  "lookup_name h a s = bindR (parseIdentifier s) (\<lambda>i. ns_lookup h a i)"

definition lookup_item_name :: "ns_heap \<Rightarrow> ns_addr \<Rightarrow> jstr \<Rightarrow> command option result" where
  "lookup_item_name h a s = bindR (parseIdentifier s) (\<lambda>i. ns_lookupItem h a i)"

definition lookupCommand :: "ns_heap \<Rightarrow> ns_addr \<Rightarrow> jstr \<Rightarrow> command result" where
  "lookupCommand h root commandName =
     bindR (lookup_item_name h root commandName) (\<lambda>item. case item of
         None \<Rightarrow> Inl (NameError (CommandNotInEnvironment commandName))
       | Some c \<Rightarrow> Inr c)"

definition STD_CORE_MOD :: jstr where
  "STD_CORE_MOD = js ''std::core''"

definition DEFAULT_USE_FROM_CORE :: "jstr list" where
  "DEFAULT_USE_FROM_CORE =
     [js ''__doc'', js ''__require'', js ''__using'', js ''__using_all'']"

text \<open>
  \<^verbatim>\<open>addUsingFromCoreHelper\<close> adds whatever the lookup of the command gave, \<^verbatim>\<open>undefined\<close>
  included.
\<close>

definition addUsingFromCore :: "ns_addr \<Rightarrow> ns_heap \<Rightarrow> jstr \<Rightarrow> ns_heap result" where
  "addUsingFromCore root h cmd =
     bindR (lookup_item_name h root (STD_CORE_MOD @ [colon] @ cmd)) (\<lambda>item.
       addUsing h root cmd (case item of None \<Rightarrow> EntryUndefined | Some c \<Rightarrow> EntryItem c))"

text \<open>
  \<^verbatim>\<open>makeEnvironmentWithStdCoreSetup\<close>, on the store: the new root, and the state in which the
  evaluation of the file starts.
\<close>

definition makeEnvironmentWithStdCoreSetup ::
  "user_code \<Rightarrow> registry \<Rightarrow> ns_heap \<Rightarrow> module_storage \<Rightarrow> (eval_ctx \<times> eval_state) result" where
  "makeEnvironmentWithStdCoreSetup u reg h0 storage =
     (let (root, h1) = new_RootNamespace h0;
          c = \<lparr>ctx_registry = reg, ctx_root = root, ctx_user = u\<rparr>
      in case drawer_get (reg_modules reg) STD_CORE_MOD of
           None \<Rightarrow> Inl (EvalError (CoreModuleRequired STD_CORE_MOD))
         | Some m \<Rightarrow>
             bindR (rootAddChildNamespace h1 root (mod_identifier m) (mod_namespace m)) (\<lambda>h2.
             bindR (foldR (addUsingFromCore root) h2 DEFAULT_USE_FROM_CORE) (\<lambda>h3.
               Inr (c, \<lparr>ev_heap = h3, ev_loadedModules = [mod_identifier m],
                        ev_storage = storage, ev_console = []\<rparr>))))"

section \<open>The core commands\<close>

text \<open>\<^verbatim>\<open>typeof x === "string"\<close> for a square argument.\<close>

definition as_string :: "cmd_square_arg \<Rightarrow> jstr option" where
  "as_string x = (case x of SqObj (LtrfStr s) \<Rightarrow> Some s | _ \<Rightarrow> None)"

definition require_string :: "core_error \<Rightarrow> cmd_square_arg \<Rightarrow> jstr result" where
  "require_string err x = (case as_string x of
       None \<Rightarrow> Inl (CoreError err) | Some s \<Rightarrow> Inr s)"

definition require_defined :: "core_error \<Rightarrow> 'a option \<Rightarrow> 'a result" where
  "require_defined err x = (case x of None \<Rightarrow> Inl (CoreError err) | Some y \<Rightarrow> Inr y)"

lemma require_defined_Inr [simp]: "require_defined e x = Inr y \<longleftrightarrow> x = Some y"
  by (cases x) (simp_all add: require_defined_def)

definition call_require :: "eval_ctx \<Rightarrow> command_args \<Rightarrow> ltrf_obj list eval" where
  "call_require c a =
     act_bind (act_lift (caOrErr a 0)) (\<lambda>arg.
     case js_index arg 0 of
       Some (LtrfStr modNode) \<Rightarrow>
         (let modName = js_trim modNode in
          case drawer_get (reg_modules (ctx_registry c)) modName of
            None \<Rightarrow> act_throw (CoreError (RequireModuleUnknown modName))
          | Some m \<Rightarrow> act_bind (env_loadModule c m None) (\<lambda>_. act_return []))
     | _ \<Rightarrow> act_throw (CoreError RequireNotString))"

text \<open>The arguments of \<^verbatim>\<open>__using\<close>: the full name of the thing, and the name to bind.\<close>

definition using_args :: "command_args \<Rightarrow> (jstr \<times> jstr) result" where
  "using_args a =
     bindR (require_defined UsingNoThing (sa a 0 None)) (\<lambda>thing0.
     bindR (require_string UsingThingNotString thing0) (\<lambda>thing.
     bindR (case kwa a (js ''from'') None of
         None \<Rightarrow> Inr []
       | Some f \<Rightarrow> bindR (require_string UsingFromNotString f) (\<lambda>from. Inr (from @ [colon]))) (\<lambda>from.
     bindR (require_defined UsingNoAs (kwa a (js ''as'') None)) (\<lambda>as0.
     bindR (require_string UsingAsNotString as0) (\<lambda>as.
     Inr (from @ thing, as))))))"

definition call_using :: "eval_ctx \<Rightarrow> command_args \<Rightarrow> ltrf_obj list eval" where
  "call_using c a =
     act_bind (act_lift (using_args a)) (\<lambda>(name, as).
     act_bind (ask_heap (\<lambda>h. lookup_name h (ctx_root c) name)) (\<lambda>target0.
     act_bind (act_lift (require_defined UsingNotFound target0)) (\<lambda>target.
     act_bind (on_heap (\<lambda>h. addUsing h (ctx_root c) as target)) (\<lambda>_. act_return []))))"

text \<open>
  The loop \<^verbatim>\<open>for (const [k, v] of target.children)\<close>.  Iterating over a JavaScript \<^verbatim>\<open>Map\<close> visits
  the entries that are added while it runs, so the loop reads the children afresh in each round;
  it need not end.
\<close>

partial_function (option) using_all_loop ::
  "ns_addr \<Rightarrow> ns_addr \<Rightarrow> jstr \<Rightarrow> ns_heap \<Rightarrow> nat \<Rightarrow> ns_heap result option" where
  "using_all_loop cur target prefixIn h i =
     (case ns_deref h target of
        Inl e \<Rightarrow> Some (Inl e)
      | Inr t \<Rightarrow>
         (case js_index (ns_children t) i of
            None \<Rightarrow> Some (Inr h)
          | Some kv \<Rightarrow>
              (case addUsing h cur (prefixIn @ fst kv) (snd kv) of
                 Inl e \<Rightarrow> Some (Inl e)
               | Inr h' \<Rightarrow> using_all_loop cur target prefixIn h' (Suc i))))"

definition using_all_args :: "command_args \<Rightarrow> (jstr \<times> jstr) result" where
  "using_all_args a =
     bindR (require_defined UsingAllNoFrom (kwa a (js ''from'') None)) (\<lambda>from0.
     bindR (require_string UsingAllFromNotString from0) (\<lambda>from.
     bindR (case kwa a (js ''prefix_in'') (Some (SqObj (LtrfStr []))) of
         None \<Rightarrow> Inl (CoreError UsingAllPrefixNotString)
       | Some p \<Rightarrow> require_string UsingAllPrefixNotString p) (\<lambda>prefixIn.
     Inr (from, prefixIn))))"

definition call_using_all :: "eval_ctx \<Rightarrow> command_args \<Rightarrow> ltrf_obj list eval" where
  "call_using_all c a =
     act_bind (act_lift (using_all_args a)) (\<lambda>(from, prefixIn).
     act_bind (ask_heap (\<lambda>h. lookup_name h (ctx_root c) from)) (\<lambda>target.
     case target of
       Some (EntryNs t) \<Rightarrow>
         (\<lambda>s. case using_all_loop (ctx_root c) t prefixIn (ev_heap s) 0 of
            None \<Rightarrow> None
          | Some (Inl e) \<Rightarrow> Some (Inl e)
          | Some (Inr h) \<Rightarrow> Some (Inr ([], s\<lparr>ev_heap := h\<rparr>)))
     | _ \<Rightarrow> act_throw (CoreError UsingAllFromNotNamespace)))"

text \<open>\<^verbatim>\<open>command.call(args, ctx)\<close>: dynamic dispatch on the command.\<close>

fun call_command :: "eval_ctx \<Rightarrow> command \<Rightarrow> command_args \<Rightarrow> ltrf_obj list eval" where
  "call_command c RequireCommand a = call_require c a"
| "call_command c UsingCommand a = call_using c a"
| "call_command c UsingAllCommand a = call_using_all c a"
| "call_command c (JsFnCommand name f) a = on_storage (call_js_fn (ctx_user c) name f a)"
| "call_command c (UserCommand i _) a = on_storage (user_command (ctx_user c) i a)"

section \<open>What a command may change\<close>

text \<open>
  The namespaces of modules are shared by all compilations, so evaluating a file must change
  none of them.  \<open>heap_inv\<close> is the invariant of the store during the evaluation of a file: the
  file's root has no parent and nothing refers to it, and the modules' namespaces are older.
  \<open>heap_frame\<close> says that only the file's root may change, by growing.
\<close>

definition root_private :: "ns_heap \<Rightarrow> ns_addr \<Rightarrow> bool" where
  "root_private h r \<longleftrightarrow>
     (\<forall>n \<in> set h. ns_parent n \<noteq> Some r \<and> (\<forall>(k, e) \<in> set (ns_children n). e \<noteq> EntryNs r))"

definition heap_inv :: "eval_ctx \<Rightarrow> ns_heap \<Rightarrow> bool" where
  "heap_inv c h \<longleftrightarrow> heap_ok h \<and> ctx_root c < length h \<and> ns_isRoot (h ! ctx_root c) \<and>
     ns_parent (h ! ctx_root c) = None \<and> root_private h (ctx_root c) \<and>
     registry_ok (ctx_registry c) (ctx_root c)"

definition heap_frame :: "ns_addr \<Rightarrow> ns_heap \<Rightarrow> ns_heap \<Rightarrow> bool" where
  "heap_frame r h h' \<longleftrightarrow> length h' = length h \<and> (\<forall>b. b \<noteq> r \<longrightarrow> h' ! b = h ! b) \<and>
     ns_grows (h ! r) (h' ! r)"

definition eval_frame :: "eval_ctx \<Rightarrow> eval_state \<Rightarrow> eval_state \<Rightarrow> bool" where
  "eval_frame c s s' \<longleftrightarrow> heap_frame (ctx_root c) (ev_heap s) (ev_heap s') \<and>
     (\<exists>ms. ev_loadedModules s' = ev_loadedModules s @ ms) \<and> ev_console s' = ev_console s"

definition user_code_returns :: "user_code \<Rightarrow> bool" where
  "user_code_returns u \<longleftrightarrow>
     (\<forall>i a st. user_fn u i a st \<noteq> None) \<and> (\<forall>i a st. user_command u i a st \<noteq> None)"

lemma heap_frame_refl [simp]: "heap_frame r h h"
  by (simp add: heap_frame_def)

lemma heap_frame_trans: "heap_frame r h i \<Longrightarrow> heap_frame r i j \<Longrightarrow> heap_frame r h j"
  by (auto simp: heap_frame_def intro: ns_grows_trans)

lemma heap_frame_grows: "heap_frame r h h' \<Longrightarrow> heap_grows h h'"
  unfolding heap_frame_def heap_grows_def by (metis ns_grows_refl order_refl)

interpretation evals: effect_frame "\<lambda>s. heap_inv c (ev_heap s)" "eval_frame c" for c
  by unfold_locales (auto simp: eval_frame_def intro: heap_frame_trans)

lemma root_private_update:
  assumes "root_private h r" and "\<not> jmap_has (ns_children (h ! a)) k" and "a < length h"
    and "e \<noteq> EntryNs r"
  shows "root_private (h[a := (h ! a)\<lparr>ns_children := jmap_set k e (ns_children (h ! a))\<rparr>]) r"
  using assms unfolding root_private_def
  by (fastforce dest!: set_update_subset_insert [THEN subsetD] simp: jmap_set_new)

lemma root_child_step:
  assumes "heap_inv c h" and "children_set h (ctx_root c) k e = Inr h'"
    and "\<not> jmap_has (ns_children (h ! ctx_root c)) k" and "k \<noteq> SUPER_IDENTIFIER"
    and "entry_ok (length h) e" and "e \<noteq> EntryNs (ctx_root c)"
  shows "heap_inv c h' \<and> heap_frame (ctx_root c) h h'"
proof -
  from assms(1) have ok: "heap_ok h" and r: "ctx_root c < length h"
    by (simp_all add: heap_inv_def)
  from assms(2) have h': "h' = h[ctx_root c :=
      (h ! ctx_root c)\<lparr>ns_children := jmap_set k e (ns_children (h ! ctx_root c))\<rparr>]"
    by (simp add: children_set_Inr)
  have "heap_ok h'" using children_set_new(2) [OF assms(2,3) ok assms(4,5)] .
  moreover have "root_private h' (ctx_root c)"
    unfolding h' using assms(1,3,6) r by (intro root_private_update) (simp_all add: heap_inv_def)
  ultimately show ?thesis
    using assms(1,3) r by (auto simp: h' heap_inv_def heap_frame_def intro: ns_grows_add)
qed

lemma addUsing_root:
  assumes "heap_inv c h" and "addUsing h (ctx_root c) k e = Inr h'"
  shows "heap_inv c h' \<and> heap_frame (ctx_root c) h h'"
proof (rule root_child_step [OF assms(1)])
  from assms(2) show "children_set h (ctx_root c) k e = Inr h'"
    "\<not> jmap_has (ns_children (h ! ctx_root c)) k" "k \<noteq> SUPER_IDENTIFIER" "entry_ok (length h) e"
    by (auto simp: addUsing_def bindR_eq_Inr_iff entry_ok_def split: ns_entry.splits)
  from assms show "e \<noteq> EntryNs (ctx_root c)"
    by (auto simp: addUsing_def bindR_eq_Inr_iff heap_inv_def)
qed

lemma rootAdd_root:
  assumes "heap_inv c h" and "rootAddChildNamespace h (ctx_root c) k a = Inr h'"
    and "a < ctx_root c"
  shows "heap_inv c h' \<and> heap_frame (ctx_root c) h h'"
proof (rule root_child_step [OF assms(1)])
  from assms(2) show "children_set h (ctx_root c) k (EntryNs a) = Inr h'"
    "\<not> jmap_has (ns_children (h ! ctx_root c)) k" "k \<noteq> SUPER_IDENTIFIER"
    by (auto simp: rootAddChildNamespace_def bindR_eq_Inr_iff)
  from assms show "entry_ok (length h) (EntryNs a)"
    by (simp add: heap_inv_def entry_ok_def)
  from assms(3) show "EntryNs a \<noteq> EntryNs (ctx_root c)" by simp
qed

lemma on_heap_safe:
  assumes "\<And>h h'. heap_inv c h \<Longrightarrow> f h = Inr h' \<Longrightarrow> heap_inv c h' \<and> heap_frame (ctx_root c) h h'"
  shows "evals.safe c (on_heap f)"
  by (rule evals.safeI)
    (auto simp: on_heap_def eval_frame_def dest: assms split: sum.splits)

lemma ask_heap_safe: "evals.safe c (ask_heap f)"
  by (rule evals.safeI) (auto simp: ask_heap_def eval_frame_def split: sum.splits)

lemma on_storage_safe: "(\<And>st. m st \<noteq> None) \<Longrightarrow> evals.safe c (on_storage m)"
  by (rule evals.safeI) (auto simp: on_storage_def eval_frame_def split: option.splits sum.splits)

lemma registry_get_ok:
  "registry_ok reg n \<Longrightarrow> drawer_get (reg_modules reg) k = Some m \<Longrightarrow> mod_namespace m < n"
  by (auto simp: registry_ok_def drawer_get_def dest: map_of_SomeD)

lemma loadModule_safe:
  assumes "drawer_get (reg_modules (ctx_registry c)) k = Some m"
  shows "evals.safe c (env_loadModule c m as)"
  unfolding env_loadModule_def
proof (intro evals.safe_bind evals.safe_update on_heap_safe)
  fix h h' assume inv: "heap_inv c h"
    and run: "rootAddChildNamespace h (ctx_root c)
      (case as of None \<Rightarrow> mod_identifier m | Some a \<Rightarrow> a) (mod_namespace m) = Inr h'"
  from inv assms have "mod_namespace m < ctx_root c"
    by (auto simp: heap_inv_def dest: registry_get_ok)
  with inv run show "heap_inv c h' \<and> heap_frame (ctx_root c) h h'" by (rule rootAdd_root)
qed (auto simp: eval_frame_def)

lemma call_require_safe: "evals.safe c (call_require c a)"
  unfolding call_require_def Let_def
  by (auto intro!: evals.safe_intros loadModule_safe
      split: option.splits ltrf_obj_of.splits)

lemma call_using_safe: "evals.safe c (call_using c a)"
  unfolding call_using_def split_def
  by (auto intro!: evals.safe_intros ask_heap_safe on_heap_safe dest: addUsing_root)

section \<open>The loop of \<open>__using_all\<close>\<close>

text \<open>
  As long as the namespace that is iterated over is not the one that grows, the loop is a fold
  over the children that were there when it started.
\<close>

lemma addUsing_other:
  "addUsing h cur k e = Inr h' \<Longrightarrow> t \<noteq> cur \<Longrightarrow> h' ! t = h ! t \<and> length h' = length h"
  by (auto simp: addUsing_def bindR_eq_Inr_iff children_set_Inr)

lemma using_all_loop_fold:
  assumes "t \<noteq> cur" and "t < length h"
  shows "using_all_loop cur t p h i =
    Some (foldR (\<lambda>h kv. addUsing h cur (p @ fst kv) (snd kv)) h (drop i (ns_children (h ! t))))"
  using assms(2)
proof (induction "length (ns_children (h ! t)) - i" arbitrary: h i)
  case 0
  then show ?case
    by (subst using_all_loop.simps) (simp add: ns_deref_eq js_index_def)
next
  case (Suc n)
  let ?ch = "ns_children (h ! t)"
  from Suc.hyps(2) have i: "i < length ?ch" by simp
  then have drop: "drop i ?ch = ?ch ! i # drop (Suc i) ?ch" by (rule Cons_nth_drop_Suc [symmetric])
  show ?case
  proof (cases "addUsing h cur (p @ fst (?ch ! i)) (snd (?ch ! i))")
    case (Inl e)
    with i Suc.prems show ?thesis
      by (subst using_all_loop.simps) (simp add: ns_deref_eq js_index_def drop)
  next
    case (Inr h')
    with assms(1) have same: "h' ! t = h ! t" "length h' = length h"
      by (auto dest: addUsing_other)
    have "using_all_loop cur t p h i = using_all_loop cur t p h' (Suc i)"
      using i Suc.prems Inr by (subst using_all_loop.simps) (simp add: ns_deref_eq js_index_def)
    also have "\<dots> = Some (foldR (\<lambda>h kv. addUsing h cur (p @ fst kv) (snd kv)) h'
        (drop (Suc i) (ns_children (h' ! t))))"
      by (rule Suc.hyps(1)) (use Suc.hyps(2) Suc.prems same in simp_all)
    finally show ?thesis using Inr same by (simp add: drop)
  qed
qed

lemma using_all_fold_root:
  assumes "heap_inv c h"
    and "foldR (\<lambda>h kv. addUsing h (ctx_root c) (p @ fst kv) (snd kv)) h kvs = Inr h'"
  shows "heap_inv c h' \<and> heap_frame (ctx_root c) h h'"
  using assms
proof (induction kvs arbitrary: h)
  case (Cons kv kvs)
  then obtain h1 where "addUsing h (ctx_root c) (p @ fst kv) (snd kv) = Inr h1"
    and rest: "foldR (\<lambda>h kv. addUsing h (ctx_root c) (p @ fst kv) (snd kv)) h1 kvs = Inr h'"
    by (auto simp: bindR_eq_Inr_iff)
  with Cons.prems(1) have "heap_inv c h1" and "heap_frame (ctx_root c) h h1"
    by (simp_all add: addUsing_root)
  with Cons.IH [OF _ rest] show ?case by (blast intro: heap_frame_trans)
qed simp

text \<open>A lookup in the file's root never answers with the root itself.\<close>

lemma lookup_not_root:
  assumes "heap_inv c h" and "lookup_name h (ctx_root c) s = Inr (Some (EntryNs t))"
  shows "t \<noteq> ctx_root c \<and> t < length h"
proof -
  from assms obtain i where run: "ns_lookup h (ctx_root c) i = Inr (Some (EntryNs t))"
    and ok: "heap_ok h" and r: "ctx_root c < length h" and priv: "root_private h (ctx_root c)"
    by (auto simp: lookup_name_def bindR_eq_Inr_iff heap_inv_def)
  show ?thesis
  proof (cases "id_path i")
    case Nil
    with run r have "(id_name i, EntryNs t) \<in> set (ns_children (h ! ctx_root c))"
      by (auto simp: ns_lookup_Nil split: if_splits dest: map_of_SomeD)
    moreover have "h ! ctx_root c \<in> set h" using r by simp
    ultimately show ?thesis
      using priv heap_ok_nth [OF ok r] by (force simp: root_private_def ns_ok_def entry_ok_def)
  next
    case Cons
    with lookup_item_only [OF r _ run] show ?thesis by simp
  qed
qed

lemma call_using_all_safe: "evals.safe c (call_using_all c a)"
  unfolding call_using_all_def split_def
proof (rule evals.safe_bind [OF evals.safe_lift])
  fix x :: "jstr \<times> jstr"
  let ?m = "act_bind (ask_heap (\<lambda>h. lookup_name h (ctx_root c) (fst x))) (\<lambda>target.
     case target of
       Some (EntryNs t) \<Rightarrow>
         (\<lambda>s. case using_all_loop (ctx_root c) t (snd x) (ev_heap s) 0 of
            None \<Rightarrow> None
          | Some (Inl e) \<Rightarrow> Some (Inl e)
          | Some (Inr h) \<Rightarrow> Some (Inr ([], s\<lparr>ev_heap := h\<rparr>)))
     | _ \<Rightarrow> act_throw (CoreError UsingAllFromNotNamespace)) :: ltrf_obj list eval"
  have run: "?m s = (case lookup_name (ev_heap s) (ctx_root c) (fst x) of
        Inl e \<Rightarrow> Some (Inl e)
      | Inr (Some (EntryNs t)) \<Rightarrow>
          (case foldR (\<lambda>h kv. addUsing h (ctx_root c) (snd x @ fst kv) (snd kv)) (ev_heap s)
              (ns_children (ev_heap s ! t)) of
             Inl e \<Rightarrow> Some (Inl e)
           | Inr h \<Rightarrow> Some (Inr ([], s\<lparr>ev_heap := h\<rparr>)))
      | _ \<Rightarrow> Some (Inl (CoreError UsingAllFromNotNamespace)))"
    if "heap_inv c (ev_heap s)" for s :: eval_state
    using lookup_not_root [OF that]
    by (auto simp: act_bind_def ask_heap_def act_simps using_all_loop_fold
        split: sum.splits option.splits ns_entry.splits)
  show "evals.safe c ?m"
  proof (rule evals.safeI)
    fix s :: eval_state assume "heap_inv c (ev_heap s)"
    then show "?m s \<noteq> None"
      by (auto simp: run split: sum.splits option.splits ns_entry.splits)
  next
    fix s y and s' :: eval_state assume inv: "heap_inv c (ev_heap s)" and "?m s = Some (Inr (y, s'))"
    then show "eval_frame c s s' \<and> heap_inv c (ev_heap s')"
      using using_all_fold_root [OF inv]
      by (auto simp: run eval_frame_def split: sum.splits option.splits ns_entry.splits)
  qed
qed

lemma call_js_fn_returns:
  assumes "user_code_returns u"
  shows "call_js_fn u n f a st \<noteq> None"
proof (cases "std_fn f")
  case True
  then show ?thesis using stores.safe_returns [OF std_fn_safe] by blast
next
  case False
  then obtain i len where "f = UserFn i len" by (cases f) auto
  with assms show ?thesis
    by (auto simp: call_js_fn_def act_bind_eq_None_iff act_lift_def user_code_returns_def)
qed

lemma call_command_safe:
  assumes "user_code_returns (ctx_user c)"
  shows "evals.safe c (call_command c cmd a)"
proof (cases cmd)
  case (JsFnCommand n f)
  have "evals.safe c (on_storage (call_js_fn (ctx_user c) n f a))"
    by (rule on_storage_safe) (rule call_js_fn_returns [OF assms])
  with JsFnCommand show ?thesis by simp
next
  case (UserCommand i strategy)
  have "evals.safe c (on_storage (user_command (ctx_user c) i a))"
    by (rule on_storage_safe) (use assms in \<open>simp add: user_code_returns_def\<close>)
  with UserCommand show ?thesis by simp
qed (simp_all add: call_require_safe call_using_safe call_using_all_safe)

section \<open>Properties of the core commands\<close>

text \<open>
  C12: a command always returns or throws (when the code of users' modules does), and it leaves
  every namespace but the root of the file being evaluated as it was, so the module namespaces,
  which all compilations share, are never changed by a document.
\<close>

theorem command_touches_own_root_only:
  assumes "user_code_returns (ctx_user c)" and "heap_inv c (ev_heap s)"
  shows "case call_command c cmd a s of
      None \<Rightarrow> False
    | Some (Inl e) \<Rightarrow> True
    | Some (Inr (out, s')) \<Rightarrow> heap_inv c (ev_heap s') \<and> eval_frame c s s'"
  using evals.safe_returns [OF call_command_safe [OF assms(1)], OF assms(2), of cmd a]
    evals.safe_rel [OF call_command_safe [OF assms(1)], OF assms(2), of cmd a]
    evals.safe_inv [OF call_command_safe [OF assms(1)], OF assms(2), of cmd a]
  by (auto split: option.splits sum.splits)

lemma rootAdd_Inr:
  "rootAddChildNamespace h r k a = Inr h' \<longleftrightarrow>
     r < length h \<and> \<not> jmap_has (ns_children (h ! r)) k \<and> k \<noteq> SUPER_IDENTIFIER \<and>
     h' = h[r := (h ! r)\<lparr>ns_children := jmap_set k (EntryNs a) (ns_children (h ! r))\<rparr>]"
  by (auto simp: rootAddChildNamespace_def bindR_eq_Inr_iff children_set_Inr)

lemma rootAdd_bound:
  "r < length h \<Longrightarrow> jmap_has (ns_children (h ! r)) k \<Longrightarrow>
   rootAddChildNamespace h r k a = Inl AssertionError"
  by (simp add: rootAddChildNamespace_def ns_deref_eq)

lemma lookupCommand_member:
  assumes "good_part m" and "good_part n" and "r < length h" and "a < length h"
    and "jmap_get (ns_children (h ! r)) m = Some (EntryNs a)" and "m \<noteq> SUPER_IDENTIFIER"
    and "jmap_get (ns_children (h ! a)) n = Some (EntryItem cmd)"
  shows "lookupCommand h r (m @ [colon] @ n) = Inr cmd"
  using assms
  by (simp add: lookupCommand_def lookup_item_name_def parseIdentifier_member ns_lookup_eqs
      path_step_def del: append.simps)

text \<open>
  C36: \<^verbatim>\<open>__require\<close> makes every command of the module available under the module's name, and
  requiring the module a second time fails with an assertion error.
\<close>

theorem require_makes_commands_available:
  assumes "heap_inv c (ev_heap s)" and "caOrErr a 0 = Inr (LtrfStr t # rest)"
    and "drawer_get (reg_modules (ctx_registry c)) (js_trim t) = Some m"
    and "good_part (mod_identifier m)" and "call_require c a s = Some (Inr (out, s'))"
  shows "out = [] \<and> call_require c a s' = Some (Inl AssertionError) \<and>
    (\<forall>n cmd. good_part n \<longrightarrow>
      jmap_get (ns_children (ev_heap s ! mod_namespace m)) n = Some (EntryItem cmd) \<longrightarrow>
      lookupCommand (ev_heap s') (ctx_root c) (mod_identifier m @ [colon] @ n) = Inr cmd)"
proof -
  have run: "call_require c a u =
      (case rootAddChildNamespace (ev_heap u) (ctx_root c) (mod_identifier m) (mod_namespace m) of
         Inl e \<Rightarrow> Some (Inl e)
       | Inr h \<Rightarrow> Some (Inr ([], u\<lparr>ev_heap := h,
           ev_loadedModules := ev_loadedModules u @ [mod_identifier m]\<rparr>)))" for u
    using assms(2,3)
    by (simp add: call_require_def env_loadModule_def on_heap_def act_bind_def act_simps
        split: sum.splits)
  from assms(5) have add: "rootAddChildNamespace (ev_heap s) (ctx_root c) (mod_identifier m)
      (mod_namespace m) = Inr (ev_heap s')" and out: "out = []"
    by (auto simp: run split: sum.splits)
  have m: "mod_namespace m < ctx_root c" and r: "ctx_root c < length (ev_heap s)"
    using assms(1,3) by (auto simp: heap_inv_def dest: registry_get_ok)
  have "call_require c a s' = Some (Inl AssertionError)"
    using add by (auto simp: run rootAdd_Inr rootAdd_bound jm.has_set)
  moreover have "lookupCommand (ev_heap s') (ctx_root c) (mod_identifier m @ [colon] @ n) = Inr cmd"
    if "good_part n" "jmap_get (ns_children (ev_heap s ! mod_namespace m)) n = Some (EntryItem cmd)"
    for n cmd
    by (rule lookupCommand_member [of _ _ _ _ "mod_namespace m"])
      (use add m r that assms(4) in \<open>simp_all add: rootAdd_Inr\<close>)
  ultimately show ?thesis using out by blast
qed

text \<open>
  After \<^verbatim>\<open>__using[thing, from = ns, as = name]\<close> the plain name means what the full one
  means.
\<close>

lemma using_binds_name:
  assumes "heap_inv c (ev_heap s)" and "using_args a = Inr (name, as)"
    and "as \<noteq> []" and "colon \<notin> set as" and "call_using c a s = Some (Inr (out, s'))"
  shows "out = [] \<and> lookup_name (ev_heap s') (ctx_root c) as =
    lookup_name (ev_heap s) (ctx_root c) name"
proof -
  from assms(2,5) obtain e where e: "lookup_name (ev_heap s) (ctx_root c) name = Inr (Some e)"
    and add: "addUsing (ev_heap s) (ctx_root c) as e = Inr (ev_heap s')" and out: "out = []"
    by (auto simp: call_using_def eval_Inr_iffs)
  from e obtain i where "ns_lookup (ev_heap s) (ctx_root c) i = Inr (Some e)"
    by (auto simp: lookup_name_def bindR_eq_Inr_iff)
  then have "e \<noteq> EntryUndefined"
    by (auto simp: ns_lookup.simps [of "ev_heap s"] bindR_eq_Inr_iff
        split: if_splits list.splits option.splits ns_entry.splits)
  moreover from add have "jmap_get (ns_children (ev_heap s' ! ctx_root c)) as = Some e"
    and "ns_isRoot (ev_heap s' ! ctx_root c) = ns_isRoot (ev_heap s ! ctx_root c)"
    and "ctx_root c < length (ev_heap s')"
    by (auto simp: addUsing_def bindR_eq_Inr_iff children_set_Inr)
  ultimately show ?thesis
    using out e assms(1,3,4)
    by (simp add: lookup_name_def [of "ev_heap s'"] parseIdentifier_plain ns_lookup_Nil
        heap_inv_def)
qed

lemma using_all_fold_children:
  assumes "foldR (\<lambda>h kv. addUsing h r (p @ fst kv) (snd kv)) h kvs = Inr h'" and "r < length h"
  shows "ns_children (h' ! r) = ns_children (h ! r) @ map (\<lambda>(k, e). (p @ k, e)) kvs"
  using assms
proof (induction kvs arbitrary: h)
  case (Cons kv kvs)
  then obtain h1 where add: "addUsing h r (p @ fst kv) (snd kv) = Inr h1"
    and rest: "foldR (\<lambda>h kv. addUsing h r (p @ fst kv) (snd kv)) h1 kvs = Inr h'"
    by (auto simp: bindR_eq_Inr_iff)
  from add Cons.prems(2) have "ns_children (h1 ! r) = ns_children (h ! r) @ [(p @ fst kv, snd kv)]"
    and "r < length h1"
    by (auto simp: addUsing_def bindR_eq_Inr_iff children_set_Inr jmap_set_new)
  with Cons.IH [OF rest] show ?case by (simp add: split_def)
qed simp

text \<open>
  C37: \<^verbatim>\<open>__using_all\<close> adds exactly the children of the namespace it names to the root, each
  under the prefix, in their order.
\<close>

theorem using_all_binds_children:
  assumes "heap_inv c (ev_heap s)" and "using_all_args a = Inr (from, prefixIn)"
    and "call_using_all c a s = Some (Inr (out, s'))"
  shows "out = [] \<and> (\<exists>t. lookup_name (ev_heap s) (ctx_root c) from = Inr (Some (EntryNs t)) \<and>
    ns_children (ev_heap s' ! ctx_root c) = ns_children (ev_heap s ! ctx_root c) @
      map (\<lambda>(k, e). (prefixIn @ k, e)) (ns_children (ev_heap s ! t)))"
proof -
  from assms(2,3) obtain x where x: "lookup_name (ev_heap s) (ctx_root c) from = Inr x"
    and rest: "(case x of
       Some (EntryNs t) \<Rightarrow>
         (\<lambda>s. case using_all_loop (ctx_root c) t prefixIn (ev_heap s) 0 of
            None \<Rightarrow> None
          | Some (Inl e) \<Rightarrow> Some (Inl e)
          | Some (Inr h) \<Rightarrow> Some (Inr ([], s\<lparr>ev_heap := h\<rparr>)))
     | _ \<Rightarrow> act_throw (CoreError UsingAllFromNotNamespace)) s = Some (Inr (out, s'))"
    unfolding call_using_all_def by (auto simp: eval_Inr_iffs)
  from rest obtain t where xt: "x = Some (EntryNs t)"
    by (auto simp: act_simps split: option.splits ns_entry.splits)
  with rest have loop: "using_all_loop (ctx_root c) t prefixIn (ev_heap s) 0 =
      Some (Inr (ev_heap s'))" and out: "out = []"
    by (auto split: option.splits sum.splits)
  from x xt have t: "lookup_name (ev_heap s) (ctx_root c) from = Inr (Some (EntryNs t))" by simp
  from lookup_not_root [OF assms(1) t] loop
  have "foldR (\<lambda>h kv. addUsing h (ctx_root c) (prefixIn @ fst kv) (snd kv)) (ev_heap s)
      (ns_children (ev_heap s ! t)) = Inr (ev_heap s')"
    by (simp add: using_all_loop_fold)
  from using_all_fold_children [OF this] assms(1) have
    "ns_children (ev_heap s' ! ctx_root c) = ns_children (ev_heap s ! ctx_root c) @
      map (\<lambda>(k, e). (prefixIn @ k, e)) (ns_children (ev_heap s ! t))"
    by (simp add: heap_inv_def)
  with t out show ?thesis by blast
qed

section \<open>The initial environment\<close>

text \<open>What the lookup of a core command gives, and what is then bound to its plain name.\<close>

definition core_item :: "namespace \<Rightarrow> jstr \<Rightarrow> command option" where
  "core_item n x = (case jmap_get (ns_children n) x of Some (EntryItem c) \<Rightarrow> Some c | _ \<Rightarrow> None)"

definition core_entry :: "namespace \<Rightarrow> jstr \<Rightarrow> ns_entry" where
  "core_entry n x = (case core_item n x of None \<Rightarrow> EntryUndefined | Some c \<Rightarrow> EntryItem c)"

lemma STD_CORE_MOD_good: "good_part STD_CORE_MOD" "STD_CORE_MOD \<noteq> SUPER_IDENTIFIER"
  by (simp_all add: STD_CORE_MOD_def good_part_def js_def colon_def SUPER_IDENTIFIER_def)

lemma addUsingFromCore_eq:
  assumes "r < length h" and "a < length h" and "ns_isRoot (h ! r)"
    and "jmap_get (ns_children (h ! r)) STD_CORE_MOD = Some (EntryNs a)"
    and "\<forall>b. jmap_get (ns_children (h ! a)) x \<noteq> Some (EntryNs b)"
    and "\<not> jmap_has (ns_children (h ! r)) x" and "x \<noteq> SUPER_IDENTIFIER" and "good_part x"
  shows "addUsingFromCore r h x = Inr (h[r := (h ! r)\<lparr>ns_children :=
    ns_children (h ! r) @ [(x, core_entry (h ! a) x)]\<rparr>])"
proof -
  have "lookup_item_name h r (STD_CORE_MOD @ [colon] @ x) = Inr (core_item (h ! a) x)"
    using assms STD_CORE_MOD_good
    by (auto simp: lookup_item_name_def parseIdentifier_member ns_lookup_eqs path_step_def
        core_item_def defined_entry_def simp del: append.simps split: option.splits ns_entry.splits)
  with assms(1,6,7) show ?thesis
    by (auto simp: addUsingFromCore_def addUsing_def children_set_def core_entry_def
        jmap_set_new ns_deref_eq simp del: append.simps split: option.splits)
qed

lemma addUsingFromCore_all:
  assumes "foldR (addUsingFromCore r) h xs = res" and "r < length h" and "a < length h"
    and "a \<noteq> r" and "ns_isRoot (h ! r)"
    and "jmap_get (ns_children (h ! r)) STD_CORE_MOD = Some (EntryNs a)"
    and "\<forall>x \<in> set xs. (\<forall>b. jmap_get (ns_children (h ! a)) x \<noteq> Some (EntryNs b)) \<and>
      \<not> jmap_has (ns_children (h ! r)) x \<and> x \<noteq> SUPER_IDENTIFIER \<and> good_part x"
    and "distinct xs"
  shows "res = Inr (h[r := (h ! r)\<lparr>ns_children :=
    ns_children (h ! r) @ map (\<lambda>x. (x, core_entry (h ! a) x)) xs\<rparr>])"
  using assms
proof (induction xs arbitrary: h)
  case (Cons x xs)
  let ?h = "h[r := (h ! r)\<lparr>ns_children := ns_children (h ! r) @ [(x, core_entry (h ! a) x)]\<rparr>]"
  have "addUsingFromCore r h x = Inr ?h"
    by (rule addUsingFromCore_eq) (use Cons.prems in auto)
  with Cons.prems(1) have "foldR (addUsingFromCore r) ?h xs = res" by simp
  from Cons.IH [OF this] Cons.prems show ?case
    by (auto simp: jmap_has_append)
qed simp

lemma addUsingFromCore_root:
  assumes "heap_inv c h" and "addUsingFromCore (ctx_root c) h x = Inr h'"
  shows "heap_inv c h' \<and> heap_frame (ctx_root c) h h'"
  using assms by (auto simp: addUsingFromCore_def bindR_eq_Inr_iff dest: addUsing_root)

lemma fold_addUsingFromCore_root:
  assumes "heap_inv c h" and "foldR (addUsingFromCore (ctx_root c)) h xs = Inr h'"
  shows "heap_inv c h' \<and> heap_frame (ctx_root c) h h'"
  using assms
proof (induction xs arbitrary: h)
  case (Cons x xs)
  then obtain h1 where "addUsingFromCore (ctx_root c) h x = Inr h1"
    and rest: "foldR (addUsingFromCore (ctx_root c)) h1 xs = Inr h'"
    by (auto simp: bindR_eq_Inr_iff)
  with Cons.prems(1) have "heap_inv c h1" and "heap_frame (ctx_root c) h h1"
    by (simp_all add: addUsingFromCore_root)
  with Cons.IH [OF _ rest] show ?case by (blast intro: heap_frame_trans)
qed simp

lemma fresh_root_inv:
  assumes "heap_ok h0" and "registry_ok reg (length h0)" and "new_RootNamespace h0 = (root, h1)"
  shows "root = length h0 \<and> length h1 = Suc (length h0) \<and>
    (\<forall>b < length h0. h1 ! b = h0 ! b) \<and> ns_children (h1 ! root) = [] \<and>
    heap_inv \<lparr>ctx_registry = reg, ctx_root = root, ctx_user = u\<rparr> h1"
proof -
  have "heap_ok h1" using new_root.keeps_ok [OF assms(1)] assms(3) by (metis snd_conv)
  moreover have "root_private h1 (length h0)"
    using assms(1,3)
    by (fastforce simp: new_RootNamespace_def root_private_def heap_ok_def ns_ok_def entry_ok_def)
  ultimately show ?thesis
    using assms(2,3) by (auto simp: new_RootNamespace_def heap_inv_def nth_append)
qed

text \<open>
  A successful set-up: the context and state satisfy the invariant, the root is new, and the
  namespaces that were there are untouched.
\<close>

lemma makeEnvironment_inv:
  assumes "heap_ok h0" and "registry_ok reg (length h0)"
    and "makeEnvironmentWithStdCoreSetup u reg h0 st = Inr (c, s)"
  shows "heap_inv c (ev_heap s) \<and> take (length h0) (ev_heap s) = h0 \<and>
    length (ev_heap s) = Suc (length h0) \<and> ctx_root c = length h0 \<and> ctx_user c = u \<and>
    ctx_registry c = reg \<and> ev_storage s = st \<and> ev_console s = []"
proof -
  obtain root h1 where new: "new_RootNamespace h0 = (root, h1)" by fastforce
  note fresh = fresh_root_inv [OF assms(1,2) new, of u]
  from assms(3) new obtain m h2 h3 where m: "drawer_get (reg_modules reg) STD_CORE_MOD = Some m"
    and h2: "rootAddChildNamespace h1 root (mod_identifier m) (mod_namespace m) = Inr h2"
    and h3: "foldR (addUsingFromCore root) h2 DEFAULT_USE_FROM_CORE = Inr h3"
    and c: "c = \<lparr>ctx_registry = reg, ctx_root = root, ctx_user = u\<rparr>"
    and s: "s = \<lparr>ev_heap = h3, ev_loadedModules = [mod_identifier m], ev_storage = st,
      ev_console = []\<rparr>"
    by (auto simp: makeEnvironmentWithStdCoreSetup_def bindR_eq_Inr_iff split: option.splits)
  have ctx: "ctx_root c = root" and inv: "heap_inv c h1" using fresh unfolding c by auto
  have "mod_namespace m < root" using registry_get_ok [OF assms(2) m] fresh by simp
  with inv h2 have "heap_inv c h2 \<and> heap_frame root h1 h2"
    using rootAdd_root [of c h1 "mod_identifier m" "mod_namespace m" h2] by (simp add: ctx)
  then have "heap_inv c h3 \<and> heap_frame root h1 h3"
    using fold_addUsingFromCore_root [of c h2 _ h3] h3 by (auto simp: ctx intro: heap_frame_trans)
  moreover from this have "take (length h0) h3 = h0"
    using fresh by (intro nth_equalityI) (auto simp: heap_frame_def)
  ultimately show ?thesis using fresh c s by (simp add: heap_frame_def)
qed

text \<open>
  In a fresh environment the plain names of the four core commands mean what the module
  \<^verbatim>\<open>std::core\<close> binds to them.  For one that the module lacks, the set-up succeeds all the same,
  and the name is reported as unknown when a document uses it.
\<close>

lemma environment_starts_with_core:
  assumes "heap_ok h0" and "registry_ok reg (length h0)"
    and "drawer_get (reg_modules reg) STD_CORE_MOD = Some m" and "mod_identifier m = STD_CORE_MOD"
    and "\<forall>x \<in> set DEFAULT_USE_FROM_CORE. \<forall>a.
      jmap_get (ns_children (h0 ! mod_namespace m)) x \<noteq> Some (EntryNs a)"
  shows "\<exists>c s. makeEnvironmentWithStdCoreSetup u reg h0 st = Inr (c, s) \<and>
    (\<forall>x \<in> set DEFAULT_USE_FROM_CORE. lookupCommand (ev_heap s) (ctx_root c) x =
      (case core_item (h0 ! mod_namespace m) x of
         None \<Rightarrow> Inl (NameError (CommandNotInEnvironment x))
       | Some cmd \<Rightarrow> Inr cmd))"
proof -
  let ?a = "mod_namespace m" and ?r = "length h0" and ?D = DEFAULT_USE_FROM_CORE
  have a: "?a < ?r" using registry_get_ok [OF assms(2,3)] .
  define h2 where "h2 = h0 @ [\<lparr>ns_name = js ''__root__'', ns_isRoot = True, ns_parent = None,
      ns_children = [(STD_CORE_MOD, EntryNs ?a)]\<rparr>]"
  have add: "rootAddChildNamespace (snd (new_RootNamespace h0)) ?r STD_CORE_MOD ?a = Inr h2"
    using STD_CORE_MOD_good by (simp add: rootAdd_Inr new_RootNamespace_def h2_def jmap_has_def)
  have names: "distinct ?D" "\<forall>x \<in> set ?D. x \<noteq> STD_CORE_MOD \<and> x \<noteq> SUPER_IDENTIFIER \<and> good_part x \<and>
      x \<noteq> [] \<and> colon \<notin> set x"
    by (simp_all add: DEFAULT_USE_FROM_CORE_def STD_CORE_MOD_def SUPER_IDENTIFIER_def)
      (simp_all add: good_part_def js_def colon_def)
  define h3 where "h3 = h2[?r := (h2 ! ?r)\<lparr>ns_children :=
      ns_children (h2 ! ?r) @ map (\<lambda>x. (x, core_entry (h2 ! ?a) x)) ?D\<rparr>]"
  have fold: "foldR (addUsingFromCore ?r) h2 ?D = Inr h3"
    unfolding h3_def
    by (rule addUsingFromCore_all [OF refl])
      (use a names assms(5) in \<open>auto simp: h2_def nth_append jmap_has_def\<close>)
  let ?c = "\<lparr>ctx_registry = reg, ctx_root = ?r, ctx_user = u\<rparr>"
  let ?s = "\<lparr>ev_heap = h3, ev_loadedModules = [STD_CORE_MOD], ev_storage = st, ev_console = []\<rparr>"
  have run: "makeEnvironmentWithStdCoreSetup u reg h0 st = Inr (?c, ?s)"
    using add fold assms(3,4) by (simp add: makeEnvironmentWithStdCoreSetup_def new_RootNamespace_def)
  have "lookupCommand h3 ?r x = (case core_item (h0 ! ?a) x of
      None \<Rightarrow> Inl (NameError (CommandNotInEnvironment x)) | Some cmd \<Rightarrow> Inr cmd)"
    if x: "x \<in> set ?D" for x
  proof -
    have same: "core_item (h2 ! ?a) x = core_item (h0 ! ?a) x"
      using a by (simp add: h2_def nth_append)
    have "jmap_get (ns_children (h3 ! ?r)) x = Some (core_entry (h2 ! ?a) x)"
      using x names
      by (auto simp: h3_def h2_def nth_append map_of_map_restrict restrict_map_def)
    moreover have "ns_isRoot (h3 ! ?r)" and "?r < length h3"
      by (simp_all add: h3_def h2_def nth_append)
    ultimately show ?thesis
      using x names same
      by (auto simp: lookupCommand_def lookup_item_name_def parseIdentifier_plain ns_lookup_eqs
          core_entry_def defined_entry_def split: option.splits)
  qed
  with run show ?thesis by auto
qed

section \<open>Witnesses\<close>

text \<open>
  A store with the namespaces of \<^verbatim>\<open>std::core\<close> and of a module \<^verbatim>\<open>m\<close> with a command \<^verbatim>\<open>c\<close>, a registry
  with both, and the state of a file that has loaded \<^verbatim>\<open>std::core\<close>.
\<close>

definition sample_user :: user_code where
  "sample_user = \<lparr>user_fn = (\<lambda>_ _. act_return (UArray [])), user_command = (\<lambda>_ _. act_return [])\<rparr>"

definition sample_core_ns :: namespace where
  "sample_core_ns = \<lparr>ns_name = js ''std::core'', ns_isRoot = False, ns_parent = None, ns_children =
     [(js ''__require'', EntryItem RequireCommand), (js ''__using'', EntryItem UsingCommand),
      (js ''__using_all'', EntryItem UsingAllCommand),
      (js ''__doc'', EntryItem (JsFnCommand (js ''__doc'') DocCommand))]\<rparr>"

definition sample_m_ns :: namespace where
  "sample_m_ns = \<lparr>ns_name = js ''m'', ns_isRoot = False, ns_parent = None, ns_children =
     [(js ''c'', EntryItem (JsFnCommand (js ''c'') CountFn))]\<rparr>"

definition sample_module :: "jstr \<Rightarrow> ns_addr \<Rightarrow> lapol_module" where
  "sample_module name a = \<lparr>mod_namespace = a, mod_identifier = name, mod_loadedSubModules = 0,
     mod_instantiate = plain_store name, mod_nodeOutputters = [], mod_stringProviders = []\<rparr>"

definition sample_registry :: registry where
  "sample_registry = \<lparr>reg_targetNames = [], reg_modules =
     [(js ''std::core'', sample_module (js ''std::core'') 0), (js ''m'', sample_module (js ''m'') 1)]\<rparr>"

definition sample_root_ns :: namespace where
  "sample_root_ns = \<lparr>ns_name = js ''__root__'', ns_isRoot = True, ns_parent = None, ns_children =
     [(js ''std::core'', EntryNs 0)]\<rparr>"

definition sample_ctx :: eval_ctx where
  "sample_ctx = \<lparr>ctx_registry = sample_registry, ctx_root = 2, ctx_user = sample_user\<rparr>"

definition sample_state :: eval_state where
  "sample_state = \<lparr>ev_heap = [sample_core_ns, sample_m_ns, sample_root_ns],
     ev_loadedModules = [js ''std::core''], ev_storage = [], ev_console = []\<rparr>"

lemmas sample_defs = sample_user_def sample_core_ns_def sample_m_ns_def sample_module_def
  sample_registry_def sample_root_ns_def sample_ctx_def sample_state_def

lemma sample_user_returns: "user_code_returns sample_user"
  by (simp add: user_code_returns_def sample_user_def act_simps)

lemma sample_store_ok: "heap_ok [sample_core_ns, sample_m_ns]"
  "registry_ok sample_registry 2"
  by (simp_all add: sample_defs heap_ok_def ns_ok_def entry_ok_def jmap_keys_def
      SUPER_IDENTIFIER_def registry_ok_def)

lemma sample_inv: "heap_inv sample_ctx (ev_heap sample_state)"
  by (simp add: sample_defs heap_inv_def root_private_def heap_ok_def ns_ok_def entry_ok_def
      jmap_keys_def SUPER_IDENTIFIER_def registry_ok_def)

theorem command_touches_own_root_only_witness:
  "case call_command sample_ctx UsingAllCommand
      \<lparr>keywordArgs = [(js ''from'', SqObj (LtrfStr (js ''m'')))], squareArgs = [], curlyArgs = []\<rparr>
      sample_state of
     None \<Rightarrow> False
   | Some (Inl e) \<Rightarrow> True
   | Some (Inr (out, s')) \<Rightarrow> heap_inv sample_ctx (ev_heap s') \<and> eval_frame sample_ctx sample_state s'"
  by (rule command_touches_own_root_only [OF _ sample_inv])
    (simp add: sample_ctx_def sample_user_returns)

definition curly_text :: "jstr \<Rightarrow> command_args" where
  "curly_text t = \<lparr>keywordArgs = [], squareArgs = [], curlyArgs = [[LtrfStr t]]\<rparr>"

lemma js_trim_m: "js_trim (js ''m'') = js ''m''"
  by (simp add: js_trim_def js_def is_ws_unit_def)

lemma sample_require:
  "call_require sample_ctx (curly_text (js ''m'')) sample_state = Some (Inr ([], sample_state
     \<lparr>ev_heap := [sample_core_ns, sample_m_ns, sample_root_ns\<lparr>ns_children :=
        ns_children sample_root_ns @ [(js ''m'', EntryNs 1)]\<rparr>],
      ev_loadedModules := [js ''std::core'', js ''m'']\<rparr>))"
  by (simp add: call_require_def Let_def curly_text_def caOrErr_eq act_bind_def act_simps js_trim_m
      drawer_get_def env_loadModule_def on_heap_def rootAddChildNamespace_def ns_deref_eq
      children_set_def jmap_has_def SUPER_IDENTIFIER_def sample_defs)

theorem require_makes_commands_available_witness:
  "\<exists>s'. call_require sample_ctx (curly_text (js ''m'')) sample_state = Some (Inr ([], s')) \<and>
     lookupCommand (ev_heap s') 2 (js ''m'' @ [colon] @ js ''c'') =
       Inr (JsFnCommand (js ''c'') CountFn)"
proof -
  have arg: "caOrErr (curly_text (js ''m'')) 0 = Inr (LtrfStr (js ''m'') # [])"
    by (simp add: curly_text_def caOrErr_eq)
  have reg: "drawer_get (reg_modules (ctx_registry sample_ctx)) (js_trim (js ''m'')) =
      Some (sample_module (js ''m'') 1)"
    by (simp add: js_trim_m drawer_get_def sample_ctx_def sample_registry_def)
  have m: "good_part (mod_identifier (sample_module (js ''m'') 1))"
    and c: "good_part (js ''c'')"
    by (simp_all add: sample_module_def good_part_def) (simp_all add: js_def colon_def)
  have "jmap_get (ns_children (ev_heap sample_state ! mod_namespace (sample_module (js ''m'') 1)))
      (js ''c'') = Some (EntryItem (JsFnCommand (js ''c'') CountFn))"
    by (simp add: sample_defs)
  with c require_makes_commands_available [OF sample_inv arg reg m sample_require] sample_require
  show ?thesis by (auto simp: sample_ctx_def sample_module_def)
qed

definition using_c :: command_args where
  "using_c = \<lparr>keywordArgs = [(js ''from'', SqObj (LtrfStr (js ''std::core''))),
       (js ''as'', SqObj (LtrfStr (js ''d'')))],
     squareArgs = [SqObj (LtrfStr (js ''__doc''))], curlyArgs = []\<rparr>"

lemma using_c_args: "using_args using_c = Inr (STD_CORE_MOD @ [colon] @ js ''__doc'', js ''d'')"
  by (simp add: using_args_def using_c_def sa_def kwa_def require_defined_def require_string_def
      as_string_def STD_CORE_MOD_def del: append.simps)

lemma sample_lookup_doc:
  "lookup_name (ev_heap sample_state) 2 (STD_CORE_MOD @ [colon] @ js ''__doc'') =
     Inr (Some (EntryItem (JsFnCommand (js ''__doc'') DocCommand)))"
proof -
  have "good_part (js ''__doc'')" by (simp add: good_part_def) (simp add: js_def colon_def)
  then have "parseIdentifier (STD_CORE_MOD @ [colon] @ js ''__doc'') =
      Inr \<lparr>id_absolute = False, id_path = [STD_CORE_MOD], id_name = js ''__doc''\<rparr>"
    by (intro parseIdentifier_member STD_CORE_MOD_good)
  then show ?thesis
    by (simp add: lookup_name_def ns_lookup_eqs path_step_def sample_defs del: append.simps)
      (simp add: STD_CORE_MOD_def SUPER_IDENTIFIER_def ns_lookup_eqs)
qed

definition using_all_m :: command_args where
  "using_all_m = \<lparr>keywordArgs = [(js ''from'', SqObj (LtrfStr (js ''std::core''))),
       (js ''prefix_in'', SqObj (LtrfStr (js ''x'')))],
     squareArgs = [], curlyArgs = []\<rparr>"

text \<open>\<^verbatim>\<open>std::core\<close> is a plain name: its colons come in a pair.\<close>

lemma lookup_core_ns:
  "lookup_name (ev_heap sample_state) 2 STD_CORE_MOD = Inr (Some (EntryNs 0))"
proof -
  have "parseIdentifier STD_CORE_MOD = Inr \<lparr>id_absolute = False, id_path = [], id_name = STD_CORE_MOD\<rparr>"
    by (simp add: parseIdentifier_def STD_CORE_MOD_def js_def colon_def)
  then show ?thesis
    by (simp add: lookup_name_def ns_lookup_Nil sample_defs STD_CORE_MOD_def)
qed

theorem using_all_binds_children_witness:
  "\<exists>s'. call_using_all sample_ctx using_all_m sample_state = Some (Inr ([], s')) \<and>
     map fst (ns_children (ev_heap s' ! 2)) =
       map js [''std::core'', ''x__require'', ''x__using'', ''x__using_all'', ''x__doc'']"
proof -
  have args: "using_all_args using_all_m = Inr (STD_CORE_MOD, js ''x'')"
    by (simp add: using_all_args_def using_all_m_def kwa_def require_defined_def
        require_string_def as_string_def STD_CORE_MOD_def)
  have fold: "\<exists>h. foldR (\<lambda>h kv. addUsing h 2 (js ''x'' @ fst kv) (snd kv)) (ev_heap sample_state)
      (ns_children sample_core_ns) = Inr h"
    by (simp add: sample_defs addUsing_def ns_deref_eq children_set_def jmap_has_def
        SUPER_IDENTIFIER_def)
  then obtain h where "using_all_loop 2 0 (js ''x'') (ev_heap sample_state) 0 = Some (Inr h)"
    using using_all_loop_fold [of 0 2 "ev_heap sample_state"] by (auto simp: sample_state_def)
  then have run: "call_using_all sample_ctx using_all_m sample_state =
      Some (Inr ([], sample_state\<lparr>ev_heap := h\<rparr>))"
    using lookup_core_ns
    by (simp add: call_using_all_def args act_bind_def act_simps ask_heap_def sample_ctx_def)
  from using_all_binds_children [OF sample_inv args this] lookup_core_ns
  have "ns_children (h ! 2) = ns_children (ev_heap sample_state ! 2) @
      map (\<lambda>(k, e). (js ''x'' @ k, e)) (ns_children (ev_heap sample_state ! 0))"
    by (simp add: sample_ctx_def)
  with run show ?thesis by (simp add: sample_defs)
qed

end
