(* ===== verification/Linebreaks.thy ===== *)
theory Linebreaks
  imports Ltrf
begin

text \<open>
  The passes that clean up a tree before paragraphs are formed: removal of whitespace strings
  (\<^verbatim>\<open>process/passes/remWhitespaceLines.ts\<close>), the checks on the root
  (\<^verbatim>\<open>process/passes/processRoot.ts\<close>) and the conversion of newlines
  (\<^verbatim>\<open>process/passes/processLinebreaks.ts\<close>).  None of them reads the processing context that
  the source hands it.
\<close>

section \<open>Root and whitespace\<close>

definition ROOT_TAG :: jstr where
  "ROOT_TAG = js ''__root''"

definition DOC_TAG :: jstr where
  "DOC_TAG = js ''__doc''"

definition is_doc :: "ltrf_obj \<Rightarrow> bool" where
  "is_doc l = ltrfObjLift (\<lambda>_. False) (\<lambda>n. node_tag n = DOC_TAG) l"

definition check_root_child :: "ltrf_obj \<Rightarrow> unit result" where
  "check_root_child l =
     (if ltrfObjLift (\<lambda>s. \<not> isWhitespace s) (\<lambda>_. False) l then Inl (ProcessError RootHasText)
      else if ltrfObjLift (\<lambda>_. False) (\<lambda>n. node_tag n \<noteq> DOC_TAG) l
      then Inl (ProcessError RootHasNonDoc)
      else Inr ())"

definition processRoot :: "ltrf_node \<Rightarrow> ltrf_node result" where
  "processRoot root =
     (if node_tag root \<noteq> ROOT_TAG then Inl (ProcessError ExpectedRootNode)
      else bindR (mapR check_root_child (node_elems root)) (\<lambda>_.
        Inr (updateElems root (\<lambda>sub. filter is_doc sub))))"

fun remWhitespace :: "ltrf_node \<Rightarrow> ltrf_node" where
  "remWhitespace n = flatMapElems n (\<lambda>el _ _.
     ltrfObjLift (\<lambda>s. if s \<noteq> newline \<and> isWhitespace s then [] else [LtrfStr s])
       (\<lambda>m. [Nd (remWhitespace m)]) el)"

declare remWhitespace.simps [simp del]

lemma remWhitespace_code [code]:
  "remWhitespace (LtrfNode t kv es) = LtrfNode t kv (concat (map (ltrfObjLift
     (\<lambda>s. if s \<noteq> newline \<and> isWhitespace s then [] else [LtrfStr s])
     (\<lambda>m. [Nd (remWhitespace m)])) es))"
  by (subst remWhitespace.simps) (simp add: flatMapElems_def updateElems_def ltrf_make_def)

definition processRemoveWhitespaceLines :: "ltrf_node \<Rightarrow> ltrf_node result" where
  "processRemoveWhitespaceLines root = Inr (remWhitespace root)"

lemma check_root_child_Inr:
  "check_root_child l = Inr u \<longleftrightarrow>
     (case l of LtrfStr s \<Rightarrow> isWhitespace s | Nd n \<Rightarrow> node_tag n = DOC_TAG)"
  by (cases l) (auto simp: check_root_child_def)

text \<open>The root checks pass exactly on a root whose children are documents and whitespace.\<close>

definition root_ok :: "ltrf_node \<Rightarrow> bool" where
  "root_ok r \<longleftrightarrow> node_tag r = ROOT_TAG \<and>
     list_all (ltrfObjLift isWhitespace (\<lambda>n. node_tag n = DOC_TAG)) (node_elems r)"

lemma processRoot_Inr:
  "processRoot r = Inr r' \<longleftrightarrow> root_ok r \<and> r' = updateElems r (filter is_doc)"
proof -
  have "(\<exists>us. mapR check_root_child es = Inr us) \<longleftrightarrow>
      list_all (ltrfObjLift isWhitespace (\<lambda>n. node_tag n = DOC_TAG)) es" for es
    unfolding mapR_total_iff list_all_iff
    by (intro ball_cong refl) (auto simp: check_root_child_Inr split: ltrf_obj_of.splits)
  then show ?thesis
    by (auto simp: processRoot_def root_ok_def bindR_eq_Inr_iff)
qed

section \<open>Newlines\<close>

definition BREAK_MARKER_TAG :: jstr where
  "BREAK_MARKER_TAG = js ''__para_br_marker''"

definition isNewline :: "ltrf_obj \<Rightarrow> bool" where
  "isNewline l = ltrfObjLift (\<lambda>s. s = newline) (\<lambda>_. False) l"

text \<open>The array \<^verbatim>\<open>h\<close> of the source holds objects and the symbol \<^verbatim>\<open>LINEBREAK_INDICATOR\<close>.\<close>

datatype h_item = HObj ltrf_obj | LINEBREAK_INDICATOR

text \<open>
  The \<^verbatim>\<open>forEach\<close> loop: the head of the rest of the array is \<^verbatim>\<open>arr[i + 1]\<close>, \<^verbatim>\<open>undefined\<close> at
  the end.
\<close>

fun newline_loop :: "ltrf_obj list \<Rightarrow> h_item list \<Rightarrow> h_item list" where
  "newline_loop [] h = h"
| "newline_loop (subNode # rest) h =
     (if isNewline subNode then
        (case js_index rest 0 of
           Some nextSubNode \<Rightarrow>
             (if isNewline nextSubNode then
                newline_loop rest
                  (if h \<noteq> [] \<and> last h \<noteq> LINEBREAK_INDICATOR then h @ [LINEBREAK_INDICATOR] else h)
              else newline_loop rest (h @ [HObj (LtrfStr space)]))
         | None \<Rightarrow> newline_loop rest (h @ [HObj (LtrfStr space)]))
      else newline_loop rest (h @ [HObj subNode]))"

definition break_marker :: ltrf_node where
  "break_marker = ltrf_make BREAK_MARKER_TAG [] []"

definition final_elem :: "h_item \<Rightarrow> ltrf_obj" where
  "final_elem v = (case v of LINEBREAK_INDICATOR \<Rightarrow> Nd break_marker | HObj l \<Rightarrow> l)"

fun processLinebreaksHelper :: "ltrf_node \<Rightarrow> ltrf_node" where
  "processLinebreaksHelper n =
     (let n2 = mapElems n (\<lambda>el _ _.
            ltrfObjLift LtrfStr (\<lambda>m. Nd (processLinebreaksHelper m)) el)
      in if length (node_elems n2) \<le> 1 then n2
         else withElems n2 (map final_elem (newline_loop (node_elems n2) [])))"

declare processLinebreaksHelper.simps [simp del]

lemma processLinebreaksHelper_code [code]:
  "processLinebreaksHelper (LtrfNode t kv es) =
     (let es2 = map (ltrfObjLift LtrfStr (\<lambda>m. Nd (processLinebreaksHelper m))) es
      in LtrfNode t kv
        (if length es2 \<le> 1 then es2 else map final_elem (newline_loop es2 [])))"
  by (subst processLinebreaksHelper.simps)
    (simp add: mapElems_def updateElems_def withElems_def ltrf_make_def Let_def)

definition processLinebreaks :: "ltrf_node \<Rightarrow> ltrf_node result" where
  "processLinebreaks root = Inr (processLinebreaksHelper root)"

lemma isNewline_simps [simp]:
  "isNewline (LtrfStr s) \<longleftrightarrow> s = newline" "\<not> isNewline (Nd n)"
  by (simp_all add: isNewline_def)

section \<open>What the newline loop computes\<close>

text \<open>
  The specification, in terms of maximal runs of newlines: a run becomes a space, with a
  linebreak before it when the run has at least two newlines and something precedes it.
\<close>

function newline_spec :: "bool \<Rightarrow> ltrf_obj list \<Rightarrow> h_item list" where
  "newline_spec first [] = []"
| "newline_spec first (x # xs) =
     (if isNewline x then
        (if takeWhile isNewline xs \<noteq> [] \<and> \<not> first then [LINEBREAK_INDICATOR] else []) @
        HObj (LtrfStr space) # newline_spec False (dropWhile isNewline xs)
      else HObj x # newline_spec False xs)"
  by pat_completeness auto
termination
  by (relation "measure (\<lambda>(_, xs). length xs)") (auto simp: length_dropWhile_le le_imp_less_Suc)

lemma newline_loop_run:
  "isNewline x \<Longrightarrow> h = [] \<or> last h = LINEBREAK_INDICATOR \<Longrightarrow>
   newline_loop (x # xs) h = newline_loop (dropWhile isNewline xs) (h @ [HObj (LtrfStr space)])"
  by (induction xs arbitrary: x) auto

lemma newline_loop_eq_spec:
  "h = [] \<or> last h \<noteq> LINEBREAK_INDICATOR \<Longrightarrow>
   newline_loop xs h = h @ newline_spec (h = []) xs"
proof (induction "h = []" xs arbitrary: h rule: newline_spec.induct)
  case (2 x xs)
  show ?case
  proof (cases "isNewline x")
    case False
    with 2 show ?thesis by simp
  next
    case True
    define h2 where "h2 = (if h = [] \<or> takeWhile isNewline xs = [] then h
      else h @ [LINEBREAK_INDICATOR])"
    have "newline_loop (x # xs) h =
        newline_loop (dropWhile isNewline xs) (h2 @ [HObj (LtrfStr space)])"
    proof (cases xs)
      case Nil
      with True show ?thesis by (simp add: h2_def)
    next
      case (Cons y ys)
      show ?thesis
      proof (cases "isNewline y")
        case False
        with True Cons show ?thesis by (simp add: h2_def)
      next
        case y: True
        with True Cons "2.prems" have "newline_loop (x # xs) h = newline_loop (y # ys) h2"
          by (auto simp: h2_def)
        also have "\<dots> = newline_loop (dropWhile isNewline ys) (h2 @ [HObj (LtrfStr space)])"
          using y by (intro newline_loop_run) (auto simp: h2_def Cons)
        finally show ?thesis using Cons y by simp
      qed
    qed
    also have "\<dots> = (h2 @ [HObj (LtrfStr space)]) @ newline_spec False (dropWhile isNewline xs)"
      using 2(1) True by simp
    finally show ?thesis using True by (simp add: h2_def)
  qed
qed simp

text \<open>
  C24: the loop over the children of a node computes the run specification: every maximal run of
  newlines becomes one space, preceded by one paragraph break when it has two or more newlines
  and is not at the start; every other child stays, in order.
\<close>

theorem newline_loop_correct: "newline_loop xs [] = newline_spec True xs"
  by (simp add: newline_loop_eq_spec)

lemma newline_spec_items:
  "HObj l \<in> set (newline_spec first xs) \<Longrightarrow> l = LtrfStr space \<or> (l \<in> set xs \<and> \<not> isNewline l)"
  by (induction first xs rule: newline_spec.induct)
    (auto split: if_splits dest: set_dropWhileD)

lemma linebreaks_tag_kv [simp]:
  "node_tag (processLinebreaksHelper n) = node_tag n"
  "node_kv (processLinebreaksHelper n) = node_kv n"
  by (simp_all add: processLinebreaksHelper.simps [of n] Let_def)

definition linebreaks_children :: "ltrf_obj list \<Rightarrow> ltrf_obj list" where
  "linebreaks_children es = map (ltrfObjLift LtrfStr (\<lambda>m. Nd (processLinebreaksHelper m))) es"

lemma linebreaks_elems:
  "node_elems (processLinebreaksHelper n) =
     (if length (node_elems n) \<le> 1 then linebreaks_children (node_elems n)
      else map final_elem (newline_spec True (linebreaks_children (node_elems n))))"
  by (simp add: processLinebreaksHelper.simps [of n] Let_def newline_loop_eq_spec
      linebreaks_children_def)

lemma node_in_linebreaks:
  assumes "Nd m \<in> set (node_elems (processLinebreaksHelper n))"
  obtains "m = break_marker"
  | m' where "Nd m' \<in> set (node_elems n)" and "m = processLinebreaksHelper m'"
proof -
  have child: "thesis" if "Nd m \<in> set (linebreaks_children (node_elems n))"
    using that assms(1) \<open>\<And>m'. Nd m' \<in> set (node_elems n) \<Longrightarrow> m = processLinebreaksHelper m' \<Longrightarrow> thesis\<close>
    unfolding linebreaks_children_def Nd_in_lift by blast
  show thesis
  proof (cases "length (node_elems n) \<le> 1")
    case True
    with assms child show thesis by (simp add: linebreaks_elems)
  next
    case False
    with assms obtain v where v: "v \<in> set (newline_spec True (linebreaks_children (node_elems n)))"
      and "final_elem v = Nd m"
      by (auto simp: linebreaks_elems)
    show thesis
    proof (cases v)
      case (HObj l)
      with v \<open>final_elem v = Nd m\<close> have "Nd m \<in> set (linebreaks_children (node_elems n))"
        using newline_spec_items [of l True "linebreaks_children (node_elems n)"]
        by (auto simp: final_elem_def)
      then show thesis by (rule child)
    next
      case LINEBREAK_INDICATOR
      with \<open>final_elem v = Nd m\<close> show thesis
        using that(1) by (simp add: final_elem_def)
    qed
  qed
qed

definition newline_settled :: "ltrf_node \<Rightarrow> bool" where
  "newline_settled n \<longleftrightarrow> length (node_elems n) \<le> 1 \<or> LtrfStr newline \<notin> set (node_elems n)"

text \<open>
  The pass always succeeds, and after it a newline string survives only as the single child
  of its node: no node of the tree with two or more children has a newline child.
\<close>

lemma no_newline_left:
  "\<exists>root'. processLinebreaks root = Inr root' \<and> all_nodes newline_settled root'"
proof -
  have "all_nodes newline_settled (processLinebreaksHelper root)"
  proof (induction root rule: ltrf_node_induct)
    case (LtrfNode t kv es)
    let ?n = "LtrfNode t kv es"
    have "LtrfStr newline \<notin> set (node_elems (processLinebreaksHelper ?n))"
      if "\<not> length es \<le> 1"
      using that newline_spec_items [of "LtrfStr newline" True "linebreaks_children es"]
      by (auto simp: linebreaks_elems final_elem_def split: h_item.splits)
    moreover have "length (node_elems (processLinebreaksHelper ?n)) \<le> 1" if "length es \<le> 1"
      using that by (simp add: linebreaks_elems linebreaks_children_def)
    ultimately have "newline_settled (processLinebreaksHelper ?n)"
      by (auto simp: newline_settled_def)
    moreover have "all_below newline_settled (node_elems (processLinebreaksHelper ?n))"
      unfolding all_below_iff
    proof (intro allI impI)
      fix m assume "Nd m \<in> set (node_elems (processLinebreaksHelper ?n))"
      then show "all_nodes newline_settled m"
      proof (rule node_in_linebreaks)
        assume "m = break_marker"
        then show ?thesis by (simp add: all_nodes_iff break_marker_def newline_settled_def)
      next
        fix m' assume "Nd m' \<in> set (node_elems ?n)" and "m = processLinebreaksHelper m'"
        then show ?thesis using LtrfNode.IH by simp
      qed
    qed
    ultimately show ?case unfolding all_nodes_iff [of _ "processLinebreaksHelper ?n"] by blast
  qed
  then show ?thesis by (simp add: processLinebreaks_def)
qed

end
