(* ===== verification/Paragraphs.thy ===== *)
theory Paragraphs
  imports Linebreaks
begin

text \<open>
  The paragraph pass (\<^verbatim>\<open>process/passes/processParagraphs.ts\<close>): the children of every node
  are grouped into paragraphs at paragraph breaks and at block nodes.
\<close>

section \<open>The pass\<close>

definition PARAGRAPH_TAG :: jstr where
  "PARAGRAPH_TAG = js ''__p''"

definition makePara :: "ltrf_obj list \<Rightarrow> ltrf_node" where
  "makePara elems = ltrf_make PARAGRAPH_TAG [(js ''isBlock'', JBool True)] elems"

definition isPara :: "ltrf_obj \<Rightarrow> bool" where
  "isPara n = ltrfObjLift (\<lambda>_. False) (\<lambda>m. node_tag m = PARAGRAPH_TAG) n"

definition isBreakMarker :: "ltrf_obj \<Rightarrow> bool" where
  "isBreakMarker n = ltrfObjLift (\<lambda>_. False) (\<lambda>m. node_tag m = BREAK_MARKER_TAG) n"

text \<open>\<^verbatim>\<open>n.kv.isBlock ?? false\<close>, which must be a boolean.\<close>

definition kv_isBlock :: "ltrf_node \<Rightarrow> bool result" where
  "kv_isBlock n = (case jmap_get (node_kv n) (js ''isBlock'') of
       None \<Rightarrow> Inr False
     | Some JUndefined \<Rightarrow> Inr False
     | Some JNull \<Rightarrow> Inr False
     | Some (JBool b) \<Rightarrow> Inr b
     | Some _ \<Rightarrow> Inl (ProcessError IsBlockNotBoolean))"

definition isBlock :: "ltrf_obj \<Rightarrow> bool result" where
  "isBlock n = ltrfObjLift (\<lambda>_. Inr False) kv_isBlock n"

text \<open>The variables of the \<^verbatim>\<open>forEach\<close> loop, and its body.\<close>

record para_state =
  outElems :: "ltrf_obj list"
  paraAccum :: "ltrf_obj list"
  numParas :: nat

definition flush_para :: "para_state \<Rightarrow> para_state" where
  "flush_para s =
     (if length (paraAccum s) \<ge> 1
      then \<lparr>outElems = outElems s @ [Nd (makePara (paraAccum s))], paraAccum = [],
            numParas = numParas s + 1\<rparr>
      else s)"

definition para_step :: "para_state \<Rightarrow> ltrf_obj \<Rightarrow> para_state result" where
  "para_step s elem =
     (if isBreakMarker elem then Inr (flush_para s)
      else bindR (isBlock elem) (\<lambda>block.
        if block
        then let s' = flush_para s in Inr (s'\<lparr>outElems := outElems s' @ [elem]\<rparr>)
        else Inr (s\<lparr>paraAccum := paraAccum s @ [elem]\<rparr>)))"

definition para_finish :: "para_state \<Rightarrow> ltrf_obj list" where
  "para_finish s =
     (if length (paraAccum s) \<ge> 1
      then if numParas s \<ge> 1 then outElems s @ [Nd (makePara (paraAccum s))]
           else outElems s @ paraAccum s
      else outElems s)"

definition is_ws_str :: "ltrf_obj \<Rightarrow> bool" where
  "is_ws_str l = ltrfObjLift isWhitespace (\<lambda>_. False) l"

text \<open>The two \<^verbatim>\<open>while\<close> loops of \<^verbatim>\<open>trimSingleParaNode\<close>.\<close>

fun trim_front :: "ltrf_obj list \<Rightarrow> ltrf_obj list" where
  "trim_front [] = []"
| "trim_front (x # xs) = (if is_ws_str x then trim_front xs else x # xs)"

function trim_back :: "ltrf_obj list \<Rightarrow> ltrf_obj list" where
  "trim_back xs = (if xs \<noteq> [] \<and> is_ws_str (last xs) then trim_back (butlast xs) else xs)"
  by pat_completeness auto
termination
  by (relation "measure length") auto

declare trim_back.simps [simp del]

definition trimSingleParaNode :: "ltrf_obj \<Rightarrow> ltrf_obj" where
  "trimSingleParaNode n = ltrfObjLift LtrfStr
     (\<lambda>m. if node_tag m = PARAGRAPH_TAG
          then Nd (withElems m (trim_back (trim_front (node_elems m)))) else Nd m) n"

definition isNotEmptyPara :: "ltrf_obj \<Rightarrow> bool" where
  "isNotEmptyPara n \<longleftrightarrow>
     \<not> ltrfObjLift (\<lambda>_. False) (\<lambda>m. node_tag m = PARAGRAPH_TAG \<and> length (node_elems m) = 0) n"

definition trimParas :: "ltrf_obj list \<Rightarrow> ltrf_obj list" where
  "trimParas n = filter isNotEmptyPara (map trimSingleParaNode n)"

fun processParagraphsHelper :: "ltrf_node \<Rightarrow> ltrf_node result" where
  "processParagraphsHelper n =
     bindR (mapR (\<lambda>el. ltrfObjLift (\<lambda>s. Inr (LtrfStr s))
         (\<lambda>m. bindR (processParagraphsHelper m) (\<lambda>m'. Inr (Nd m'))) el) (node_elems n))
       (\<lambda>elems2. let n2 = withElems n elems2 in
         bindR (foldR para_step \<lparr>outElems = [], paraAccum = [], numParas = 0\<rparr> (node_elems n2))
           (\<lambda>s. Inr (withElems n2 (trimParas (para_finish s)))))"

declare processParagraphsHelper.simps [simp del]

lemmas processParagraphsHelper_code [code] = processParagraphsHelper.simps [of "LtrfNode t kv es" for t kv es]

definition processParagraphs :: "ltrf_node \<Rightarrow> ltrf_node result" where
  "processParagraphs root = processParagraphsHelper root"

section \<open>Automation\<close>

lemma paragraph_preds [simp]:
  "\<not> isPara (LtrfStr s)" "isPara (Nd m) \<longleftrightarrow> node_tag m = PARAGRAPH_TAG"
  "\<not> isBreakMarker (LtrfStr s)" "isBreakMarker (Nd m) \<longleftrightarrow> node_tag m = BREAK_MARKER_TAG"
  "isBlock (LtrfStr s) = Inr False" "isBlock (Nd m) = kv_isBlock m"
  "is_ws_str (LtrfStr s) \<longleftrightarrow> isWhitespace s" "\<not> is_ws_str (Nd m)"
  "trimSingleParaNode (LtrfStr s) = LtrfStr s"
  "isNotEmptyPara (LtrfStr s)"
  "isNotEmptyPara (Nd m) \<longleftrightarrow> \<not> (node_tag m = PARAGRAPH_TAG \<and> node_elems m = [])"
  by (simp_all add: isPara_def isBreakMarker_def isBlock_def is_ws_str_def trimSingleParaNode_def
      isNotEmptyPara_def)

lemma tags_distinct [simp]:
  "PARAGRAPH_TAG \<noteq> BREAK_MARKER_TAG" "BREAK_MARKER_TAG \<noteq> PARAGRAPH_TAG"
  "ROOT_TAG \<noteq> PARAGRAPH_TAG" "ROOT_TAG \<noteq> BREAK_MARKER_TAG"
  "DOC_TAG \<noteq> PARAGRAPH_TAG" "DOC_TAG \<noteq> BREAK_MARKER_TAG"
  by (simp_all add: PARAGRAPH_TAG_def BREAK_MARKER_TAG_def ROOT_TAG_def DOC_TAG_def)

lemma makePara_simps [simp]:
  "node_tag (makePara es) = PARAGRAPH_TAG" "node_elems (makePara es) = es"
  "kv_isBlock (makePara es) = Inr True"
  by (simp_all add: makePara_def kv_isBlock_def)

lemma trim_front_eq: "trim_front xs = dropWhile is_ws_str xs"
  by (induction xs) auto

lemma trim_back_simps [simp]:
  "trim_back [] = []"
  "trim_back (xs @ [x]) = (if is_ws_str x then trim_back xs else xs @ [x])"
  by (simp_all add: trim_back.simps [of "[]"] trim_back.simps [of "xs @ [x]"])

lemma trim_back_eq: "trim_back xs = rev (dropWhile is_ws_str (rev xs))"
  by (induction xs rule: rev_induct) auto

text \<open>What the paragraph pass makes of the children, on a list of nodes already processed.\<close>

definition group_paras :: "ltrf_obj list \<Rightarrow> ltrf_obj list result" where
  "group_paras es =
     bindR (foldR para_step \<lparr>outElems = [], paraAccum = [], numParas = 0\<rparr> es)
       (\<lambda>s. Inr (para_finish s))"

definition paras_children :: "ltrf_obj list \<Rightarrow> ltrf_obj list result" where
  "paras_children es = mapR (\<lambda>el. ltrfObjLift (\<lambda>s. Inr (LtrfStr s))
     (\<lambda>m. bindR (processParagraphsHelper m) (\<lambda>m'. Inr (Nd m'))) el) es"

lemma processParagraphsHelper_eq:
  "processParagraphsHelper n = bindR (paras_children (node_elems n)) (\<lambda>es.
     bindR (group_paras es) (\<lambda>out. Inr (withElems n (trimParas out))))"
  by (simp add: processParagraphsHelper.simps [of n] paras_children_def group_paras_def Let_def
      bindR_assoc) (simp add: withElems_def)

lemma paras_tag_kv:
  "processParagraphsHelper n = Inr n' \<Longrightarrow> node_tag n' = node_tag n \<and> node_kv n' = node_kv n"
  by (auto simp: processParagraphsHelper_eq bindR_eq_Inr_iff)

section \<open>Grouping into paragraphs\<close>

text \<open>
  The specification of the loop: cut the children at the delimiters (paragraph breaks and
  blocks).  A non-empty piece before a delimiter is a paragraph; the delimiter stays when it is
  a block.  The last piece is a paragraph only when the loop has made one before.
\<close>

definition is_delimiter :: "ltrf_obj \<Rightarrow> bool" where
  "is_delimiter l \<longleftrightarrow> isBreakMarker l \<or> isBlock l = Inr True"

definition piece :: "ltrf_obj list \<Rightarrow> ltrf_obj list" where
  "piece es = (if es = [] then [] else [Nd (makePara es)])"

definition keep_block :: "ltrf_obj \<Rightarrow> ltrf_obj list" where
  "keep_block d = (if isBreakMarker d then [] else [d])"

function group_spec :: "bool \<Rightarrow> ltrf_obj list \<Rightarrow> ltrf_obj list" where
  "group_spec made es =
     (let front = takeWhile (\<lambda>l. \<not> is_delimiter l) es in
      case dropWhile (\<lambda>l. \<not> is_delimiter l) es of
        [] \<Rightarrow> (if made then piece front else front)
      | d # rest \<Rightarrow> piece front @ keep_block d @ group_spec (made \<or> front \<noteq> []) rest)"
  by pat_completeness auto
termination
proof (relation "measure (\<lambda>(_, es). length es)")
  fix made es x d rest
  assume "dropWhile (\<lambda>l. \<not> is_delimiter l) es = d # rest"
  then have "length (d # rest) \<le> length es"
    by (metis length_dropWhile_le)
  then show "((made \<or> x \<noteq> [], rest), made, es) \<in> measure (\<lambda>(_, es). length es)"
    by simp
qed simp

declare group_spec.simps [simp del]

definition blocks_ok :: "ltrf_obj list \<Rightarrow> bool" where
  "blocks_ok es \<longleftrightarrow> list_all (\<lambda>l. isBreakMarker l \<or> (\<exists>b. isBlock l = Inr b)) es"

lemma para_step_piece:
  assumes "list_all (\<lambda>l. \<not> is_delimiter l) es" and "blocks_ok es"
  shows "foldR para_step s es = Inr (s\<lparr>paraAccum := paraAccum s @ es\<rparr>)"
  using assms
proof (induction es arbitrary: s)
  case (Cons l es)
  from Cons.prems have "\<not> isBreakMarker l" "isBlock l = Inr False"
    by (auto simp: is_delimiter_def blocks_ok_def)
  with Cons show ?case by (simp add: para_step_def blocks_ok_def)
qed simp

lemma para_step_delimiter:
  assumes "is_delimiter d"
  shows "para_step s d = Inr \<lparr>outElems = outElems s @ piece (paraAccum s) @ keep_block d,
    paraAccum = [], numParas = numParas s + (if paraAccum s = [] then 0 else 1)\<rparr>"
  using assms
  by (cases s) (auto simp: para_step_def is_delimiter_def flush_para_def piece_def keep_block_def
      Let_def Suc_le_eq)

lemma group_loop_spec:
  "blocks_ok es \<Longrightarrow> \<exists>t. foldR para_step \<lparr>outElems = out, paraAccum = [], numParas = k\<rparr> es = Inr t \<and>
     para_finish t = out @ group_spec (k > 0) es"
proof (induction "length es" arbitrary: es out k rule: less_induct)
  case less
  define front where "front = takeWhile (\<lambda>l. \<not> is_delimiter l) es"
  define later where "later = dropWhile (\<lambda>l. \<not> is_delimiter l) es"
  have es: "es = front @ later" by (simp add: front_def later_def)
  with less.prems have ok: "blocks_ok front" "blocks_ok later" by (auto simp: blocks_ok_def)
  have "list_all (\<lambda>l. \<not> is_delimiter l) front"
    by (auto simp: front_def list_all_iff dest: set_takeWhileD)
  then have step1: "foldR para_step \<lparr>outElems = out, paraAccum = [], numParas = k\<rparr> es =
      foldR para_step \<lparr>outElems = out, paraAccum = front, numParas = k\<rparr> later"
    using ok(1) by (simp add: es foldR_append para_step_piece)
  show ?case
  proof (cases later)
    case Nil
    then show ?thesis
      unfolding step1 group_spec.simps [where es = es] later_def [symmetric] front_def [symmetric]
      by (auto simp: para_finish_def piece_def Suc_le_eq)
  next
    case (Cons d rest)
    then have d: "is_delimiter d"
      unfolding later_def by (metis hd_dropWhile list.discI list.sel(1))
    have "length rest < length es" by (simp add: es Cons)
    moreover have "blocks_ok rest" using ok(2) Cons by (simp add: blocks_ok_def)
    ultimately obtain t where
      "foldR para_step \<lparr>outElems = out @ piece front @ keep_block d, paraAccum = [],
         numParas = k + (if front = [] then 0 else 1)\<rparr> rest = Inr t"
      and "para_finish t = (out @ piece front @ keep_block d) @
         group_spec (k + (if front = [] then 0 else 1) > 0) rest"
      using less.hyps by blast
    moreover have "(k + (if front = [] then 0 else 1) > 0) = (k > 0 \<or> front \<noteq> [])"
      by simp
    ultimately show ?thesis
      unfolding step1 group_spec.simps [where es = es] later_def [symmetric] front_def [symmetric]
      by (simp add: Cons para_step_delimiter [OF d] Let_def del: neq0_conv)
  qed
qed

lemma group_paras_error:
  "\<not> blocks_ok es \<Longrightarrow> \<exists>e. foldR para_step s es = Inl e"
proof (induction es arbitrary: s)
  case (Cons l es)
  show ?case
  proof (cases "para_step s l")
    case (Inr s')
    then have "isBreakMarker l \<or> (\<exists>b. isBlock l = Inr b)"
      by (auto simp: para_step_def bindR_eq_Inr_iff split: if_splits)
    with Cons.prems have "\<not> blocks_ok es" by (simp add: blocks_ok_def)
    with Cons.IH Inr show ?thesis by simp
  qed simp
qed (simp add: blocks_ok_def)

lemma group_paras_Inr:
  "group_paras es = Inr out \<longleftrightarrow> blocks_ok es \<and> out = group_spec False es"
proof (cases "blocks_ok es")
  case True
  then show ?thesis using group_loop_spec [of es "[]" 0] by (auto simp: group_paras_def)
next
  case False
  then obtain e where "foldR para_step \<lparr>outElems = [], paraAccum = [], numParas = 0\<rparr> es = Inl e"
    using group_paras_error by blast
  with False show ?thesis by (simp add: group_paras_def)
qed

text \<open>
  C25: the paragraph loop computes the grouping specification, for any children whose
  \<^verbatim>\<open>isBlock\<close> entries are booleans, and throws for all others.
\<close>

theorem paragraph_loop_correct:
  "group_paras es = (if blocks_ok es then Inr (group_spec False es)
     else Inl (ProcessError IsBlockNotBoolean))"
proof (cases "blocks_ok es")
  case True
  then show ?thesis by (simp add: group_paras_Inr)
next
  case False
  then obtain e where e: "group_paras es = Inl e"
    using group_paras_Inr [of es] by (cases "group_paras es") auto
  have block: "isBlock l = Inl e' \<Longrightarrow> e' = ProcessError IsBlockNotBoolean" for l e'
    by (cases l) (auto simp: kv_isBlock_def split: option.splits js_val.splits)
  have "foldR para_step s es = Inl e' \<Longrightarrow> e' = ProcessError IsBlockNotBoolean" for s e'
  proof (induction es arbitrary: s)
    case (Cons l es)
    then show ?case
      by (auto simp: bindR_eq_Inl_iff para_step_def Let_def dest: block split: if_splits)
  qed simp
  with e False show ?thesis by (auto simp: group_paras_def bindR_eq_Inl_iff)
qed

end
