(* ===== verification/Processing.thy ===== *)
theory Processing
  imports Paragraphs
begin

text \<open>
  The middle pass (\<^verbatim>\<open>process/process.ts\<close>): the four passes in their order, what they keep of
  the document, when they succeed, and what the result looks like.
\<close>

section \<open>The pass pipeline\<close>

definition PROCESSING_PASSES :: "(ltrf_node \<Rightarrow> ltrf_node result) list" where
  "PROCESSING_PASSES =
     [processRoot, processRemoveWhitespaceLines, processLinebreaks, processParagraphs]"

definition processPass :: "ltrf_node \<Rightarrow> ltrf_node result" where
  "processPass ltrfRootNode =
     foldR (\<lambda>out pass. bindR (assertR (isLtrfNode (Nd out))) (\<lambda>_. pass out))
       ltrfRootNode PROCESSING_PASSES"

lemma processPass_eq:
  "processPass r = bindR (processRoot r) (\<lambda>r1.
     processParagraphsHelper (processLinebreaksHelper (remWhitespace r1)))"
  by (simp add: processPass_def PROCESSING_PASSES_def processRemoveWhitespaceLines_def
      processLinebreaks_def processParagraphs_def)

section \<open>The content of a document\<close>

text \<open>
  The content of an object: the tree without whitespace strings, without break markers and with
  the paragraph nodes opened.
\<close>

fun content_node :: "ltrf_node \<Rightarrow> ltrf_obj list" where
  "content_node n =
     (let es = concat (map (ltrfObjLift (\<lambda>s. if isWhitespace s then [] else [LtrfStr s])
          content_node) (node_elems n))
      in if node_tag n = PARAGRAPH_TAG then es
         else if node_tag n = BREAK_MARKER_TAG then []
         else [Nd (withElems n es)])"

declare content_node.simps [simp del]

lemmas content_node_code [code] = content_node.simps [of "LtrfNode t kv es" for t kv es]

definition content_obj :: "ltrf_obj \<Rightarrow> ltrf_obj list" where
  "content_obj l = ltrfObjLift (\<lambda>s. if isWhitespace s then [] else [LtrfStr s]) content_node l"

definition content :: "ltrf_obj list \<Rightarrow> ltrf_obj list" where
  "content es = concat (map content_obj es)"

lemma content_node_eq:
  "content_node n =
     (if node_tag n = PARAGRAPH_TAG then content (node_elems n)
      else if node_tag n = BREAK_MARKER_TAG then []
      else [Nd (withElems n (content (node_elems n)))])"
  by (simp add: content_node.simps [of n] content_def content_obj_def [abs_def] Let_def)

lemma content_simps [simp]:
  "content_obj (LtrfStr s) = (if isWhitespace s then [] else [LtrfStr s])"
  "content_obj (Nd n) = content_node n"
  "content [] = []"
  "content (l # es) = content_obj l @ content es"
  "content (es @ fs) = content es @ content fs"
  by (simp_all add: content_def content_obj_def)

lemma content_append: "content (es @ fs) = content es @ content fs"
  by simp

lemma content_ws [simp]: "is_ws_str l \<Longrightarrow> content_obj l = []"
  by (cases l) auto

lemma content_cong:
  "(\<And>l. l \<in> set es \<Longrightarrow> content (f l) = content_obj l) \<Longrightarrow> content (concat (map f es)) = content es"
proof (induction es)
  case (Cons l es)
  then show ?case by simp
qed simp

lemma content_map_cong:
  "(\<And>l. l \<in> set es \<Longrightarrow> content_obj (f l) = content_obj l) \<Longrightarrow> content (map f es) = content es"
  using content_cong [of es "\<lambda>l. [f l]"] by simp

lemma content_filter:
  "(\<And>l. l \<in> set es \<Longrightarrow> \<not> P l \<Longrightarrow> content_obj l = []) \<Longrightarrow> content (filter P es) = content es"
proof (induction es)
  case (Cons l es)
  then show ?case by simp
qed simp

lemma content_dropWhile:
  "(\<And>l. P l \<Longrightarrow> content_obj l = []) \<Longrightarrow> content (dropWhile P es) = content es"
proof (induction es)
  case (Cons l es)
  then show ?case by simp
qed simp

lemma content_node_withElems:
  "content es = content (node_elems n) \<Longrightarrow> content_node (withElems n es) = content_node n"
  by (simp add: content_node_eq withElems_def ltrf_make_def)

text \<open>
  A pass that keeps the content of the tree it is given, its tag and its attributes.  The
  pipeline is any sequence of such passes.
\<close>

locale content_pass =
  fixes pass :: "ltrf_node \<Rightarrow> ltrf_node result"
  assumes pass_content: "pass n = Inr n' \<Longrightarrow> content_node n' = content_node n"
    and pass_tag: "pass n = Inr n' \<Longrightarrow> node_tag n' = node_tag n"
begin

lemma pass_subtree:
  "pass n = Inr n' \<Longrightarrow> content (es @ Nd n' # fs) = content (es @ Nd n # fs)"
  by (simp add: pass_content)

lemma pass_kept_by_rest:
  assumes "\<And>n n'. rest n = Inr n' \<Longrightarrow> content_node n' = content_node n"
    and "bindR (pass n) rest = Inr n'"
  shows "content_node n' = content_node n"
  using assms pass_content by (fastforce simp: bindR_eq_Inr_iff)

end

lemma fold_content_passes:
  assumes "\<forall>p \<in> set ps. content_pass p"
    and "foldR (\<lambda>out pass. bindR (assertR (isLtrfNode (Nd out))) (\<lambda>_. pass out)) n ps = Inr n'"
  shows "content_node n' = content_node n \<and> node_tag n' = node_tag n"
  using assms
proof (induction ps arbitrary: n)
  case (Cons p ps)
  then obtain m where p: "content_pass p" and m: "p n = Inr m"
    and rest: "foldR (\<lambda>out pass. bindR (assertR (isLtrfNode (Nd out))) (\<lambda>_. pass out)) m ps = Inr n'"
    by (auto simp: bindR_eq_Inr_iff)
  from Cons.IH [OF _ rest] Cons.prems(1) content_pass.pass_content [OF p m]
    content_pass.pass_tag [OF p m]
  show ?case by simp
qed simp

interpretation root_pass: content_pass processRoot
proof
  fix n n' assume "processRoot n = Inr n'"
  then have ok: "root_ok n" and n': "n' = updateElems n (filter is_doc)"
    by (simp_all add: processRoot_Inr)
  have "content_obj l = []" if "l \<in> set (node_elems n)" and "\<not> is_doc l" for l
    using ok that by (cases l) (auto simp: root_ok_def list_all_iff is_doc_def)
  then have "content (filter is_doc (node_elems n)) = content (node_elems n)"
    by (rule content_filter)
  with n' show "content_node n' = content_node n"
    using content_node_withElems [of "filter is_doc (node_elems n)" n]
    by (simp add: withElems_def updateElems_def)
  from n' show "node_tag n' = node_tag n" by simp
qed

lemma remWhitespace_elems:
  "node_elems (remWhitespace n) = concat (map (ltrfObjLift
     (\<lambda>s. if s \<noteq> newline \<and> isWhitespace s then [] else [LtrfStr s])
     (\<lambda>m. [Nd (remWhitespace m)])) (node_elems n))"
  by (simp add: remWhitespace.simps [of n])

lemma remWhitespace_tag_kv [simp]:
  "node_tag (remWhitespace n) = node_tag n" "node_kv (remWhitespace n) = node_kv n"
  by (simp_all add: remWhitespace.simps [of n])

lemma content_node_same:
  "node_tag n' = node_tag n \<Longrightarrow> node_kv n' = node_kv n \<Longrightarrow>
   content (node_elems n') = content (node_elems n) \<Longrightarrow> content_node n' = content_node n"
  by (simp add: content_node_eq withElems_def)

lemma remWhitespace_content: "content_node (remWhitespace n) = content_node n"
proof (induction n rule: ltrf_node_induct)
  case (LtrfNode t kv es)
  have "content (ltrfObjLift (\<lambda>s. if s \<noteq> newline \<and> isWhitespace s then [] else [LtrfStr s])
      (\<lambda>m. [Nd (remWhitespace m)]) l) = content_obj l" if "l \<in> set es" for l
    using that LtrfNode.IH by - (cases l; auto)
  then show ?case
    by (intro content_node_same) (auto simp: remWhitespace_elems intro: content_cong)
qed

interpretation whitespace_pass: content_pass processRemoveWhitespaceLines
  by unfold_locales (auto simp: processRemoveWhitespaceLines_def remWhitespace_content)

lemma newline_spec_content: "content (map final_elem (newline_spec first es)) = content es"
proof (induction first es rule: newline_spec.induct)
  case (2 first x xs)
  have nl: "content_obj l = []" if "isNewline l" for l
    using that by (cases l) auto
  show ?case
  proof (cases "isNewline x")
    case True
    have "content (dropWhile isNewline xs) = content xs"
      by (rule content_dropWhile) (rule nl)
    with 2 True show ?thesis
      by (auto simp: final_elem_def nl content_node_eq break_marker_def)
  next
    case False
    with 2 show ?thesis by (simp add: final_elem_def)
  qed
qed simp

lemma linebreaks_content: "content_node (processLinebreaksHelper n) = content_node n"
proof (induction n rule: ltrf_node_induct)
  case (LtrfNode t kv es)
  have "content_obj (ltrfObjLift LtrfStr (\<lambda>m. Nd (processLinebreaksHelper m)) l) = content_obj l"
    if "l \<in> set es" for l
    using that LtrfNode.IH by - (cases l; auto)
  then have "content (linebreaks_children es) = content es"
    unfolding linebreaks_children_def by (rule content_map_cong)
  then show ?case
    by (intro content_node_same) (simp_all add: linebreaks_elems newline_spec_content)
qed

interpretation linebreak_pass: content_pass processLinebreaks
  by unfold_locales (auto simp: processLinebreaks_def linebreaks_content)

text \<open>The two equations of the grouping specification, by the first delimiter.\<close>

abbreviation not_delimiter :: "ltrf_obj \<Rightarrow> bool" where
  "not_delimiter l \<equiv> \<not> is_delimiter l"

lemma group_spec_last:
  assumes "dropWhile not_delimiter es = []"
  shows "group_spec made es = (if made then piece es else es)"
proof -
  have "takeWhile not_delimiter es = es"
    using assms takeWhile_dropWhile_id [of not_delimiter es] by (simp del: dropWhile_eq_Nil_conv)
  with assms show ?thesis
    by (subst group_spec.simps) (simp del: dropWhile_eq_Nil_conv takeWhile_eq_all_conv)
qed

lemma group_spec_cut:
  assumes "dropWhile not_delimiter es = d # rest"
  shows "group_spec made es = piece (takeWhile not_delimiter es) @ keep_block d @
    group_spec (made \<or> takeWhile not_delimiter es \<noteq> []) rest"
  using assms by (subst group_spec.simps) (simp add: Let_def)

lemma piece_content: "content (piece es) = content es"
  by (simp add: piece_def content_node_eq)

lemma keep_block_content: "content (keep_block d) = content_obj d"
  by (cases d) (auto simp: keep_block_def content_node_eq)

lemma group_spec_content: "content (group_spec made es) = content es"
proof (induction made es rule: group_spec.induct)
  case (1 made es)
  show ?case
  proof (cases "dropWhile not_delimiter es")
    case Nil
    then show ?thesis by (auto simp: group_spec_last piece_content)
  next
    case (Cons d rest)
    then have "content (group_spec (made \<or> takeWhile not_delimiter es \<noteq> []) rest) = content rest"
      using "1.IH" by blast
    then have "content (group_spec made es) =
        content (takeWhile not_delimiter es @ dropWhile not_delimiter es)"
      unfolding group_spec_cut [OF Cons] Cons
      by (simp only: content_append piece_content keep_block_content content_simps append_assoc)
    then show ?thesis by (simp only: takeWhile_dropWhile_id)
  qed
qed

lemma trimParas_content: "content (trimParas es) = content es"
proof -
  have trim: "content_obj (trimSingleParaNode l) = content_obj l" for l
  proof (cases l)
    case (Nd m)
    have "content (trim_back (trim_front (node_elems m))) = content (node_elems m)"
    proof -
      have "content (trim_back fs) = content fs" for fs
      proof (induction fs rule: rev_induct)
        case (snoc x xs)
        then show ?case by simp
      qed simp
      then show ?thesis
        using content_dropWhile [of is_ws_str "node_elems m"]
        by (simp add: trim_front_eq)
    qed
    then show ?thesis
      using Nd by (simp add: trimSingleParaNode_def content_node_withElems)
  qed simp
  have "content (trimParas es) = content (map trimSingleParaNode es)"
    unfolding trimParas_def
  proof (rule content_filter)
    fix l assume "\<not> isNotEmptyPara l"
    then show "content_obj l = []" by (cases l) (auto simp: content_node_eq)
  qed
  also have "\<dots> = content es" by (rule content_map_cong) (rule trim)
  finally show ?thesis .
qed

lemma paragraphs_content:
  "processParagraphsHelper n = Inr n' \<Longrightarrow> content_node n' = content_node n"
proof (induction n arbitrary: n' rule: ltrf_node_induct)
  case (LtrfNode t kv es)
  then obtain es2 where es2: "paras_children es = Inr es2" and ok: "blocks_ok es2"
    and n': "n' = withElems (LtrfNode t kv es) (trimParas (group_spec False es2))"
    by (auto simp: processParagraphsHelper_eq bindR_eq_Inr_iff group_paras_Inr)
  have "list_all2 (\<lambda>l l2. ltrfObjLift (\<lambda>s. Inr (LtrfStr s))
      (\<lambda>m. bindR (processParagraphsHelper m) (\<lambda>m'. Inr (Nd m'))) l = Inr l2) es es2"
    using es2 by (simp add: paras_children_def mapR_eq_Inr_iff)
  then have "content es2 = content es"
    using LtrfNode.IH
  proof (induction es es2 rule: list_all2_induct)
    case (Cons l ls l2 ls2)
    have "content_obj l2 = content_obj l"
      using Cons.hyps(1) Cons.prems by (cases l) (auto simp: bindR_eq_Inr_iff)
    with Cons show ?case by simp
  qed simp
  then show ?case
    unfolding n' by (intro content_node_withElems) (simp add: trimParas_content group_spec_content)
qed

interpretation paragraph_pass: content_pass processParagraphs
  by unfold_locales (auto simp: processParagraphs_def paragraphs_content dest: paras_tag_kv)

lemma processPass_content:
  assumes "processPass r = Inr r'"
  shows "content_node r' = content_node r \<and> node_tag r' = node_tag r"
proof -
  have "\<forall>p \<in> set PROCESSING_PASSES. content_pass p"
    by (simp add: PROCESSING_PASSES_def root_pass.content_pass_axioms
        whitespace_pass.content_pass_axioms linebreak_pass.content_pass_axioms
        paragraph_pass.content_pass_axioms)
  from fold_content_passes [OF this assms [unfolded processPass_def]] show ?thesis by simp
qed

text \<open>
  C9: processing keeps the document.  The result has the content of what was given: the same
  non-whitespace strings and the same nodes with their tags and attributes, nested the same way
  and in the same order; only whitespace, break markers and paragraph nodes differ.
\<close>

theorem processPass_keeps_content:
  assumes "processPass r = Inr r'"
  shows "content_node r' = content_node r \<and> node_tag r' = node_tag r"
  using assms by (rule processPass_content)

section \<open>When processing succeeds\<close>

definition flag_ok :: "ltrf_node \<Rightarrow> bool" where
  "flag_ok m = (case kv_isBlock m of Inl _ \<Rightarrow> False | Inr _ \<Rightarrow> True)"

text \<open>
  Every node below the root, but for break markers, has a boolean (or missing) \<^verbatim>\<open>isBlock\<close>.
\<close>

fun flags_below :: "ltrf_node \<Rightarrow> bool" where
  "flags_below n = list_all (ltrfObjLift (\<lambda>_. True)
     (\<lambda>m. (node_tag m = BREAK_MARKER_TAG \<or> flag_ok m) \<and> flags_below m)) (node_elems n)"

declare flags_below.simps [simp del]

lemmas flags_below_code [code] = flags_below.simps [of "LtrfNode t kv es" for t kv es]

definition obj_flags :: "ltrf_obj \<Rightarrow> bool" where
  "obj_flags l = ltrfObjLift (\<lambda>_. True)
     (\<lambda>m. (node_tag m = BREAK_MARKER_TAG \<or> flag_ok m) \<and> flags_below m) l"

lemma flags_below_eq: "flags_below n = list_all obj_flags (node_elems n)"
  by (simp add: flags_below.simps [of n] obj_flags_def [abs_def])

lemma obj_flags_simps [simp]:
  "obj_flags (LtrfStr s)"
  "obj_flags (Nd m) \<longleftrightarrow> (node_tag m = BREAK_MARKER_TAG \<or> flag_ok m) \<and> flags_below m"
  by (simp_all add: obj_flags_def)

lemma flag_ok_iff: "flag_ok m \<longleftrightarrow> (\<exists>b. kv_isBlock m = Inr b)"
  by (auto simp: flag_ok_def split: sum.splits)

lemma flag_ok_cong: "node_kv m = node_kv n \<Longrightarrow> flag_ok m = flag_ok n"
  by (simp add: flag_ok_def kv_isBlock_def)

text \<open>The result of the pass on the children, and what it shares with them.\<close>

definition para_child :: "ltrf_obj \<Rightarrow> ltrf_obj \<Rightarrow> bool" where
  "para_child l l2 \<longleftrightarrow> ltrfObjLift (\<lambda>s. l2 = LtrfStr s)
     (\<lambda>m. \<exists>m'. processParagraphsHelper m = Inr m' \<and> l2 = Nd m') l"

lemma paras_children_Inr: "paras_children es = Inr es2 \<longleftrightarrow> list_all2 para_child es es2"
proof -
  have "(ltrfObjLift (\<lambda>s. Inr (LtrfStr s))
      (\<lambda>m. bindR (processParagraphsHelper m) (\<lambda>m'. Inr (Nd m'))) l = Inr l2) = para_child l l2"
    for l l2
    by (cases l) (auto simp: para_child_def bindR_eq_Inr_iff)
  then show ?thesis by (simp add: paras_children_def mapR_eq_Inr_iff)
qed

lemma para_child_simps [simp]:
  "para_child (LtrfStr s) l2 \<longleftrightarrow> l2 = LtrfStr s"
  "para_child (Nd m) l2 \<longleftrightarrow> (\<exists>m'. processParagraphsHelper m = Inr m' \<and> l2 = Nd m')"
  by (simp_all add: para_child_def)

lemma blocks_ok_children:
  "list_all2 para_child es es2 \<Longrightarrow>
   blocks_ok es2 = list_all (ltrfObjLift (\<lambda>_. True)
     (\<lambda>m. node_tag m = BREAK_MARKER_TAG \<or> flag_ok m)) es"
proof (induction rule: list_all2_induct)
  case (Cons l es l2 es2)
  have "(isBreakMarker l2 \<or> (\<exists>b. isBlock l2 = Inr b)) = ltrfObjLift (\<lambda>_. True)
      (\<lambda>m. node_tag m = BREAK_MARKER_TAG \<or> flag_ok m) l"
  proof (cases l)
    case (LtrfStr s)
    with Cons.hyps(1) have "isBlock l2 = Inr False" by simp
    with LtrfStr show ?thesis by auto
  next
    case (Nd m)
    with Cons.hyps(1) obtain m' where m': "processParagraphsHelper m = Inr m'" and "l2 = Nd m'"
      by auto
    with Nd paras_tag_kv [OF m'] flag_ok_cong [of m' m] show ?thesis by (auto simp: flag_ok_iff)
  qed
  with Cons.IH show ?case by (simp add: blocks_ok_def)
qed (simp add: blocks_ok_def)

lemma processParagraphsHelper_Inr:
  "processParagraphsHelper n = Inr n' \<longleftrightarrow> (\<exists>es2. list_all2 para_child (node_elems n) es2 \<and>
     blocks_ok es2 \<and> n' = withElems n (trimParas (group_spec False es2)))"
  by (auto simp: processParagraphsHelper_eq bindR_eq_Inr_iff paras_children_Inr group_paras_Inr)

lemma paragraphs_succeed_iff: "(\<exists>n'. processParagraphsHelper n = Inr n') \<longleftrightarrow> flags_below n"
proof (induction n rule: ltrf_node_induct)
  case (LtrfNode t kv es)
  let ?flag = "ltrfObjLift (\<lambda>_. True) (\<lambda>m. node_tag m = BREAK_MARKER_TAG \<or> flag_ok m)"
  let ?below = "ltrfObjLift (\<lambda>_. True) flags_below"
  have child: "(\<exists>l2. para_child l l2) = ?below l" if "l \<in> set es" for l
    using that LtrfNode.IH by - (cases l; auto)
  have children: "(\<exists>es2. list_all2 para_child es es2) = list_all ?below es"
    using child
  proof (induction es)
    case (Cons l es)
    have "(\<exists>es2. list_all2 para_child (l # es) es2) \<longleftrightarrow>
        (\<exists>l2. para_child l l2) \<and> (\<exists>es2. list_all2 para_child es es2)"
      by (auto simp: list_all2_Cons1)
    with Cons show ?case by simp
  qed auto
  have "(\<exists>n'. processParagraphsHelper (LtrfNode t kv es) = Inr n') \<longleftrightarrow>
      (\<exists>es2. list_all2 para_child es es2 \<and> blocks_ok es2)"
    by (auto simp: processParagraphsHelper_Inr)
  also have "\<dots> \<longleftrightarrow> list_all ?below es \<and> list_all ?flag es"
    using children blocks_ok_children [of es] by blast
  also have "\<dots> \<longleftrightarrow> list_all obj_flags es"
  proof (induction es)
    case (Cons l es)
    then show ?case by (cases l) auto
  qed simp
  finally show ?case by (simp add: flags_below_eq)
qed

lemma remWhitespace_flags: "flags_below (remWhitespace n) = flags_below n"
proof (induction n rule: ltrf_node_induct)
  case (LtrfNode t kv es)
  have "list_all obj_flags (ltrfObjLift
      (\<lambda>s. if s \<noteq> newline \<and> isWhitespace s then [] else [LtrfStr s])
      (\<lambda>m. [Nd (remWhitespace m)]) l) = obj_flags l" if "l \<in> set es" for l
    using that LtrfNode.IH flag_ok_cong [OF remWhitespace_tag_kv(2)] by - (cases l; auto)
  then show ?case
    by (auto simp: flags_below_eq remWhitespace_elems list_all_iff)
qed

lemma newline_spec_flags:
  "list_all obj_flags (map final_elem (newline_spec first es)) = list_all obj_flags es"
proof (induction first es rule: newline_spec.induct)
  case (2 first x xs)
  have nl: "obj_flags l" if "isNewline l" for l
    using that by (cases l) auto
  have "list_all obj_flags (dropWhile isNewline xs) = list_all obj_flags xs"
    by (induction xs) (auto simp: nl)
  with 2 nl show ?case
    by (auto simp: final_elem_def break_marker_def flags_below_eq)
qed simp

lemma linebreaks_flags: "flags_below (processLinebreaksHelper n) = flags_below n"
proof (induction n rule: ltrf_node_induct)
  case (LtrfNode t kv es)
  have "obj_flags (ltrfObjLift LtrfStr (\<lambda>m. Nd (processLinebreaksHelper m)) l) = obj_flags l"
    if "l \<in> set es" for l
    using that LtrfNode.IH flag_ok_cong [OF linebreaks_tag_kv(2)] by - (cases l; auto)
  then have "list_all obj_flags (linebreaks_children es) = list_all obj_flags es"
    by (auto simp: linebreaks_children_def list_all_iff)
  then show ?case
    by (simp add: flags_below_eq [of "processLinebreaksHelper _"] flags_below_eq [of "LtrfNode t kv es"]
        linebreaks_elems newline_spec_flags)
qed

lemma root_flags: "root_ok r \<Longrightarrow> flags_below (updateElems r (filter is_doc)) = flags_below r"
proof -
  assume ok: "root_ok r"
  have "obj_flags l" if "l \<in> set (node_elems r)" and "\<not> is_doc l" for l
    using ok that by - (cases l; auto simp: root_ok_def list_all_iff is_doc_def)
  then show ?thesis by (auto simp: flags_below_eq list_all_iff)
qed

lemma processPass_succeeds:
  "(\<exists>r'. processPass r = Inr r') = (root_ok r \<and> flags_below r)"
proof -
  have "(\<exists>r'. processPass r = Inr r') \<longleftrightarrow> root_ok r \<and> flags_below (processLinebreaksHelper
      (remWhitespace (updateElems r (filter is_doc))))"
    by (simp add: processPass_eq bindR_eq_Inr_iff processRoot_Inr flip: paragraphs_succeed_iff)
  then show ?thesis by (auto simp: linebreaks_flags remWhitespace_flags root_flags)
qed

text \<open>
  C22: the exact domain of the middle pass.  It succeeds on a root tagged \<^verbatim>\<open>__root\<close> whose
  children are \<^verbatim>\<open>__doc\<close> nodes and whitespace and below which every \<^verbatim>\<open>isBlock\<close> entry is a
  boolean, and throws on every other tree.
\<close>

theorem processPass_succeeds_iff:
  "(\<exists>r'. processPass r = Inr r') = (root_ok r \<and> flags_below r)"
  by (rule processPass_succeeds)

section \<open>The shape of the result\<close>

text \<open>
  A paragraph node is neither empty nor begins or ends with whitespace, and holds no block; no
  node holds a break marker.
\<close>

definition para_shape :: "ltrf_obj list \<Rightarrow> bool" where
  "para_shape es \<longleftrightarrow> es \<noteq> [] \<and> \<not> is_ws_str (hd es) \<and> \<not> is_ws_str (last es) \<and>
     list_all (\<lambda>l. \<not> is_delimiter l) es"

definition node_shape :: "ltrf_node \<Rightarrow> bool" where
  "node_shape n \<longleftrightarrow> list_all (\<lambda>l. \<not> isBreakMarker l) (node_elems n) \<and>
     (if node_tag n = PARAGRAPH_TAG then para_shape (node_elems n) else True)"

definition no_paras :: "ltrf_node \<Rightarrow> bool" where
  "no_paras n = all_nodes (\<lambda>m. node_tag m \<noteq> PARAGRAPH_TAG) n"

lemma group_spec_elems:
  "l \<in> set (group_spec made es) \<Longrightarrow>
     (\<exists>fs. l = Nd (makePara fs) \<and> set fs \<subseteq> set es \<and> list_all not_delimiter fs) \<or>
     (l \<in> set es \<and> \<not> isBreakMarker l)"
proof (induction made es rule: group_spec.induct)
  case (1 made es)
  let ?front = "takeWhile not_delimiter es"
  have front: "set ?front \<subseteq> set es" "list_all not_delimiter ?front"
    by (auto simp: list_all_iff dest: set_takeWhileD)
  show ?case
  proof (cases "dropWhile not_delimiter es")
    case Nil
    with "1.prems" show ?thesis
      by (auto simp: group_spec_last piece_def is_delimiter_def list_all_iff split: if_splits)
  next
    case (Cons d rest)
    have rest: "set rest \<subseteq> set es" "d \<in> set es"
      using Cons set_dropWhileD [of _ not_delimiter es] by auto
    have "l \<in> set (piece ?front) \<or> l \<in> set (keep_block d) \<or>
        l \<in> set (group_spec (made \<or> ?front \<noteq> []) rest)"
      using "1.prems" unfolding group_spec_cut [OF Cons] by auto
    then show ?thesis
    proof (elim disjE)
      assume "l \<in> set (group_spec (made \<or> ?front \<noteq> []) rest)"
      from "1.IH" [OF refl Cons this] rest show ?thesis by blast
    qed (use front rest in \<open>auto simp: piece_def keep_block_def split: if_splits\<close>)
  qed
qed

lemma trim_shape:
  assumes "trim_back (trim_front fs) \<noteq> []" and "list_all not_delimiter fs"
  shows "para_shape (trim_back (trim_front fs))"
proof -
  let ?gs = "dropWhile is_ws_str fs"
  have trimmed: "trim_back (trim_front fs) = rev (dropWhile is_ws_str (rev ?gs))"
    by (simp add: trim_front_eq trim_back_eq)
  obtain ws where ws: "?gs = trim_back (trim_front fs) @ ws"
    unfolding trimmed by (metis rev_append rev_rev_ident takeWhile_dropWhile_id)
  have "?gs \<noteq> []" using assms(1) ws by auto
  then have "\<not> is_ws_str (hd ?gs)" by (rule hd_dropWhile)
  then have "\<not> is_ws_str (hd (trim_back (trim_front fs)))" using ws assms(1) by simp
  moreover have "\<not> is_ws_str (last (trim_back (trim_front fs)))"
    using assms(1) unfolding trimmed last_rev by (metis hd_dropWhile rev.simps(1))
  moreover have "set (trim_back (trim_front fs)) \<subseteq> set fs"
    using ws by (metis set_append set_dropWhileD subsetI UnCI)
  ultimately show ?thesis using assms by (auto simp: para_shape_def list_all_iff)
qed

lemma paragraphs_shape:
  "processParagraphsHelper n = Inr n' \<Longrightarrow> no_paras n \<Longrightarrow> all_nodes node_shape n'"
proof (induction n arbitrary: n' rule: ltrf_node_induct)
  case (LtrfNode t kv es)
  from LtrfNode.prems(1) obtain es2 where es2: "list_all2 para_child es es2"
    and n': "n' = withElems (LtrfNode t kv es) (trimParas (group_spec False es2))"
    by (auto simp: processParagraphsHelper_Inr)
  have child: "all_nodes node_shape m \<and> node_tag m \<noteq> PARAGRAPH_TAG" if m: "Nd m \<in> set es2" for m
  proof -
    from list_all2_in_set [OF es2 m] obtain l where l: "l \<in> set es" "para_child l (Nd m)"
      by blast
    then obtain k where k: "Nd k \<in> set es" "processParagraphsHelper k = Inr m"
      by - (cases l; auto)
    with LtrfNode.prems(2) have "no_paras k" "node_tag k \<noteq> PARAGRAPH_TAG"
      by (auto simp: no_paras_def all_nodes_iff [of _ "LtrfNode t kv es"] all_below_iff
          all_nodes_iff [of _ k])
    with LtrfNode.IH k paras_tag_kv [OF k(2)] show ?thesis by simp
  qed
  have elem: "\<not> isBreakMarker l \<and> (\<forall>m. l = Nd m \<longrightarrow> all_nodes node_shape m)"
    if l: "l \<in> set (trimParas (group_spec False es2))" for l
  proof -
    from l obtain g where g: "g \<in> set (group_spec False es2)" "l = trimSingleParaNode g"
      and nonempty: "isNotEmptyPara l"
      by (auto simp: trimParas_def)
    from group_spec_elems [OF g(1)] show ?thesis
    proof (elim disjE exE conjE)
      fix fs assume fs: "g = Nd (makePara fs)" "set fs \<subseteq> set es2" "list_all not_delimiter fs"
      let ?ts = "trim_back (trim_front fs)"
      have l': "l = Nd (withElems (makePara fs) ?ts)" using g(2) fs(1)
        by (simp add: trimSingleParaNode_def)
      have "?ts \<noteq> []" using nonempty l' by simp
      then have shape: "para_shape ?ts" using fs(3) by (rule trim_shape)
      have "set ?ts \<subseteq> set fs"
        by (auto simp: trim_front_eq trim_back_eq dest!: set_dropWhileD)
      then have "all_below node_shape ?ts"
        using child fs(2) unfolding all_below_iff by blast
      with shape l' show ?thesis
        by (auto simp: all_nodes_iff node_shape_def para_shape_def list_all_iff is_delimiter_def)
    next
      assume "g \<in> set es2" and "\<not> isBreakMarker g"
      with child g(2) show ?thesis by (cases g) (auto simp: trimSingleParaNode_def)
    qed
  qed
  have "t \<noteq> PARAGRAPH_TAG" using LtrfNode.prems(2) by (simp add: no_paras_def all_nodes_iff)
  with elem show ?case
    unfolding n' all_nodes_iff [of _ "withElems _ _"]
    by (auto simp: node_shape_def list_all_iff all_below_iff)
qed

text \<open>
  A property of a node that depends on its tag and attributes alone is kept by the passes, if
  the nodes that they insert have it.
\<close>

definition label_pred :: "(ltrf_node \<Rightarrow> bool) \<Rightarrow> bool" where
  "label_pred P \<longleftrightarrow> (\<forall>m m'. node_tag m' = node_tag m \<and> node_kv m' = node_kv m \<and> P m \<longrightarrow> P m')"

lemma label_predI: "(\<And>m. P m = Q (node_tag m) (node_kv m)) \<Longrightarrow> label_pred P"
  by (simp add: label_pred_def)

lemma label_predD:
  "label_pred P \<Longrightarrow> P m \<Longrightarrow> node_tag m' = node_tag m \<Longrightarrow> node_kv m' = node_kv m \<Longrightarrow> P m'"
  unfolding label_pred_def by blast

lemma remWhitespace_labels:
  assumes "label_pred P"
  shows "all_nodes P n \<Longrightarrow> all_nodes P (remWhitespace n)"
proof (induction n rule: ltrf_node_induct)
  case (LtrfNode t kv es)
  have "all_nodes P m" if "Nd m \<in> set (node_elems (remWhitespace (LtrfNode t kv es)))" for m
  proof -
    from that obtain l where l: "l \<in> set es"
      and "Nd m \<in> set (ltrfObjLift (\<lambda>s. if s \<noteq> newline \<and> isWhitespace s then [] else [LtrfStr s])
        (\<lambda>m. [Nd (remWhitespace m)]) l)"
      by (auto simp: remWhitespace_elems)
    then obtain k where "Nd k \<in> set es" "m = remWhitespace k"
      by - (cases l; auto split: if_splits)
    with LtrfNode show ?thesis by (auto simp: all_nodes_iff [of _ "LtrfNode t kv es"] all_below_iff)
  qed
  moreover have "P (remWhitespace (LtrfNode t kv es))"
    using LtrfNode.prems label_predD [OF assms, of "LtrfNode t kv es" "remWhitespace (LtrfNode t kv es)"]
    by (simp add: all_nodes_iff)
  ultimately show ?case
    by (simp add: all_nodes_iff [of _ "remWhitespace (LtrfNode t kv es)"] all_below_iff)
qed

lemma linebreaks_labels:
  assumes "label_pred P" and "P break_marker"
  shows "all_nodes P n \<Longrightarrow> all_nodes P (processLinebreaksHelper n)"
proof (induction n rule: ltrf_node_induct)
  case (LtrfNode t kv es)
  have "all_nodes P m" if m: "Nd m \<in> set (node_elems (processLinebreaksHelper (LtrfNode t kv es)))" for m
    using m
  proof (rule node_in_linebreaks)
    assume "m = break_marker"
    with assms(2) show ?thesis by (simp add: all_nodes_iff break_marker_def)
  next
    fix k assume "Nd k \<in> set (node_elems (LtrfNode t kv es))" "m = processLinebreaksHelper k"
    with LtrfNode show ?thesis
      by (auto simp: all_nodes_iff [of _ "LtrfNode t kv es"] all_below_iff)
  qed
  moreover have "P (processLinebreaksHelper (LtrfNode t kv es))"
    using LtrfNode.prems label_predD [OF assms(1), of "LtrfNode t kv es"
        "processLinebreaksHelper (LtrfNode t kv es)"]
    by (simp add: all_nodes_iff)
  ultimately show ?case
    by (simp add: all_nodes_iff [of _ "processLinebreaksHelper (LtrfNode t kv es)"] all_below_iff)
qed

lemma paragraphs_labels:
  assumes "label_pred P" and "\<And>fs. P (makePara fs)"
  shows "processParagraphsHelper n = Inr n' \<Longrightarrow> all_nodes P n \<Longrightarrow> all_nodes P n'"
proof (induction n arbitrary: n' rule: ltrf_node_induct)
  case (LtrfNode t kv es)
  from LtrfNode.prems(1) obtain es2 where es2: "list_all2 para_child es es2"
    and n': "n' = withElems (LtrfNode t kv es) (trimParas (group_spec False es2))"
    by (auto simp: processParagraphsHelper_Inr)
  have child: "all_nodes P m" if m: "Nd m \<in> set es2" for m
  proof -
    from list_all2_in_set [OF es2 m] obtain l where l: "l \<in> set es" "para_child l (Nd m)"
      by blast
    then obtain k where k: "Nd k \<in> set es" "processParagraphsHelper k = Inr m"
      by - (cases l; auto)
    with LtrfNode show ?thesis
      by (auto simp: all_nodes_iff [of _ "LtrfNode t kv es"] all_below_iff)
  qed
  have "all_nodes P m" if m: "Nd m \<in> set (trimParas (group_spec False es2))" for m
  proof -
    from m obtain g where g: "g \<in> set (group_spec False es2)" "Nd m = trimSingleParaNode g"
      by (auto simp: trimParas_def)
    from g(2) obtain k where k: "g = Nd k" by (cases g) (simp_all add: trimSingleParaNode_def)
    have same: "node_tag m = node_tag k" "node_kv m = node_kv k"
        "set (node_elems m) \<subseteq> set (node_elems k)"
      using g(2) by (auto simp: k trimSingleParaNode_def trim_front_eq trim_back_eq
          split: if_splits dest!: set_dropWhileD)
    have "all_nodes P k"
      using group_spec_elems [OF g(1)]
    proof (elim disjE exE conjE)
      fix fs assume "g = Nd (makePara fs)" "set fs \<subseteq> set es2"
      moreover from this(2) child have "all_below P fs" unfolding all_below_iff by blast
      ultimately show ?thesis using assms(2) [of fs] by (simp add: k all_nodes_iff [of P "makePara fs"])
    qed (use child k in simp)
    with same label_predD [OF assms(1)] show ?thesis
      unfolding all_nodes_iff [of P m] all_nodes_iff [of P k] all_below_iff by blast
  qed
  moreover have "P n'"
    using LtrfNode.prems(2) label_predD [OF assms(1), of "LtrfNode t kv es" n']
    by (simp add: n' all_nodes_iff [of P "LtrfNode t kv es"])
  ultimately show ?case by (simp add: all_nodes_iff [of P n'] all_below_iff) (simp add: n')
qed

lemma no_paras_label: "label_pred (\<lambda>m. node_tag m \<noteq> PARAGRAPH_TAG)"
  by (rule label_predI) simp

lemma remWhitespace_no_paras: "no_paras n \<Longrightarrow> no_paras (remWhitespace n)"
  unfolding no_paras_def by (rule remWhitespace_labels [OF no_paras_label])

lemma linebreaks_no_paras: "no_paras n \<Longrightarrow> no_paras (processLinebreaksHelper n)"
  unfolding no_paras_def by (rule linebreaks_labels [OF no_paras_label]) (simp_all add: break_marker_def)

lemma root_labels:
  "label_pred P \<Longrightarrow> all_nodes P r \<Longrightarrow> all_nodes P (updateElems r (filter f))"
  using label_predD [of P r "updateElems r (filter f)"]
  by (simp add: all_nodes_iff [of P r] all_nodes_iff [of P "updateElems r (filter f)"] all_below_iff)

lemma processPass_labels:
  assumes "label_pred P" and "P break_marker" and "\<And>fs. P (makePara fs)"
    and "processPass r = Inr r'" and "all_nodes P r"
  shows "all_nodes P r'"
proof -
  from assms(4) obtain r1 where "r1 = updateElems r (filter is_doc)"
    and "processParagraphsHelper (processLinebreaksHelper (remWhitespace r1)) = Inr r'"
    by (auto simp: processPass_eq bindR_eq_Inr_iff processRoot_Inr)
  then have r': "processParagraphsHelper (processLinebreaksHelper (remWhitespace
      (updateElems r (filter is_doc)))) = Inr r'" by simp
  from root_labels [OF assms(1,5), of is_doc] have "all_nodes P (remWhitespace (updateElems r (filter is_doc)))"
    by (rule remWhitespace_labels [OF assms(1)])
  then have "all_nodes P (processLinebreaksHelper (remWhitespace (updateElems r (filter is_doc))))"
    by (rule linebreaks_labels [OF assms(1,2)])
  with r' show ?thesis by (rule paragraphs_labels [OF assms(1,3)])
qed

lemma processPass_shaped:
  assumes "processPass r = Inr r'" and "no_paras r"
  shows "all_nodes node_shape r'"
proof -
  from assms(1) obtain r1 where r1: "r1 = updateElems r (filter is_doc)"
    and r': "processParagraphsHelper (processLinebreaksHelper (remWhitespace r1)) = Inr r'"
    by (auto simp: processPass_eq bindR_eq_Inr_iff processRoot_Inr)
  have "no_paras r1"
    using assms(2) root_labels [OF no_paras_label] by (simp add: r1 no_paras_def)
  with r' show ?thesis
    by (blast intro: paragraphs_shape linebreaks_no_paras remWhitespace_no_paras)
qed

text \<open>
  C23: the shape of a processed document.  When no node given is tagged as a paragraph already,
  the result has no break marker, and each of its paragraphs is non-empty, neither begins nor
  ends with whitespace and holds no block.
\<close>

theorem processPass_shape:
  assumes "processPass r = Inr r'" and "no_paras r"
  shows "all_nodes node_shape r'"
  using assms by (rule processPass_shaped)

section \<open>Witnesses\<close>

text \<open>
  A document with two paragraphs, a section heading between text, and the surrounding newlines:
  the heading closes the second paragraph and what follows it is a third.
\<close>

definition sample_sec :: ltrf_node where
  "sample_sec = LtrfNode (js ''sec'') [(js ''isBlock'', JBool True)] [LtrfStr (js ''t'')]"

definition sample_root :: ltrf_node where
  "sample_root = LtrfNode ROOT_TAG [] [LtrfStr newline, Nd (LtrfNode DOC_TAG []
     [LtrfStr newline, LtrfStr (js ''a''), LtrfStr newline, LtrfStr newline, LtrfStr (js ''b''),
      LtrfStr newline, Nd sample_sec, LtrfStr newline, LtrfStr (js ''c''), LtrfStr newline])]"

definition sample_processed :: ltrf_node where
  "sample_processed = LtrfNode ROOT_TAG [] [Nd (LtrfNode DOC_TAG []
     [Nd (makePara [LtrfStr (js ''a'')]), Nd (makePara [LtrfStr (js ''b'')]), Nd sample_sec,
      Nd (makePara [LtrfStr (js ''c'')])])]"

lemma letters [simp]:
  "\<not> isWhitespace (js ''a'')" "\<not> isWhitespace (js ''b'')" "\<not> isWhitespace (js ''c'')"
  "\<not> isWhitespace (js ''t'')"
  "js ''a'' \<noteq> newline" "js ''b'' \<noteq> newline" "js ''c'' \<noteq> newline" "js ''t'' \<noteq> newline"
  by (simp_all add: isWhitespace_iff js_def is_ws_unit_def newline_def)

lemmas tag_defs = PARAGRAPH_TAG_def BREAK_MARKER_TAG_def DOC_TAG_def ROOT_TAG_def

lemma sample_run: "processPass sample_root = Inr sample_processed"
  by (simp add: processPass_eq sample_root_def sample_processed_def sample_sec_def processRoot_def
      check_root_child_def is_doc_def remWhitespace_code processLinebreaksHelper_code
      processParagraphsHelper_code updateElems_def withElems_def ltrf_make_def Let_def
      final_elem_def break_marker_def para_step_def flush_para_def para_finish_def kv_isBlock_def
      trimParas_def trimSingleParaNode_def trim_back_eq makePara_def tag_defs)

lemma sample_no_paras: "no_paras sample_root"
  by (simp add: no_paras_def sample_root_def sample_sec_def all_nodes_iff tag_defs)

theorem processPass_keeps_content_witness:
  "content_node sample_processed = content_node sample_root \<and> node_tag sample_processed = ROOT_TAG"
  using processPass_keeps_content [OF sample_run] by (simp add: sample_root_def)

theorem processPass_shape_witness: "all_nodes node_shape sample_processed"
  by (rule processPass_shape [OF sample_run sample_no_paras])

end
