(* ===== verification/Evaluation.thy ===== *)
theory Evaluation
  imports CoreCommands
begin

text \<open>
  The evaluator (\<^verbatim>\<open>internal/evaluate/evaluate.ts\<close>): from the syntax tree of a file to the LTRF
  tree, running the commands from left to right.
\<close>

section \<open>The evaluator\<close>

definition ROOT_TAG_EVAL :: jstr where
  "ROOT_TAG_EVAL = js ''__root''"

definition evaluateTextNode :: "jstr \<Rightarrow> ltrf_obj list eval" where
  "evaluateTextNode content = act_return [LtrfStr content]"

lemma size_option_pos [termination_simp]: "0 < size_option f x"
  by (cases x) simp_all

text \<open>
  The two arrays that \<^verbatim>\<open>forEach\<close> fills, and the results of the entries are threaded through;
  \<open>evaluateNodes\<close> is \<^verbatim>\<open>flatMap\<close> over nodes.  A keyword argument with fewer than two entries makes
  \<^verbatim>\<open>evaluateSquareEntry\<close> read a field of \<^verbatim>\<open>undefined\<close>.
\<close>

function (sequential)
  evaluateNode :: "eval_ctx \<Rightarrow> ast_node \<Rightarrow> ltrf_obj list eval" and
  evaluateCommandNode :: "eval_ctx \<Rightarrow> jstr \<Rightarrow> square_arg list option \<Rightarrow> ast_node list list \<Rightarrow>
    ltrf_obj list eval" and
  evaluateSquareArgs :: "eval_ctx \<Rightarrow> square_arg list \<Rightarrow> cmd_square_arg list \<Rightarrow>
    cmd_square_arg jmap \<Rightarrow> (cmd_square_arg list \<times> cmd_square_arg jmap) eval" and
  evaluateSquareEntry :: "eval_ctx \<Rightarrow> square_entry \<Rightarrow> cmd_square_arg eval" and
  evaluateCurlyArgs :: "eval_ctx \<Rightarrow> ast_node list list \<Rightarrow> ltrf_obj list list eval" and
  evaluateNodes :: "eval_ctx \<Rightarrow> ast_node list \<Rightarrow> ltrf_obj list eval"
  where
  "evaluateNode c (AstTextNode content _) = evaluateTextNode content"
| "evaluateNode c (AstCommandNode commandName sq cu _) = evaluateCommandNode c commandName sq cu"
| "evaluateNode c (AstRootNode _ _) = act_throw (EvalError NestedRootUnsupported)"
| "evaluateCommandNode c commandName sq cu =
     act_bind (ask_heap (\<lambda>h. lookupCommand h (ctx_root c) commandName)) (\<lambda>command.
     if argumentEvaluation command \<noteq> Eager then act_throw (EvalError OnlyEagerSupported)
     else
       act_bind (case sq of None \<Rightarrow> act_return ([], []) | Some sqs \<Rightarrow> evaluateSquareArgs c sqs [] [])
         (\<lambda>(v, kv).
       act_bind (evaluateCurlyArgs c cu) (\<lambda>cs.
       call_command c command \<lparr>keywordArgs = kv, squareArgs = v, curlyArgs = cs\<rparr>)))"
| "evaluateSquareArgs c [] v kv = act_return (v, kv)"
| "evaluateSquareArgs c (ArgVal e # rest) v kv =
     act_bind (evaluateSquareEntry c e) (\<lambda>x. evaluateSquareArgs c rest (v @ [x]) kv)"
| "evaluateSquareArgs c (ArgKeyVal (key # val # _) # rest) v kv =
     act_bind (evaluateSquareEntry c key) (\<lambda>evalKey.
     act_bind (evaluateSquareEntry c val) (\<lambda>evalVal.
     case as_string evalKey of
       None \<Rightarrow> act_throw (EvalError KeywordKeyNotString)
     | Some k \<Rightarrow> evaluateSquareArgs c rest v (jmap_set k evalVal kv)))"
| "evaluateSquareArgs c (ArgKeyVal [key] # rest) v kv =
     act_bind (evaluateSquareEntry c key) (\<lambda>_. act_throw TypeError)"
| "evaluateSquareArgs c (ArgKeyVal [] # rest) v kv = act_throw TypeError"
| "evaluateSquareEntry c (EntryNum n) = act_return (SqNumber n)"
| "evaluateSquareEntry c (EntryBool b) = act_return (SqBoolean b)"
| "evaluateSquareEntry c (EntryIdent s) = act_return (SqObj (LtrfStr s))"
| "evaluateSquareEntry c (EntryQuotedStr s) = act_return (SqObj (LtrfStr s))"
| "evaluateSquareEntry c (EntryAstNode (AstCommandNode commandName sq cu _)) =
     act_bind (evaluateCommandNode c commandName sq cu) (\<lambda>out. case out of
         [x] \<Rightarrow> act_return (SqObj x)
       | _ \<Rightarrow> act_throw (EvalError SquareEntryNotSingle))"
| "evaluateSquareEntry c (EntryAstNode _) = act_throw AssertionError"
| "evaluateCurlyArgs c [] = act_return []"
| "evaluateCurlyArgs c (a # rest) =
     act_bind (evaluateNodes c a) (\<lambda>x. act_bind (evaluateCurlyArgs c rest) (\<lambda>xs. act_return (x # xs)))"
| "evaluateNodes c [] = act_return []"
| "evaluateNodes c (n # rest) =
     act_bind (evaluateNode c n) (\<lambda>x. act_bind (evaluateNodes c rest) (\<lambda>xs. act_return (x @ xs)))"
  by pat_completeness auto
termination
  by (relation "measure (\<lambda>x. case x of
      Inl (Inl (c, n)) \<Rightarrow> size n
    | Inl (Inr (Inl (c, name, sq, cu))) \<Rightarrow>
        size_option (size_list size) sq + size_list (size_list size) cu
    | Inl (Inr (Inr (c, sqs, v, kv))) \<Rightarrow> size_list size sqs
    | Inr (Inl (c, e)) \<Rightarrow> size e
    | Inr (Inr (Inl (c, cu))) \<Rightarrow> size_list (size_list size) cu
    | Inr (Inr (Inr (c, ns))) \<Rightarrow> size_list size ns)") (simp_all add: size_option_pos)


declare evaluateCommandNode.simps [simp del]

definition evaluateRootNode :: "eval_ctx \<Rightarrow> ast_node \<Rightarrow> ltrf_obj list eval" where
  "evaluateRootNode c astRoot = (case astRoot of
       AstRootNode subNodes _ \<Rightarrow>
         act_bind (act_update (\<lambda>s. s\<lparr>ev_console :=
             ev_console s @ warnUserOfIssuesWithRootNode subNodes\<rparr>)) (\<lambda>_.
         act_bind (evaluateNodes c subNodes) (\<lambda>evalRoot.
         act_return [Nd (ltrf_make ROOT_TAG_EVAL [] evalRoot)]))
     | _ \<Rightarrow> act_throw TypeError)"

text \<open>
  \<^verbatim>\<open>evaluatePass\<close>: the environment is made on the store of namespaces, and the state after the
  evaluation is returned with the tree.
\<close>

definition evaluatePass ::
  "user_code \<Rightarrow> registry \<Rightarrow> ns_heap \<Rightarrow> module_storage \<Rightarrow> ast_node \<Rightarrow>
   (js_error + ltrf_obj \<times> eval_state) option" where
  "evaluatePass u reg h storage astRoot =
     (case makeEnvironmentWithStdCoreSetup u reg h storage of
        Inl e \<Rightarrow> Some (Inl e)
      | Inr (c, s) \<Rightarrow>
          act_bind (evaluateRootNode c astRoot) (\<lambda>out. case out of
              [x] \<Rightarrow> act_return x
            | _ \<Rightarrow> act_throw (EvalError RootMustReturnSingle)) s)"

section \<open>Evaluation returns and touches one namespace\<close>

lemma evaluation_safe:
  assumes "user_code_returns (ctx_user c)"
  shows "ctx_user c' = ctx_user c \<Longrightarrow> evals.safe c' (evaluateNode c' n)"
    and "ctx_user c' = ctx_user c \<Longrightarrow> evals.safe c' (evaluateCommandNode c' name sq cu)"
    and "ctx_user c' = ctx_user c \<Longrightarrow> evals.safe c' (evaluateSquareArgs c' sqs v kv)"
    and "ctx_user c' = ctx_user c \<Longrightarrow> evals.safe c' (evaluateSquareEntry c' e)"
    and "ctx_user c' = ctx_user c \<Longrightarrow> evals.safe c' (evaluateCurlyArgs c' cus)"
    and "ctx_user c' = ctx_user c \<Longrightarrow> evals.safe c' (evaluateNodes c' ns)"
proof (induction c' n and c' name sq cu and c' sqs v kv and c' e and c' cus and c' ns
    rule: evaluateNode_evaluateCommandNode_evaluateSquareArgs_evaluateSquareEntry_evaluateCurlyArgs_evaluateNodes.induct)
  case (4 c' name sq cu)
  then show ?case
    using assms call_command_safe [of c']
    by (auto simp: evaluateCommandNode.simps intro!: evals.safe_intros ask_heap_safe)
qed (auto simp: evaluateTextNode_def intro!: evals.safe_intros split: option.splits list.splits)

lemma evaluateRootNode_shape:
  "evaluateRootNode c r s = Some (Inr (out, s')) \<Longrightarrow>
     \<exists>es. out = [Nd (ltrf_make ROOT_TAG_EVAL [] es)]"
  by (auto simp: evaluateRootNode_def eval_Inr_iffs split: ast_node.splits)

lemma evaluatePass_heap:
  assumes "user_code_returns u" and "heap_ok h" and "registry_ok reg (length h)"
  shows "case evaluatePass u reg h storage astRoot of
      None \<Rightarrow> False
    | Some (Inl e) \<Rightarrow> True
    | Some (Inr (out, s)) \<Rightarrow>
        (\<exists>es. out = Nd (ltrf_make (js ''__root'') [] es)) \<and> heap_ok (ev_heap s) \<and>
        length (ev_heap s) = Suc (length h) \<and> take (length h) (ev_heap s) = h"
proof (cases "makeEnvironmentWithStdCoreSetup u reg h storage")
  case (Inl e)
  then show ?thesis by (simp add: evaluatePass_def)
next
  case (Inr cs)
  obtain c s where cs: "cs = (c, s)" by fastforce
  note env = makeEnvironment_inv [OF assms(2,3) Inr [unfolded cs]]
  show ?thesis
  proof (cases astRoot)
    case (AstRootNode ns m)
    let ?s = "s\<lparr>ev_console := warnUserOfIssuesWithRootNode ns\<rparr>"
    have run: "evaluatePass u reg h storage astRoot = (case evaluateNodes c ns ?s of
          None \<Rightarrow> None
        | Some (Inl e) \<Rightarrow> Some (Inl e)
        | Some (Inr (es, s')) \<Rightarrow> Some (Inr (Nd (ltrf_make (js ''__root'') [] es), s')))"
      using Inr env by (simp add: evaluatePass_def cs AstRootNode evaluateRootNode_def
          act_bind_def act_simps ROOT_TAG_EVAL_def split: option.split sum.split)
    have safe: "evals.safe c (evaluateNodes c ns)" and inv: "heap_inv c (ev_heap ?s)"
      using evaluation_safe(6) [of c c ns] assms(1) env by simp_all
    have "take (length h) (ev_heap s') = h \<and> length (ev_heap s') = Suc (length h) \<and>
        heap_ok (ev_heap s')" if "evaluateNodes c ns ?s = Some (Inr (es, s'))" for es s'
      using evals.safe_rel [OF safe inv that] evals.safe_inv [OF safe inv that] env
      by (auto simp: eval_frame_def heap_frame_def heap_inv_def intro!: nth_equalityI)
        (metis nth_take)
    with evals.safe_returns [OF safe inv] show ?thesis
      by (auto simp: run split: option.split sum.split)
  qed (use Inr in \<open>simp_all add: evaluatePass_def cs evaluateRootNode_def act_simps act_bind_def\<close>)
qed

text \<open>
  C10: evaluating a file always returns or throws, when the code of users' modules does.  When it
  returns, the result is a single \<^verbatim>\<open>__root\<close> node, the store is well formed, and the
  namespaces that existed before are exactly as they were, the only new one being the root of
  the file.
\<close>

theorem evaluatePass_total:
  assumes "user_code_returns u" and "heap_ok h" and "registry_ok reg (length h)"
  shows "case evaluatePass u reg h storage astRoot of
      None \<Rightarrow> False
    | Some (Inl e) \<Rightarrow> True
    | Some (Inr (out, s)) \<Rightarrow>
        (\<exists>es. out = Nd (ltrf_make (js ''__root'') [] es)) \<and> heap_ok (ev_heap s) \<and>
        length (ev_heap s) = Suc (length h) \<and> take (length h) (ev_heap s) = h"
  using assms by (rule evaluatePass_heap)

text \<open>
  The check of \<^verbatim>\<open>evaluatePass\<close> that the root evaluates to a single object never fails:
  without it the function does the same.
\<close>

lemma evaluatePass_single:
  "evaluatePass u reg h storage (AstRootNode ns m) =
     (case makeEnvironmentWithStdCoreSetup u reg h storage of
        Inl e \<Rightarrow> Some (Inl e)
      | Inr (c, s) \<Rightarrow>
          (case evaluateNodes c ns
              (s\<lparr>ev_console := ev_console s @ warnUserOfIssuesWithRootNode ns\<rparr>) of
             None \<Rightarrow> None
           | Some (Inl e) \<Rightarrow> Some (Inl e)
           | Some (Inr (es, s')) \<Rightarrow> Some (Inr (Nd (LtrfNode (js ''__root'') [] es), s'))))"
  by (simp add: evaluatePass_def evaluateRootNode_def act_bind_def act_simps ROOT_TAG_EVAL_def
      ltrf_make_def split: option.split sum.split)

section \<open>Order of evaluation\<close>

lemma evaluateNodes_append:
  "evaluateNodes c (ms @ ns) =
     act_bind (evaluateNodes c ms) (\<lambda>x. act_bind (evaluateNodes c ns) (\<lambda>y. act_return (x @ y)))"
  by (induction ms) (simp_all add: act_bind_assoc)

text \<open>A use of a command without arguments.\<close>

definition bare :: "jstr \<Rightarrow> ast_meta \<Rightarrow> ast_node" where
  "bare name m = AstCommandNode name None [] m"

lemma getFileModuleStorage_Inr: "getFileModuleStorage st m = Inr s \<longleftrightarrow> jmap_get st m = Some s"
  by (auto simp: getFileModuleStorage_def split: option.splits)

section \<open>Literal arguments\<close>

fun literal :: "square_entry \<Rightarrow> cmd_square_arg option" where
  "literal (EntryNum n) = Some (SqNumber n)"
| "literal (EntryBool b) = Some (SqBoolean b)"
| "literal (EntryIdent s) = Some (SqObj (LtrfStr s))"
| "literal (EntryQuotedStr s) = Some (SqObj (LtrfStr s))"
| "literal (EntryAstNode _) = None"

text \<open>The positional and the keyword arguments that a list of literal arguments spells out.\<close>

fun positional :: "square_arg list \<Rightarrow> cmd_square_arg list" where
  "positional [] = []"
| "positional (ArgVal e # rest) = the (literal e) # positional rest"
| "positional (ArgKeyVal _ # rest) = positional rest"

fun keyword_pairs :: "square_arg list \<Rightarrow> (jstr \<times> cmd_square_arg) list" where
  "keyword_pairs [] = []"
| "keyword_pairs (ArgVal _ # rest) = keyword_pairs rest"
| "keyword_pairs (ArgKeyVal kv # rest) =
     (the (as_string (the (literal (kv ! 0)))), the (literal (kv ! 1))) # keyword_pairs rest"

fun literal_arg :: "square_arg \<Rightarrow> bool" where
  "literal_arg (ArgVal e) \<longleftrightarrow> literal e \<noteq> None"
| "literal_arg (ArgKeyVal [k, v]) \<longleftrightarrow> (\<exists>x. literal k = Some (SqObj (LtrfStr x))) \<and> literal v \<noteq> None"
| "literal_arg (ArgKeyVal _) = False"

lemma evaluate_literal: "literal e = Some x \<Longrightarrow> evaluateSquareEntry c e = act_return x"
  by (cases e) auto

lemma evaluate_literals:
  "list_all literal_arg args \<Longrightarrow> evaluateSquareArgs c args v kv =
     act_return (v @ positional args, foldl (\<lambda>m (k, x). jmap_set k x m) kv (keyword_pairs args))"
proof (induction args arbitrary: v kv)
  case (Cons arg args)
  show ?case
  proof (cases arg)
    case (ArgVal e)
    with Cons show ?thesis by (auto simp: evaluate_literal)
  next
    case (ArgKeyVal es)
    with Cons.prems obtain k e where es: "es = [k, e]"
      by (cases arg rule: literal_arg.cases) auto
    with Cons ArgKeyVal show ?thesis by (auto simp: evaluate_literal as_string_def)
  qed
qed simp

text \<open>
  Literal square arguments reach the command unchanged, positional ones in their order and
  keyword ones by name, where the last of several with the same name wins.
\<close>

lemma literal_arguments:
  assumes "list_all literal_arg args"
  shows "\<exists>kv. evaluateSquareArgs c args [] [] s = Some (Inr ((positional args, kv), s)) \<and>
    (\<forall>k. jmap_get kv k = map_of (rev (keyword_pairs args)) k)"
proof -
  have "jmap_get (foldl (\<lambda>m (k, x). jmap_set k x m) kv kxs) k =
      map_of (rev kxs @ kv) k" for kv :: "cmd_square_arg jmap" and kxs k
    by (induction kxs arbitrary: kv)
      (auto simp: jm.get_set map_add_def fun_upd_def split: option.splits)
  from this [of "[]" "keyword_pairs args"] evaluate_literals [OF assms, of c "[]" "[]"] show ?thesis
    by (simp add: act_simps)
qed

section \<open>Witnesses\<close>

definition sample_meta :: ast_meta where
  "sample_meta = \<lparr>startOffset = 0, startLine = 1, startCol = 1\<rparr>"

theorem evaluatePass_total_witness:
  "case evaluatePass sample_user sample_registry [sample_core_ns, sample_m_ns] []
      (AstRootNode [AstCommandNode (js ''__doc'') None [[]] sample_meta] sample_meta) of
     None \<Rightarrow> False
   | Some (Inl e) \<Rightarrow> True
   | Some (Inr (out, s)) \<Rightarrow>
       (\<exists>es. out = Nd (ltrf_make (js ''__root'') [] es)) \<and> heap_ok (ev_heap s) \<and>
       length (ev_heap s) = Suc (length [sample_core_ns, sample_m_ns]) \<and>
       take (length [sample_core_ns, sample_m_ns]) (ev_heap s) = [sample_core_ns, sample_m_ns]"
  by (rule evaluatePass_total)
    (use sample_user_returns sample_store_ok in \<open>simp_all add: numeral_2_eq_2\<close>)

definition main_store :: file_store where
  "main_store = \<lparr>store_moduleName = main_name, store_count = Some 0, store_title = Some [],
     store_author = Some [], store_rest = 0\<rparr>"

end
