(* ===== verification/Paths.thy ===== *)
theory Paths
  imports LapolPrelude
begin

text \<open>
  Paths (\<^verbatim>\<open>internal/laPath.ts\<close>, \<^verbatim>\<open>outFilePath\<close> of \<^verbatim>\<open>internal/utils.ts\<close>), the folder of
  the installation (\<^verbatim>\<open>internal/globalInit.ts\<close>) and the files that an output requires
  (\<^verbatim>\<open>internal/out/outRequirements/outRequirements.ts\<close>).
\<close>

section \<open>Path libraries\<close>

text \<open>
  What the program uses of node's module \<^verbatim>\<open>path\<close>; of a parsed path it reads \<^verbatim>\<open>dir\<close> and \<^verbatim>\<open>name\<close>.
  \<open>resolve\<close> depends on the working directory, which a run does not change.
\<close>

record parsed_path =
  parsed_dir :: jstr
  parsed_name :: jstr

record path_lib =
  lib_resolve :: "jstr \<Rightarrow> jstr"
  lib_parse :: "jstr \<Rightarrow> parsed_path"
  lib_normalize :: "jstr \<Rightarrow> jstr"
  lib_sep :: jstr

datatype path_kind = Windows | Posix

text \<open>The platform's own library and the two that node offers on every platform.\<close>

record path_libs =
  native_lib :: path_lib
  posix_lib :: path_lib
  win32_lib :: path_lib

definition getNodePathLib :: "path_libs \<Rightarrow> path_kind option \<Rightarrow> path_lib" where
  "getNodePathLib libs pathKind = (case pathKind of
       None \<Rightarrow> native_lib libs
     | Some Posix \<Rightarrow> posix_lib libs
     | Some Windows \<Rightarrow> win32_lib libs)"

section \<open>The library of POSIX systems\<close>

definition slash :: code_unit where
  "slash = 0x2F"

definition dot :: code_unit where
  "dot = 0x2E"

text \<open>\<^verbatim>\<open>split("/")\<close>, and the parts joined again.\<close>

fun split_slash :: "jstr \<Rightarrow> jstr \<Rightarrow> jstr list" where
  "split_slash [] acc = [acc]"
| "split_slash (c # s) acc =
     (if c = slash then acc # split_slash s [] else split_slash s (acc @ [c]))"

fun join_slash :: "jstr list \<Rightarrow> jstr" where
  "join_slash [] = []"
| "join_slash [s] = s"
| "join_slash (s # t # ts) = s @ slash # join_slash (t # ts)"

text \<open>
  \<open>climb\<close> tells whether \<^verbatim>\<open>..\<close> may climb above the start (\<^verbatim>\<open>allowAboveRoot\<close>); \<open>acc\<close> holds the
  parts so far in reverse.
\<close>

fun normalize_parts :: "bool \<Rightarrow> jstr list \<Rightarrow> jstr list \<Rightarrow> jstr list" where
  "normalize_parts climb [] acc = rev acc"
| "normalize_parts climb (p # ps) acc =
     (if p = [] \<or> p = [dot] then normalize_parts climb ps acc
      else if p = [dot, dot] then
        (case acc of
           q # acc' \<Rightarrow>
             if q \<noteq> [dot, dot] then normalize_parts climb ps acc'
             else normalize_parts climb ps ([dot, dot] # acc)
         | [] \<Rightarrow> normalize_parts climb ps (if climb then [[dot, dot]] else []))
      else normalize_parts climb ps (p # acc))"

definition normalizeString :: "bool \<Rightarrow> jstr \<Rightarrow> jstr" where
  "normalizeString climb s = join_slash (normalize_parts climb (split_slash s []) [])"

definition is_absolute :: "jstr \<Rightarrow> bool" where
  "is_absolute s \<longleftrightarrow> js_index s 0 = Some slash"

definition posix_normalize :: "jstr \<Rightarrow> jstr" where
  "posix_normalize s =
     (if s = [] then [dot]
      else
        let trailing = (last s = slash);
            n = normalizeString (\<not> is_absolute s) s
        in if n = [] then
             (if is_absolute s then [slash] else if trailing then [dot, slash] else [dot])
           else (if is_absolute s then [slash] else []) @ n @ (if trailing then [slash] else []))"

definition posix_resolve :: "jstr \<Rightarrow> jstr \<Rightarrow> jstr" where
  "posix_resolve cwd s =
     slash # normalizeString False (if is_absolute s then s else cwd @ slash # s)"

text \<open>\<^verbatim>\<open>parse\<close>: the last part without its extension, and what is before it.\<close>

definition base_name :: "jstr \<Rightarrow> jstr" where
  "base_name b =
     (let r = rev b; e = takeWhile (\<lambda>c. c \<noteq> dot) r; rest = dropWhile (\<lambda>c. c \<noteq> dot) r
      in if length rest \<le> 1 \<or> b = [dot, dot] then b else rev (tl rest))"

definition posix_parse :: "jstr \<Rightarrow> parsed_path" where
  "posix_parse s =
     (let t = dropWhile (\<lambda>c. c = slash) (rev s);
          base = rev (takeWhile (\<lambda>c. c \<noteq> slash) t);
          before = dropWhile (\<lambda>c. c \<noteq> slash) t
      in \<lparr>parsed_dir =
            (if length before \<le> 1 then (if is_absolute s then [slash] else [])
             else rev (tl before)),
          parsed_name = base_name base\<rparr>)"

definition posix :: "jstr \<Rightarrow> path_lib" where
  "posix cwd = \<lparr>lib_resolve = posix_resolve cwd, lib_parse = posix_parse,
     lib_normalize = posix_normalize, lib_sep = [slash]\<rparr>"

section \<open>LaPath\<close>

record la_path =
  lp_pathKind :: "path_kind option"
  lp_fullPath :: jstr
  lp_parsed :: parsed_path
  lp_sep :: jstr

definition new_LaPath :: "path_libs \<Rightarrow> jstr \<Rightarrow> path_kind option \<Rightarrow> la_path" where
  "new_LaPath libs path forcePathKind =
     (let np = getNodePathLib libs forcePathKind;
          full = lib_resolve np path
      in \<lparr>lp_pathKind = forcePathKind, lp_fullPath = full, lp_parsed = lib_parse np full,
          lp_sep = lib_sep np\<rparr>)"

definition outFilePath :: "path_libs \<Rightarrow> la_path \<Rightarrow> jstr \<Rightarrow> la_path" where
  "outFilePath libs inFilePath targetExt =
     (let p = lp_parsed inFilePath; sep = lp_sep inFilePath
      in new_LaPath libs (parsed_dir p @ sep @ js ''out'' @ sep @ parsed_name p @ js ''.'' @ targetExt)
           (lp_pathKind inFilePath))"

text \<open>The module-level variable of \<^verbatim>\<open>globalInit.ts\<close> is \<open>None\<close> until it is set.\<close>

definition setLapolFolder :: "la_path \<Rightarrow> la_path option \<Rightarrow> la_path option" where
  "setLapolFolder folder lapolFolder = Some folder"

definition getLapolFolder :: "la_path option \<Rightarrow> la_path result" where
  "getLapolFolder lapolFolder = (case lapolFolder of
       None \<Rightarrow> Inl (ModuleError LapolFolderNotConfigured)
     | Some f \<Rightarrow> Inr f)"

section \<open>Required files\<close>

type_synonym required_files = "la_path jmap"

definition requireFile :: "path_libs \<Rightarrow> required_files \<Rightarrow> la_path \<Rightarrow> jstr \<Rightarrow> required_files result" where
  "requireFile libs files input as =
     (let targetPath = lib_normalize (native_lib libs) as
      in case jmap_get files targetPath of
           None \<Rightarrow> Inr (jmap_set targetPath input files)
         | Some c \<Rightarrow>
             if lp_fullPath c \<noteq> lp_fullPath input
             then Inl (OutputError (RequirementInconsistent (lp_fullPath input) targetPath
                 (lp_fullPath c)))
             else Inr (jmap_set targetPath input files))"

definition require_all ::
  "path_libs \<Rightarrow> required_files \<Rightarrow> (la_path \<times> jstr) list \<Rightarrow> required_files result" where
  "require_all libs files reqs = foldR (\<lambda>fs (p, as). requireFile libs fs p as) files reqs"

text \<open>
  A sequence of requirements is consistent when equal targets come from equal sources.
\<close>

definition consistent :: "path_libs \<Rightarrow> (la_path \<times> jstr) list \<Rightarrow> bool" where
  "consistent libs reqs \<longleftrightarrow> (\<forall>(p, as) \<in> set reqs. \<forall>(q, bs) \<in> set reqs.
     lib_normalize (native_lib libs) as = lib_normalize (native_lib libs) bs \<longrightarrow>
     lp_fullPath p = lp_fullPath q)"

definition file_source :: "required_files \<Rightarrow> jstr \<Rightarrow> jstr option" where
  "file_source files tgt = map_option lp_fullPath (jmap_get files tgt)"

lemma requireFile_Inr:
  "requireFile libs fs p as = Inr fs' \<longleftrightarrow>
     (let t = lib_normalize (native_lib libs) as in
      (file_source fs t = None \<or> file_source fs t = Some (lp_fullPath p)) \<and>
      fs' = jmap_set t p fs)"
  by (auto simp: requireFile_def file_source_def Let_def split: option.splits if_splits)

lemma file_source_set:
  "file_source (jmap_set t p fs) t' = (if t' = t then Some (lp_fullPath p) else file_source fs t')"
  by (simp add: file_source_def jm.get_set)

lemma consistent_Cons:
  "consistent libs ((p, as) # reqs) \<longleftrightarrow> consistent libs reqs \<and> (\<forall>(q, bs) \<in> set reqs.
     lib_normalize (native_lib libs) bs = lib_normalize (native_lib libs) as \<longrightarrow>
     lp_fullPath q = lp_fullPath p)"
proof -
  have insert: "(\<forall>x \<in> insert a A. \<forall>y \<in> insert a A. n x = n y \<longrightarrow> f x = f y) \<longleftrightarrow>
      (\<forall>x \<in> A. \<forall>y \<in> A. n x = n y \<longrightarrow> f x = f y) \<and> (\<forall>y \<in> A. n y = n a \<longrightarrow> f y = f a)"
    for a A and n f :: "la_path \<times> jstr \<Rightarrow> jstr"
    by (auto dest!: sym [of "n a"])
  show ?thesis
    using insert [of "(p, as)" "set reqs" "\<lambda>x. lib_normalize (native_lib libs) (snd x)"
        "\<lambda>x. lp_fullPath (fst x)"]
    by (simp add: consistent_def split_beta)
qed

lemma require_all_Inr:
  "(\<exists>fs'. require_all libs fs reqs = Inr fs') \<longleftrightarrow>
     consistent libs reqs \<and> (\<forall>(p, as) \<in> set reqs.
       file_source fs (lib_normalize (native_lib libs) as) \<in> {None, Some (lp_fullPath p)})"
proof (induction reqs arbitrary: fs)
  case Nil
  then show ?case by (simp add: require_all_def consistent_def)
next
  case (Cons r reqs)
  obtain p as where r: "r = (p, as)" by (cases r)
  let ?t = "lib_normalize (native_lib libs) as"
  show ?case
  proof (cases "file_source fs ?t \<in> {None, Some (lp_fullPath p)}")
    case True
    then have "requireFile libs fs p as = Inr (jmap_set ?t p fs)"
      by (auto simp: requireFile_Inr Let_def)
    then have "(\<exists>fs'. require_all libs fs (r # reqs) = Inr fs') \<longleftrightarrow>
        (\<exists>fs'. require_all libs (jmap_set ?t p fs) reqs = Inr fs')"
      by (simp add: require_all_def r)
    also have "\<dots> \<longleftrightarrow> consistent libs reqs \<and> (\<forall>(q, bs) \<in> set reqs.
        file_source (jmap_set ?t p fs) (lib_normalize (native_lib libs) bs)
          \<in> {None, Some (lp_fullPath q)})"
      by (rule Cons.IH)
    also have "\<dots> \<longleftrightarrow> consistent libs reqs \<and> (\<forall>(q, bs) \<in> set reqs.
        (lib_normalize (native_lib libs) bs = ?t \<longrightarrow> lp_fullPath q = lp_fullPath p) \<and>
        file_source fs (lib_normalize (native_lib libs) bs) \<in> {None, Some (lp_fullPath q)})"
      using True by (intro conj_cong refl ball_cong) (auto simp: file_source_set)
    also have "\<dots> \<longleftrightarrow> consistent libs (r # reqs) \<and> (\<forall>(p, as) \<in> set (r # reqs).
       file_source fs (lib_normalize (native_lib libs) as) \<in> {None, Some (lp_fullPath p)})"
      using True by (auto simp: r consistent_Cons)
    finally show ?thesis .
  next
    case False
    then have "\<nexists>fs'. requireFile libs fs p as = Inr fs'"
      by (auto simp: requireFile_Inr Let_def)
    with False show ?thesis by (auto simp: require_all_def r bindR_eq_Inr_iff)
  qed
qed

lemma requireFile_error:
  "requireFile libs fs p as = Inl e \<Longrightarrow> \<exists>a b d. e = OutputError (RequirementInconsistent a b d)"
  by (auto simp: requireFile_def Let_def split: option.splits if_splits)

lemma require_all_error:
  "require_all libs fs reqs = Inl e \<Longrightarrow> \<exists>a b d. e = OutputError (RequirementInconsistent a b d)"
  by (induction reqs arbitrary: fs)
    (auto simp: require_all_def bindR_eq_Inl_iff dest: requireFile_error)

lemma require_all_source:
  "require_all libs fs reqs = Inr fs' \<Longrightarrow> file_source fs' t = Some src \<longleftrightarrow>
     file_source fs t = Some src \<or>
     (\<exists>(p, as) \<in> set reqs. lib_normalize (native_lib libs) as = t \<and> lp_fullPath p = src)"
proof (induction reqs arbitrary: fs)
  case (Cons r reqs)
  obtain p as where r: "r = (p, as)" by (cases r)
  let ?t = "lib_normalize (native_lib libs) as"
  from Cons.prems r have step: "requireFile libs fs p as = Inr (jmap_set ?t p fs)"
    and rest: "require_all libs (jmap_set ?t p fs) reqs = Inr fs'"
    by (auto simp: require_all_def bindR_eq_Inr_iff requireFile_Inr Let_def)
  from step have "file_source fs ?t = None \<or> file_source fs ?t = Some (lp_fullPath p)"
    by (simp add: requireFile_Inr Let_def)
  then show ?case
    using Cons.IH [OF rest] by (auto simp: r file_source_set)
qed (simp add: require_all_def)

text \<open>
  C34: a fresh receiver accepts a sequence of requirements exactly when no target is required
  from two different sources, and then it holds every required target with its source and
  nothing else.
\<close>

theorem required_files_correct:
  "case require_all libs [] reqs of
     Inl e \<Rightarrow> \<not> consistent libs reqs \<and>
       (\<exists>a b d. e = OutputError (RequirementInconsistent a b d))
   | Inr fs \<Rightarrow> consistent libs reqs \<and> (\<forall>t src. file_source fs t = Some src \<longleftrightarrow>
       (\<exists>(p, as) \<in> set reqs. lib_normalize (native_lib libs) as = t \<and> lp_fullPath p = src))"
proof (cases "require_all libs [] reqs")
  case (Inl e)
  then show ?thesis
    using require_all_Inr [of libs "[]" reqs] require_all_error [OF Inl]
    by (auto simp: file_source_def)
next
  case (Inr fs)
  then show ?thesis
    using require_all_Inr [of libs "[]" reqs] require_all_source [OF Inr]
    by (auto simp: file_source_def)
qed

section \<open>Where the output of a file goes\<close>

text \<open>A part of a normalised path.\<close>

definition plain_part :: "jstr \<Rightarrow> bool" where
  "plain_part p \<longleftrightarrow> p \<noteq> [] \<and> slash \<notin> set p \<and> p \<noteq> [dot] \<and> p \<noteq> [dot, dot]"

lemma split_slash_part: "slash \<notin> set p \<Longrightarrow> split_slash (p @ s) acc = split_slash s (acc @ p)"
  by (induction p arbitrary: acc) auto

lemma split_join_slash:
  "\<forall>p \<in> set (p0 # ps). slash \<notin> set p \<Longrightarrow> split_slash (join_slash (p0 # ps)) [] = p0 # ps"
proof (induction ps arbitrary: p0)
  case Nil
  then show ?case using split_slash_part [of p0 "[]" "[]"] by simp
next
  case (Cons q qs)
  then show ?case using split_slash_part [of p0 "slash # join_slash (q # qs)" "[]"] by simp
qed

lemma normalize_plain:
  "\<forall>p \<in> set ps. plain_part p \<Longrightarrow> normalize_parts climb ps acc = rev acc @ ps"
  by (induction ps arbitrary: acc) (auto simp: plain_part_def)

lemma resolve_plain:
  assumes "\<forall>p \<in> set ps. plain_part p"
  shows "posix_resolve cwd (slash # join_slash ps) = slash # join_slash ps"
    and "posix_resolve cwd (slash # slash # join_slash ps) = slash # join_slash ps"
proof -
  have split: "split_slash (join_slash ps) [] = (if ps = [] then [[]] else ps)"
    using assms split_join_slash [of "hd ps" "tl ps"] by (cases ps) (auto simp: plain_part_def)
  have "normalize_parts False ([] # (if ps = [] then [[]] else ps)) [] = ps"
    using normalize_plain [OF assms, of False "[]"] by simp
  then show "posix_resolve cwd (slash # join_slash ps) = slash # join_slash ps"
    and "posix_resolve cwd (slash # slash # join_slash ps) = slash # join_slash ps"
    by (simp_all add: posix_resolve_def is_absolute_def normalizeString_def split)
qed

lemma join_slash_snoc: "join_slash (ps @ [p]) = (if ps = [] then p else join_slash ps @ slash # p)"
  by (induction ps rule: join_slash.induct) (auto simp: neq_Nil_conv)

lemma parse_plain:
  assumes "plain_part b" and "\<forall>p \<in> set ds. plain_part p"
  shows "posix_parse (slash # join_slash (ds @ [b])) =
    \<lparr>parsed_dir = slash # join_slash ds, parsed_name = base_name b\<rparr>"
proof -
  have b: "rev b \<noteq> []" "\<forall>c \<in> set (rev b). c \<noteq> slash"
    using assms(1) by (auto simp: plain_part_def)
  then obtain c r where c: "rev b = c # r" "c \<noteq> slash" by (cases "rev b") auto
  obtain d where d: "slash # join_slash (ds @ [b]) = d @ slash # b"
    and d': "d = (if ds = [] then [] else slash # join_slash ds)"
    by (simp add: join_slash_snoc)
  have drop: "dropWhile (\<lambda>c. c = slash) (rev (d @ slash # b)) = rev b @ slash # rev d"
    using c by simp
  have take: "takeWhile (\<lambda>c. c \<noteq> slash) (rev b @ slash # rev d) = rev b"
    and rest: "dropWhile (\<lambda>c. c \<noteq> slash) (rev b @ slash # rev d) = slash # rev d"
    using b(2) by (subst takeWhile_append2, auto) (subst dropWhile_append2, auto)
  have "posix_parse (d @ slash # b) = \<lparr>parsed_dir =
      (if length (slash # rev d) \<le> 1 then (if is_absolute (d @ slash # b) then [slash] else [])
       else rev (tl (slash # rev d))), parsed_name = base_name (rev (rev b))\<rparr>"
    by (simp only: posix_parse_def Let_def drop take rest)
  then show ?thesis
    unfolding d using d' by (simp add: is_absolute_def)
qed

text \<open>
  The output of the file \<^verbatim>\<open>/d1/.../dn/name.x\<close> for a target with extension \<^verbatim>\<open>e\<close> is
  \<^verbatim>\<open>/d1/.../dn/out/name.e\<close>.
\<close>

lemma outFilePath_posix:
  assumes "native_lib libs = posix cwd" and "lp_pathKind f = None"
    and "f = new_LaPath libs (slash # join_slash (ds @ [b])) None"
    and "\<forall>p \<in> set (ds @ [b]). plain_part p" and "plain_part (base_name b @ js ''.'' @ ext)"
  shows "lp_fullPath (outFilePath libs f ext) =
    slash # join_slash (ds @ [js ''out'', base_name b @ js ''.'' @ ext])"
proof -
  have full: "lp_fullPath f = slash # join_slash (ds @ [b])" and sep: "lp_sep f = [slash]"
    and parsed: "lp_parsed f = \<lparr>parsed_dir = slash # join_slash ds, parsed_name = base_name b\<rparr>"
    using assms(1,3,4) resolve_plain(1) [of "ds @ [b]" cwd] parse_plain [of b ds]
    by (simp_all add: new_LaPath_def getNodePathLib_def posix_def Let_def)
  let ?ps = "ds @ [js ''out'', base_name b @ js ''.'' @ ext]"
  have plain: "\<forall>p \<in> set ?ps. plain_part p"
    using assms(4,5) by (auto simp: plain_part_def js_def slash_def dot_def)
  have join: "join_slash ?ps = (if ds = [] then [] else join_slash ds @ [slash]) @
      js ''out'' @ slash # base_name b @ js ''.'' @ ext"
    using join_slash_snoc [of "ds @ [js ''out'']" "base_name b @ js ''.'' @ ext"]
      join_slash_snoc [of ds "js ''out''"] by simp
  show ?thesis
    using resolve_plain [OF plain, of cwd] assms(1,2)
    by (cases "ds = []")
      (simp_all add: outFilePath_def new_LaPath_def getNodePathLib_def parsed sep posix_def join Let_def)
qed

text \<open>\<^verbatim>\<open>/docs/a.lap\<close> with the target \<^verbatim>\<open>html\<close>.\<close>

definition sample_libs :: path_libs where
  "sample_libs = \<lparr>native_lib = posix (js ''/''), posix_lib = posix (js ''/''),
     win32_lib = posix (js ''/'')\<rparr>"

end
