(* ===== verification/Dispatch.thy ===== *)
theory Dispatch
  imports Modules Paths
begin

text \<open>
  The context of an output pass (\<^verbatim>\<open>internal/out/common.ts\<close>) and the dispatcher, which finds for
  each node the function of a module that outputs it (\<^verbatim>\<open>internal/out/dispatcher.ts\<close>).
\<close>

section \<open>Context and state\<close>

text \<open>
  An \<^verbatim>\<open>Output\<close> is an object with the one field \<^verbatim>\<open>code\<close>, so it is that string.  The state of an
  output pass: the cache of the dispatcher, the required files and the module storage of the
  file.
\<close>

record out_state =
  os_lazyNodeOutputters :: "node_outputter jmap"
  os_files :: required_files
  os_storage :: module_storage

type_synonym 'a out = "(out_state, 'a) act"

text \<open>
  Outputters of users' modules, by reference; a node outputter is given the function that
  outputs a child.
\<close>

record user_outputters =
  user_string :: "nat \<Rightarrow> jstr \<Rightarrow> jstr out"
  user_plain_string :: "nat \<Rightarrow> jstr \<Rightarrow> jstr out"
  user_node :: "nat \<Rightarrow> (ltrf_obj \<Rightarrow> jstr out) \<Rightarrow> ltrf_node \<Rightarrow> jstr out"

text \<open>
  What an output pass reads: the registry, the target, the string outputter that the dispatcher
  found when it was made, the folder of the installation, the path libraries, and the function
  \<^verbatim>\<open>encode\<close> of the package \<^verbatim>\<open>he\<close> with the option \<^verbatim>\<open>strict\<close>, under which it may throw.
\<close>

record out_ctx =
  oc_registry :: registry
  oc_target :: jstr
  oc_strings :: string_provider
  oc_lapolFolder :: "la_path option"
  oc_paths :: path_libs
  oc_heEncode :: "jstr \<Rightarrow> jstr result"
  oc_user :: user_outputters

text \<open>No module of the user's outputs anything.\<close>

definition no_user_outputters :: user_outputters where
  "no_user_outputters = \<lparr>user_string = (\<lambda>_ _. act_throw TypeError),
     user_plain_string = (\<lambda>_ _. act_throw TypeError), user_node = (\<lambda>_ _ _. act_throw TypeError)\<rparr>"

definition out_getFileModuleStorage :: "jstr \<Rightarrow> file_store out" where
  "out_getFileModuleStorage modName =
     act_bind (act_get (\<lambda>s. getFileModuleStorage (os_storage s) modName)) (\<lambda>r. act_lift r)"

definition on_files :: "(required_files \<Rightarrow> required_files result) \<Rightarrow> unit out" where
  "on_files f = (\<lambda>s. Some (case f (os_files s) of
       Inl e \<Rightarrow> Inl e
     | Inr fs \<Rightarrow> Inr ((), s\<lparr>os_files := fs\<rparr>)))"

lemma on_files_Inr:
  "on_files f s = Some (Inr (u, s')) \<longleftrightarrow> (\<exists>fs. f (os_files s) = Inr fs \<and> s' = s\<lparr>os_files := fs\<rparr>)"
  by (auto simp: on_files_def split: sum.splits)

definition composeOutput :: "jstr list \<Rightarrow> jstr" where
  "composeOutput outs = concat outs"

section \<open>The dispatcher\<close>

text \<open>\<^verbatim>\<open>registry.modules.forEach\<close> with a \<^verbatim>\<open>push\<close> of what is defined.\<close>

definition found_in_modules :: "registry \<Rightarrow> (lapol_module \<Rightarrow> 'a option) \<Rightarrow> 'a list" where
  "found_in_modules reg f = drawer_forEach (\<lambda>v _ found. case f v of
       None \<Rightarrow> found
     | Some x \<Rightarrow> found @ [x]) (reg_modules reg) []"

lemma forEach_push:
  "drawer_forEach (\<lambda>v _ found. case f v of None \<Rightarrow> found | Some x \<Rightarrow> found @ [x]) d found =
     found @ List.map_filter (\<lambda>(k, v). f v) d"
  by (induction d arbitrary: found)
    (auto simp: drawer_forEach_def map_filter_simps split: option.split)

lemma found_in_modules_eq:
  "found_in_modules reg f = List.map_filter (\<lambda>(k, v). f v) (reg_modules reg)"
  by (simp add: found_in_modules_def forEach_push)

definition retreiveNodeOutputterForTag :: "registry \<Rightarrow> jstr \<Rightarrow> jstr \<Rightarrow> node_outputter result" where
  "retreiveNodeOutputterForTag reg targetLanguage tag =
     (let found = found_in_modules reg (\<lambda>v. getLtrfNodeOutputter_mod v targetLanguage tag)
      in if length found = 0 then Inl (OutputError (NoNodeOutputter targetLanguage tag))
         else if length found \<ge> 2 then Inl (OutputError (TooManyNodeOutputters targetLanguage tag))
         else Inr (found ! 0))"

definition retreiveStringOutputterProvider :: "registry \<Rightarrow> jstr \<Rightarrow> string_provider result" where
  "retreiveStringOutputterProvider reg targetLanguage =
     (let found = found_in_modules reg (\<lambda>v. getStringOutputterProvider v targetLanguage)
      in if length found = 0 then Inl (OutputError (NoStringOutputter targetLanguage))
         else if length found \<ge> 2 then Inl (OutputError (TooManyStringOutputters targetLanguage))
         else Inr (found ! 0))"

text \<open>
  \<^verbatim>\<open>makeOutputDispatcher\<close>, with the rest of the output context: the constructor looks for the
  string outputter, and the cache starts empty.
\<close>

definition makeOutputDispatcher ::
  "registry \<Rightarrow> jstr \<Rightarrow> (node_outputter jmap \<times> string_provider) result" where
  "makeOutputDispatcher reg targetLanguage =
     bindR (retreiveStringOutputterProvider reg targetLanguage) (\<lambda>p. Inr ([], p))"

definition getLtrfNodeOutputter :: "out_ctx \<Rightarrow> ltrf_node \<Rightarrow> node_outputter out" where
  "getLtrfNodeOutputter c n =
     act_bind (act_get (\<lambda>s. jmap_get (os_lazyNodeOutputters s) (node_tag n))) (\<lambda>cached.
     case cached of
       None \<Rightarrow>
         act_bind (act_lift (retreiveNodeOutputterForTag (oc_registry c) (oc_target c) (node_tag n)))
           (\<lambda>p. act_bind (act_update (\<lambda>s. s\<lparr>os_lazyNodeOutputters :=
                 jmap_set (node_tag n) p (os_lazyNodeOutputters s)\<rparr>)) (\<lambda>_. act_return p))
     | Some p \<Rightarrow> act_return p)"

lemma map_filter_Cons:
  "List.map_filter f (x # xs) = (case f x of None \<Rightarrow> [] | Some y \<Rightarrow> [y]) @ List.map_filter f xs"
  by (simp add: map_filter_simps split: option.split)

section \<open>The cache is transparent\<close>

text \<open>Every cached answer is the one that the modules give.\<close>

definition cache_ok :: "out_ctx \<Rightarrow> out_state \<Rightarrow> bool" where
  "cache_ok c s \<longleftrightarrow> (\<forall>(tag, p) \<in> set (os_lazyNodeOutputters s).
     retreiveNodeOutputterForTag (oc_registry c) (oc_target c) tag = Inr p)"

lemma cache_ok_get:
  "cache_ok c s \<Longrightarrow> jmap_get (os_lazyNodeOutputters s) tag = Some p \<Longrightarrow>
   retreiveNodeOutputterForTag (oc_registry c) (oc_target c) tag = Inr p"
  by (auto simp: cache_ok_def dest: map_of_SomeD)

lemma cache_ok_Nil [simp]: "os_lazyNodeOutputters s = [] \<Longrightarrow> cache_ok c s"
  by (simp add: cache_ok_def)

lemma cache_ok_set:
  assumes "cache_ok c s" and "retreiveNodeOutputterForTag (oc_registry c) (oc_target c) tag = Inr p"
  shows "cache_ok c (s\<lparr>os_lazyNodeOutputters := jmap_set tag p (os_lazyNodeOutputters s)\<rparr>)"
proof -
  have "set (jmap_set tag p m) \<subseteq> insert (tag, p) (set m)" for m :: "node_outputter jmap"
    by (induction m) auto
  with assms show ?thesis by (fastforce simp: cache_ok_def)
qed

lemma cache_ok_other [simp]:
  "cache_ok c (s\<lparr>os_files := fs\<rparr>) = cache_ok c s" "cache_ok c (s\<lparr>os_storage := st\<rparr>) = cache_ok c s"
  by (simp_all add: cache_ok_def)

lemma dispatch_answers:
  assumes "cache_ok c s"
  shows "case getLtrfNodeOutputter c n s of
      None \<Rightarrow> False
    | Some (Inl e) \<Rightarrow> retreiveNodeOutputterForTag (oc_registry c) (oc_target c) (node_tag n) = Inl e
    | Some (Inr (p, s')) \<Rightarrow>
        retreiveNodeOutputterForTag (oc_registry c) (oc_target c) (node_tag n) = Inr p \<and>
        cache_ok c s' \<and> os_files s' = os_files s \<and> os_storage s' = os_storage s"
proof (cases "jmap_get (os_lazyNodeOutputters s) (node_tag n)")
  case None
  then show ?thesis
    using cache_ok_set [OF assms]
    by (cases "retreiveNodeOutputterForTag (oc_registry c) (oc_target c) (node_tag n)")
      (simp_all add: getLtrfNodeOutputter_def act_bind_def act_simps)
next
  case (Some p)
  with cache_ok_get [OF assms Some] assms show ?thesis
    by (simp add: getLtrfNodeOutputter_def act_bind_def act_simps)
qed

text \<open>
  C31: the cache of the dispatcher cannot be observed: with a cache filled by the dispatcher
  itself the answer for a node is the one that the modules give for its tag, and the cache stays
  such a cache.
\<close>

theorem dispatch_cache_transparent:
  assumes "cache_ok c s"
  shows "case getLtrfNodeOutputter c n s of
      None \<Rightarrow> False
    | Some (Inl e) \<Rightarrow> retreiveNodeOutputterForTag (oc_registry c) (oc_target c) (node_tag n) = Inl e
    | Some (Inr (p, s')) \<Rightarrow>
        retreiveNodeOutputterForTag (oc_registry c) (oc_target c) (node_tag n) = Inr p \<and>
        cache_ok c s' \<and> os_files s' = os_files s \<and> os_storage s' = os_storage s"
  using assms by (rule dispatch_answers)

lemma dispatch_Inr:
  assumes "cache_ok c s" and "getLtrfNodeOutputter c n s = Some (Inr (p, s'))"
  shows "retreiveNodeOutputterForTag (oc_registry c) (oc_target c) (node_tag n) = Inr p"
    and "cache_ok c s'" and "os_files s' = os_files s" and "os_storage s' = os_storage s"
proof -
  have "retreiveNodeOutputterForTag (oc_registry c) (oc_target c) (node_tag n) = Inr p \<and>
      cache_ok c s' \<and> os_files s' = os_files s \<and> os_storage s' = os_storage s"
    using assms cache_ok_get [OF assms(1)] cache_ok_set [OF assms(1)]
    by (auto simp: getLtrfNodeOutputter_def act_Inr_iffs split: option.splits)
  then show "retreiveNodeOutputterForTag (oc_registry c) (oc_target c) (node_tag n) = Inr p"
    and "cache_ok c s'" and "os_files s' = os_files s" and "os_storage s' = os_storage s"
    by simp_all
qed

lemma dispatch_returns: "getLtrfNodeOutputter c n s \<noteq> None"
  by (auto simp: getLtrfNodeOutputter_def act_bind_def act_simps act_lift_def
      split: option.splits sum.splits)

text \<open>
  A tag is output exactly when one module of the registry, and only one, declares an
  outputter for it, and then by that one.
\<close>

lemma dispatch_unique_module:
  "retreiveNodeOutputterForTag reg target tag = Inr p \<longleftrightarrow>
     (\<exists>k m. filter (\<lambda>(k, m). getLtrfNodeOutputter_mod m target tag \<noteq> None) (reg_modules reg) = [(k, m)] \<and>
       getLtrfNodeOutputter_mod m target tag = Some p)"
proof -
  let ?f = "\<lambda>(k :: jstr, v). getLtrfNodeOutputter_mod v target tag"
  have found: "found_in_modules reg (\<lambda>v. getLtrfNodeOutputter_mod v target tag) =
      map (the \<circ> ?f) (filter (\<lambda>x. ?f x \<noteq> None) (reg_modules reg))"
    by (simp add: found_in_modules_eq List.map_filter_def)
  have same: "(\<lambda>(k, m). getLtrfNodeOutputter_mod m target tag \<noteq> None) = (\<lambda>x. ?f x \<noteq> None)"
    by (simp add: fun_eq_iff)
  have declares: "?f x \<noteq> None" if "filter (\<lambda>x. ?f x \<noteq> None) (reg_modules reg) = [x]" for x
    using that filter_set [of "\<lambda>x. ?f x \<noteq> None" "reg_modules reg"] by auto
  show ?thesis
    unfolding same
  proof (cases "filter (\<lambda>x. ?f x \<noteq> None) (reg_modules reg)" rule: remdups_adj.cases)
    case (2 x)
    then show "retreiveNodeOutputterForTag reg target tag = Inr p \<longleftrightarrow>
        (\<exists>k m. filter (\<lambda>x. ?f x \<noteq> None) (reg_modules reg) = [(k, m)] \<and>
          getLtrfNodeOutputter_mod m target tag = Some p)"
      using declares [OF 2]
      by (cases x) (simp add: retreiveNodeOutputterForTag_def found, auto)
  qed (simp_all add: retreiveNodeOutputterForTag_def found)
qed

end
