(* ===== verification/Output.thy ===== *)
theory Output
  imports Dispatch
begin

text \<open>
  The output pass (\<^verbatim>\<open>internal/out/out.ts\<close>) with the outputters of the standard modules
  (\<^verbatim>\<open>std/output\<close>, \<^verbatim>\<open>std/main_html_output.ts\<close>, \<^verbatim>\<open>std/main_latex_output.ts\<close>,
  \<^verbatim>\<open>std/core_html_output.ts\<close>, \<^verbatim>\<open>std/core_latex_output.ts\<close>).
\<close>

section \<open>Strings\<close>

definition backslash :: code_unit where
  "backslash = 0x5C"

text \<open>A literal that starts with a backslash.\<close>

definition tex :: "string \<Rightarrow> jstr" where
  "tex s = backslash # js s"

text \<open>
  The loop \<^verbatim>\<open>for (const c of s)\<close> runs over code points; those it treats specially are single
  code units, and the units of a surrogate pair are copied like any other.
\<close>

definition latex_escape_char :: "code_unit \<Rightarrow> jstr" where
  "latex_escape_char c =
     (if [c] \<in> {js ''&'', js ''%'', js ''$'', js ''#'', js ''_'', js ''{'', js ''}''}
      then [backslash, c]
      else if [c] = js ''~'' then tex ''textasciitilde{}''
      else if [c] = js ''^'' then tex ''textasciicircum{}''
      else if c = backslash then tex ''textbackslash{}''
      else [c])"

definition latex_string_default :: "jstr \<Rightarrow> jstr" where
  "latex_string_default s = foldl (\<lambda>out c. out @ latex_escape_char c) [] s"

definition html_string_default :: "out_ctx \<Rightarrow> jstr \<Rightarrow> jstr out" where
  "html_string_default c s = act_lift (oc_heEncode c s)"

definition string_default :: "out_ctx \<Rightarrow> string_provider \<Rightarrow> jstr \<Rightarrow> jstr out" where
  "string_default c p s = (case p of
       HtmlStringOutputter \<Rightarrow> html_string_default c s
     | LatexStringOutputter \<Rightarrow> act_return (latex_string_default s)
     | UserStringProvider i \<Rightarrow> user_string (oc_user c) i s)"

definition string_withoutEscape :: "out_ctx \<Rightarrow> string_provider \<Rightarrow> jstr \<Rightarrow> jstr out" where
  "string_withoutEscape c p s = (case p of
       HtmlStringOutputter \<Rightarrow> act_return s
     | LatexStringOutputter \<Rightarrow> act_return s
     | UserStringProvider i \<Rightarrow> user_plain_string (oc_user c) i s)"

text \<open>The dispatcher answers with a function of the string outputter that it holds.\<close>

definition getDefaultLtrfStrOutputter :: "out_ctx \<Rightarrow> jstr \<Rightarrow> jstr \<Rightarrow> jstr out" where
  "getDefaultLtrfStrOutputter c _ = string_default c (oc_strings c)"

definition getWithoutEscapeLtrfStrOutputter :: "out_ctx \<Rightarrow> jstr \<Rightarrow> jstr \<Rightarrow> jstr out" where
  "getWithoutEscapeLtrfStrOutputter c _ = string_withoutEscape c (oc_strings c)"

section \<open>Node outputters\<close>

text \<open>
  \<^verbatim>\<open>composeOutput(...es.map((v) => outputLtrfObj(ctx, v)))\<close>; \<open>rec\<close> stands for the recursive call.
\<close>

definition output_elems :: "(ltrf_obj \<Rightarrow> jstr out) \<Rightarrow> ltrf_obj list \<Rightarrow> jstr out" where
  "output_elems rec es = act_bind (act_map rec es) (\<lambda>outs. act_return (composeOutput outs))"

text \<open>A field of the storage of \<^verbatim>\<open>std::main\<close>; \<^verbatim>\<open>undefined.map\<close> is a type error.\<close>

abbreviation main_store_of :: "file_store out" where
  "main_store_of \<equiv> out_getFileModuleStorage main_name"

definition js_defined :: "'a option \<Rightarrow> 'a out" where
  "js_defined x = (case x of None \<Rightarrow> act_throw TypeError | Some y \<Rightarrow> act_return y)"

definition lapol_file :: "out_ctx \<Rightarrow> la_path \<Rightarrow> jstr \<Rightarrow> la_path" where
  "lapol_file c folder src = new_LaPath (oc_paths c) (lp_fullPath folder @ lp_sep folder @ src) None"

definition require_from_folder :: "out_ctx \<Rightarrow> (jstr \<times> jstr) list \<Rightarrow> unit out" where
  "require_from_folder c deps =
     act_bind (act_lift (getLapolFolder (oc_lapolFolder c))) (\<lambda>folder.
     on_files (\<lambda>fs. require_all (oc_paths c) fs
       (map (\<lambda>(src, tgt). (lapol_file c folder src, tgt)) deps)))"

definition HTML_DEFAULT_DEPS :: "(jstr \<times> jstr) list" where
  "HTML_DEFAULT_DEPS =
     [(js ''deps/hello-css/dist/all.css'', js ''./deps/hello-css-all.css''),
      (js ''deps-lapol/lapol-default.css'', js ''./deps/lapol-default.css''),
      (js ''deps/hello-css/fonts/LICENSE'', js ''./deps/fonts/LICENSE'')]"

definition DEFAULT_FONTS :: "jstr list" where
  "DEFAULT_FONTS =
     [js ''libre-baskerville.woff2'', js ''libre-baskerville-bold.woff2'',
      js ''libre-baskerville-italic.woff2'']"

definition html_root :: "out_ctx \<Rightarrow> (ltrf_obj \<Rightarrow> jstr out) \<Rightarrow> ltrf_node \<Rightarrow> jstr out" where
  "html_root c rec n =
     act_bind (require_from_folder c (HTML_DEFAULT_DEPS @
       map (\<lambda>font. (js ''deps/hello-css/fonts/'' @ font, js ''./deps/fonts/'' @ font)) DEFAULT_FONTS))
       (\<lambda>_.
     act_bind (output_elems rec (node_elems n)) (\<lambda>cs.
     act_return (
       js ''<html><head><meta charset=\"utf-8\">'' @
       js ''<link rel=\"stylesheet\" href=\"deps/hello-css-all.css\">'' @
       js ''<link rel=\"stylesheet\" href=\"deps/lapol-default.css\">'' @
       js ''</head><body><article class=\"page\">'' @ cs @ js ''</article></body></html>'')))"

text \<open>\<^verbatim>\<open>attributes.map(...).join(" ")\<close>.\<close>

fun join_space :: "jstr list \<Rightarrow> jstr" where
  "join_space [] = []"
| "join_space [s] = s"
| "join_space (s # t # ts) = s @ space @ join_space (t # ts)"

definition attr_entries :: "(jstr \<times> jstr) list \<Rightarrow> jstr" where
  "attr_entries attributes =
     join_space (map (\<lambda>(attr, val). attr @ js ''=\"'' @ val @ js ''\"'') attributes)"

definition html_tag ::
  "jstr \<Rightarrow> (jstr \<times> jstr) list \<Rightarrow> (ltrf_obj \<Rightarrow> jstr out) \<Rightarrow> ltrf_node \<Rightarrow> jstr out" where
  "html_tag htmlTag attributes rec n =
     (let attrEntries = attr_entries attributes in
      if length (node_elems n) = 0
      then act_return (js ''<'' @ htmlTag @ js '' '' @ attrEntries @ js ''/>'')
      else act_bind (output_elems rec (node_elems n)) (\<lambda>cs. act_return
        (js ''<'' @ htmlTag @ js '' '' @ attrEntries @ js ''>'' @ cs @
         js ''</'' @ htmlTag @ js ''>'')))"

text \<open>
  \<^verbatim>\<open>author === []\<close> compares references, and the array on the right has just been made: it is
  not any object that existed before.
\<close>

definition is_new_array :: "'a \<Rightarrow> bool" where
  "is_new_array author = False"

definition html_maketitle :: "(ltrf_obj \<Rightarrow> jstr out) \<Rightarrow> ltrf_node \<Rightarrow> jstr out" where
  "html_maketitle rec n =
     act_bind main_store_of (\<lambda>s.
     act_bind (js_defined (store_title s)) (\<lambda>title.
     act_bind (output_elems rec title) (\<lambda>titleOut.
     if is_new_array (store_author s)
     then act_return (js ''<h1 class=\"title\">'' @ titleOut @ js ''</h1>'')
     else
       act_bind (js_defined (store_author s)) (\<lambda>author.
       act_bind (output_elems rec author) (\<lambda>authorOut.
       act_return (
         js ''<header>'' @
         js ''<h1 class=\"title\">'' @ titleOut @ js ''</h1>'' @
         js ''<p class=\"subtitle\">'' @ authorOut @ js ''</p>'' @
         js ''</header>''))))))"

definition LATEX_DEFAULT_DEPS :: "(jstr \<times> jstr) list" where
  "LATEX_DEFAULT_DEPS =
     [(js ''deps-lapol/lapol_default_article.cls'', js ''./deps/lapol_default_article.cls''),
      (js ''deps-lapol/lapol_default.sty'', js ''./deps/lapol_default.sty'')]"

definition latex_root :: "out_ctx \<Rightarrow> (ltrf_obj \<Rightarrow> jstr out) \<Rightarrow> ltrf_node \<Rightarrow> jstr out" where
  "latex_root c rec n =
     act_bind (require_from_folder c LATEX_DEFAULT_DEPS) (\<lambda>_.
     act_bind (output_elems rec (node_elems n)) (\<lambda>cs.
     act_bind main_store_of (\<lambda>s.
     act_bind (js_defined (store_title s)) (\<lambda>title.
     act_bind (output_elems rec title) (\<lambda>titleOut.
     act_bind (js_defined (store_author s)) (\<lambda>author.
     act_bind (output_elems rec author) (\<lambda>authorOut.
     act_return (
       tex ''documentclass{deps/lapol_default_article}'' @ newline @
       tex ''usepackage{deps/lapol_default}'' @ newline @
       js ''% Debugging help:'' @ newline @
       js ''% Trick TeXstudio into loading the commands defined in this file.'' @ newline @
       tex ''begin{mcommenthack}'' @ newline @
       js ''  '' @ tex ''input{deps/lapol_default_article.cls}'' @ newline @
       js ''  '' @ tex ''input{deps/lapol_default.sty}'' @ newline @
       tex ''end{mcommenthack}'' @ newline @
       tex ''title{'' @ titleOut @ js ''}'' @
       tex ''author{'' @ authorOut @ js ''}'' @
       tex ''date{Compiled on '' @ tex ''today}'' @
       tex ''begin{document}'' @
       cs @
       tex ''end{document}''))))))))"

definition latex_para :: "(ltrf_obj \<Rightarrow> jstr out) \<Rightarrow> ltrf_node \<Rightarrow> jstr out" where
  "latex_para rec n =
     act_bind (output_elems rec (node_elems n)) (\<lambda>cs.
     act_return (newline @ newline @ cs @ newline @ newline))"

definition latex_no_curly :: "jstr \<Rightarrow> ltrf_node \<Rightarrow> jstr out" where
  "latex_no_curly command n = act_return (backslash # command @ js ''{}'')"

definition latex_single_curly :: "jstr \<Rightarrow> (ltrf_obj \<Rightarrow> jstr out) \<Rightarrow> ltrf_node \<Rightarrow> jstr out" where
  "latex_single_curly command rec n =
     act_bind (output_elems rec (node_elems n)) (\<lambda>cs.
     act_return (backslash # command @ js ''{'' @ cs @ js ''}''))"

definition latex_block :: "jstr \<Rightarrow> (ltrf_obj \<Rightarrow> jstr out) \<Rightarrow> ltrf_node \<Rightarrow> jstr out" where
  "latex_block blockName rec n =
     act_bind (output_elems rec (node_elems n)) (\<lambda>cs.
     act_return (tex ''begin{'' @ blockName @ js ''}'' @ cs @
       tex ''end{'' @ blockName @ js ''}''))"

text \<open>Calling the outputter that the dispatcher found.\<close>

fun run_outputter ::
  "out_ctx \<Rightarrow> (ltrf_obj \<Rightarrow> jstr out) \<Rightarrow> node_outputter \<Rightarrow> ltrf_node \<Rightarrow> jstr out" where
  "run_outputter c rec HtmlRootOutputter n = html_root c rec n"
| "run_outputter c rec (HtmlTagOutputter tag attrs) n = html_tag tag attrs rec n"
| "run_outputter c rec HtmlMaketitleOutputter n = html_maketitle rec n"
| "run_outputter c rec LatexRootOutputter n = latex_root c rec n"
| "run_outputter c rec LatexParaOutputter n = latex_para rec n"
| "run_outputter c rec (LatexNoCurlyCommandOutputter command) n = latex_no_curly command n"
| "run_outputter c rec (LatexSingleCurlyCommandOutputter command) n =
     latex_single_curly command rec n"
| "run_outputter c rec (LatexBlockOutputter blockName) n = latex_block blockName rec n"
| "run_outputter c rec (UserNodeOutputter i) n = user_node (oc_user c) i rec n"

section \<open>The output pass\<close>

text \<open>
  An outputter may call \<^verbatim>\<open>outputLtrfObj\<close> on any object, not only on the children of its node, so
  the recursion need not end.  The first argument bounds the depth of the calls; \<open>None\<close> is a run
  that goes deeper.
\<close>

fun outputLtrfObj :: "nat \<Rightarrow> out_ctx \<Rightarrow> ltrf_obj \<Rightarrow> jstr out" where
  "outputLtrfObj 0 c obj = (\<lambda>_. None)"
| "outputLtrfObj (Suc fuel) c (LtrfStr s) = getDefaultLtrfStrOutputter c s s"
| "outputLtrfObj (Suc fuel) c (Nd n) =
     act_bind (getLtrfNodeOutputter c n) (\<lambda>p. run_outputter c (outputLtrfObj fuel c) p n)"

definition outputPass :: "nat \<Rightarrow> out_ctx \<Rightarrow> ltrf_node \<Rightarrow> jstr out" where
  "outputPass fuel c rootNode = outputLtrfObj fuel c (Nd rootNode)"

section \<open>More depth never changes a result\<close>

text \<open>One computation extends another: it returns the same wherever the other returns.\<close>

definition act_le :: "('s, 'a) act \<Rightarrow> ('s, 'a) act \<Rightarrow> bool" where
  "act_le m m' \<longleftrightarrow> (\<forall>s r. m s = Some r \<longrightarrow> m' s = Some r)"

lemma act_le_refl: "act_le m m"
  by (simp add: act_le_def)

lemma act_le_None: "act_le (\<lambda>_. None) m"
  by (simp add: act_le_def)

lemma act_le_bind:
  assumes "act_le m m'" and "\<And>x. act_le (f x) (f' x)"
  shows "act_le (act_bind m f) (act_bind m' f')"
  unfolding act_le_def
proof (intro allI impI)
  fix s r assume "act_bind m f s = Some r"
  then show "act_bind m' f' s = Some r"
    using assms by (auto simp: act_bind_def act_le_def split: option.splits sum.splits)
qed

lemma act_le_map: "(\<And>x. x \<in> set xs \<Longrightarrow> act_le (f x) (g x)) \<Longrightarrow> act_le (act_map f xs) (act_map g xs)"
  by (induction xs) (auto intro!: act_le_bind act_le_refl)

lemmas act_le_intros = act_le_bind act_le_map act_le_refl

text \<open>
  What JavaScript code does with a function it calls: if the calls return, so does the code, with
  the same result whatever else the function does.
\<close>

definition user_monotone :: "out_ctx \<Rightarrow> bool" where
  "user_monotone c \<longleftrightarrow> (\<forall>i rec rec' n. (\<forall>x. act_le (rec x) (rec' x)) \<longrightarrow>
     act_le (user_node (oc_user c) i rec n) (user_node (oc_user c) i rec' n))"

lemma output_elems_le:
  "(\<And>x. act_le (rec x) (rec' x)) \<Longrightarrow> act_le (output_elems rec es) (output_elems rec' es)"
  unfolding output_elems_def by (intro act_le_intros)

lemma run_outputter_le:
  assumes "user_monotone c" and rec: "\<And>x. act_le (rec x) (rec' x)"
  shows "act_le (run_outputter c rec p n) (run_outputter c rec' p n)"
proof (cases p)
  case UserNodeOutputter
  with assms show ?thesis by (simp add: user_monotone_def)
qed (auto simp: html_root_def html_tag_def html_maketitle_def latex_root_def latex_para_def
    latex_no_curly_def latex_single_curly_def latex_block_def Let_def
    intro!: act_le_bind act_le_refl output_elems_le rec)

lemma fuel_step:
  assumes "user_monotone c"
  shows "act_le (outputLtrfObj fuel c x) (outputLtrfObj (Suc fuel) c x)"
proof (induction fuel arbitrary: x)
  case (Suc fuel)
  then show ?case
    by (cases x) (auto intro!: act_le_refl act_le_bind run_outputter_le [OF assms])
qed (simp add: act_le_None)

lemma fuel_more:
  "user_monotone c \<Longrightarrow> outputLtrfObj fuel c x s = Some r \<Longrightarrow> fuel \<le> fuel' \<Longrightarrow>
   outputLtrfObj fuel' c x s = Some r"
proof (induction "fuel' - fuel" arbitrary: fuel')
  case (Suc k)
  then have "outputLtrfObj (fuel' - 1) c x s = Some r" by simp
  with fuel_step [OF Suc.prems(1), of "fuel' - 1" x] Suc.hyps(2) show ?case
    by (cases fuel') (simp_all add: act_le_def)
qed simp

section \<open>When the output pass returns\<close>

text \<open>The outputters of the standard modules, and those that output the title and the author.\<close>

fun std_outputter :: "node_outputter \<Rightarrow> bool" where
  "std_outputter (UserNodeOutputter _) = False"
| "std_outputter _ = True"

fun std_strings :: "string_provider \<Rightarrow> bool" where
  "std_strings (UserStringProvider _) = False"
| "std_strings _ = True"

fun reads_title :: "node_outputter \<Rightarrow> bool" where
  "reads_title HtmlMaketitleOutputter = True"
| "reads_title LatexRootOutputter = True"
| "reads_title _ = False"

definition outputter_of :: "out_ctx \<Rightarrow> ltrf_node \<Rightarrow> node_outputter result" where
  "outputter_of c n = retreiveNodeOutputterForTag (oc_registry c) (oc_target c) (node_tag n)"

definition std_output :: "out_ctx \<Rightarrow> bool" where
  "std_output c \<longleftrightarrow> std_strings (oc_strings c) \<and>
     (\<forall>n p. outputter_of c n = Inr p \<longrightarrow> std_outputter p)"

definition title_free :: "out_ctx \<Rightarrow> ltrf_node \<Rightarrow> bool" where
  "title_free c n \<longleftrightarrow> (case outputter_of c n of Inl _ \<Rightarrow> True | Inr p \<Rightarrow> \<not> reads_title p)"

text \<open>The objects that stand in the title and in the author of a file.\<close>

definition title_elems :: "module_storage \<Rightarrow> ltrf_obj list" where
  "title_elems st = (case jmap_get st main_name of
       None \<Rightarrow> []
     | Some s \<Rightarrow> (case store_title s of None \<Rightarrow> [] | Some es \<Rightarrow> es) @
         (case store_author s of None \<Rightarrow> [] | Some es \<Rightarrow> es))"

text \<open>
  During an output pass the storage stays the same and files are only added to the required
  ones.
\<close>

definition files_grow :: "out_state \<Rightarrow> out_state \<Rightarrow> bool" where
  "files_grow s s' \<longleftrightarrow> (\<forall>t src. file_source (os_files s) t = Some src \<longrightarrow>
     file_source (os_files s') t = Some src)"

interpretation outs: effect_frame "\<lambda>s. cache_ok c s \<and> os_storage s = st" files_grow for c st
  by unfold_locales (auto simp: files_grow_def)

lemma dispatch_safe: "outs.safe c st (getLtrfNodeOutputter c n)"
  by (rule outs.safeI) (auto simp: dispatch_returns files_grow_def dest: dispatch_Inr)

lemma dispatch_yields: "outs.yields c st (\<lambda>p. outputter_of c n = Inr p) (getLtrfNodeOutputter c n)"
  by (rule outs.yieldsI) (auto simp: files_grow_def outputter_of_def dest: dispatch_Inr)

lemma require_safe: "outs.safe c st (require_from_folder c deps)"
  unfolding require_from_folder_def
proof (intro outs.safe_bind outs.safe_lift)
  fix folder
  let ?reqs = "map (\<lambda>(src, tgt). (lapol_file c folder src, tgt)) deps"
  show "outs.safe c st (on_files (\<lambda>fs. require_all (oc_paths c) fs ?reqs))"
    by (rule outs.safeI)
      (auto simp: on_files_def files_grow_def require_all_source split: sum.splits)
qed

lemma main_store_safe: "outs.safe c st main_store_of"
  by (simp add: out_getFileModuleStorage_def outs.safe_intros)

lemma main_store_yields: "outs.yields c st (\<lambda>s. jmap_get st main_name = Some s) main_store_of"
  unfolding out_getFileModuleStorage_def
  by (rule outs.yields_bind [where P = "\<lambda>r. r = getFileModuleStorage st main_name"])
    (auto simp: getFileModuleStorage_def intro!: outs.yields_get outs.yields_throw outs.yields_return
      split: option.splits)

lemma js_defined_safe: "outs.safe c st (js_defined x)"
  by (cases x) (simp_all add: js_defined_def outs.safe_intros)

lemma js_defined_yields: "outs.yields c st (\<lambda>y. x = Some y) (js_defined x)"
  by (cases x) (auto simp: js_defined_def intro!: outs.yields_return outs.yields_throw)

lemma output_elems_safe:
  "(\<And>x. x \<in> set es \<Longrightarrow> outs.safe c st (rec x)) \<Longrightarrow> outs.safe c st (output_elems rec es)"
  unfolding output_elems_def by (intro outs.safe_intros) auto

lemma string_safe: "std_strings p \<Longrightarrow> outs.safe c st (string_default c p s)"
  by (cases p) (auto simp: string_default_def html_string_default_def intro!: outs.safe_intros)

lemma title_elems_iff:
  "x \<in> set (title_elems st) \<longleftrightarrow> (\<exists>s es. jmap_get st main_name = Some s \<and>
     (store_title s = Some es \<or> store_author s = Some es) \<and> x \<in> set es)"
proof (cases "jmap_get st main_name")
  case (Some s)
  then show ?thesis
    by (cases "store_title s"; cases "store_author s") (auto simp: title_elems_def)
qed (simp add: title_elems_def)

lemma run_outputter_safe:
  assumes "std_outputter p" and elems: "\<And>x. x \<in> set (node_elems n) \<Longrightarrow> outs.safe c st (rec x)"
    and titles: "\<And>x. reads_title p \<Longrightarrow> x \<in> set (title_elems st) \<Longrightarrow> outs.safe c st (rec x)"
  shows "outs.safe c st (run_outputter c rec p n)"
proof -
  have es: "outs.safe c st (output_elems rec (node_elems n))"
    by (rule output_elems_safe) (rule elems)
  have title: "outs.safe c st (output_elems rec es)"
    if "reads_title p" "jmap_get st main_name = Some s" "store_title s = Some es \<or> store_author s = Some es"
    for s es
    by (rule output_elems_safe, rule titles [OF that(1)]) (use that in \<open>auto simp: title_elems_iff\<close>)
  show ?thesis
  proof (cases p)
    case HtmlMaketitleOutputter
    then show ?thesis
      by (auto simp: html_maketitle_def is_new_array_def
          intro!: outs.safe_bind_yields [OF main_store_safe main_store_yields]
            outs.safe_bind_yields [OF js_defined_safe js_defined_yields]
            outs.safe_bind [OF title] outs.safe_return)
  next
    case LatexRootOutputter
    then show ?thesis
      by (auto simp: latex_root_def
          intro!: outs.safe_bind [OF require_safe] outs.safe_bind [OF es]
            outs.safe_bind_yields [OF main_store_safe main_store_yields]
            outs.safe_bind_yields [OF js_defined_safe js_defined_yields]
            outs.safe_bind [OF title] outs.safe_return)
  qed (use assms(1) in \<open>auto simp: html_root_def html_tag_def latex_para_def latex_no_curly_def
      latex_single_curly_def latex_block_def Let_def
      intro!: outs.safe_bind [OF require_safe] outs.safe_bind [OF es] outs.safe_return\<close>)
qed

lemma elems_height_single [simp]:
  "elems_height [LtrfStr s] = 0" "elems_height [Nd n] = Suc (elems_height (node_elems n))"
  by (simp_all add: elems_height_def node_height_eq)

lemma elems_height_elem: "x \<in> set es \<Longrightarrow> elems_height [x] \<le> elems_height es"
  by (cases x) (use elems_height_mem in \<open>auto simp: node_height_eq\<close>)

lemma title_free_safe:
  assumes "std_output c"
  shows "elems_height [x] < fuel \<Longrightarrow> all_below (title_free c) [x] \<Longrightarrow>
    outs.safe c st (outputLtrfObj fuel c x)"
proof (induction fuel arbitrary: x)
  case (Suc fuel)
  show ?case
  proof (cases x)
    case (LtrfStr s)
    with assms show ?thesis
      by (simp add: getDefaultLtrfStrOutputter_def std_output_def string_safe)
  next
    case (Nd n)
    have elems: "outs.safe c st (outputLtrfObj fuel c y)" if "y \<in> set (node_elems n)" for y
    proof (rule Suc.IH)
      show "elems_height [y] < fuel"
        using Suc.prems(1) elems_height_elem [OF that] Nd by simp
      show "all_below (title_free c) [y]"
        using Suc.prems(2) that Nd by (auto simp: all_nodes_iff [of _ n] all_below_def list_all_iff)
    qed
    have "outs.safe c st (run_outputter c (outputLtrfObj fuel c) p n)" if "outputter_of c n = Inr p" for p
    proof (rule run_outputter_safe [OF _ elems])
      show "std_outputter p" using assms that by (auto simp: std_output_def)
      assume "reads_title p"
      with that Suc.prems(2) Nd show "outs.safe c st (outputLtrfObj fuel c y)" for y
        by (simp add: all_nodes_iff [of _ n] title_free_def)
    qed
    then show ?thesis
      by (auto simp: Nd intro!: outs.safe_bind_yields [OF dispatch_safe dispatch_yields])
  qed
qed simp

lemma output_safe:
  assumes "std_output c" and titles: "all_below (title_free c) (title_elems st)"
  shows "elems_height [x] + elems_height (title_elems st) + 1 < fuel \<Longrightarrow>
    outs.safe c st (outputLtrfObj fuel c x)"
proof (induction fuel arbitrary: x)
  case (Suc fuel)
  show ?case
  proof (cases x)
    case (LtrfStr s)
    with assms show ?thesis
      by (simp add: getDefaultLtrfStrOutputter_def std_output_def string_safe)
  next
    case (Nd n)
    have elems: "outs.safe c st (outputLtrfObj fuel c y)" if "y \<in> set (node_elems n)" for y
      by (rule Suc.IH) (use Suc.prems elems_height_elem [OF that] Nd in simp)
    have title: "outs.safe c st (outputLtrfObj fuel c y)" if "y \<in> set (title_elems st)" for y
    proof (rule title_free_safe [OF assms(1)])
      show "elems_height [y] < fuel"
        using Suc.prems elems_height_elem [OF that] Nd by simp
      show "all_below (title_free c) [y]"
        using titles that by (auto simp: all_below_def list_all_iff)
    qed
    have "outs.safe c st (run_outputter c (outputLtrfObj fuel c) p n)" if "outputter_of c n = Inr p" for p
      by (rule run_outputter_safe [OF _ elems title])
        (use assms(1) that in \<open>auto simp: std_output_def\<close>)
    then show ?thesis
      by (auto simp: Nd intro!: outs.safe_bind_yields [OF dispatch_safe dispatch_yields])
  qed
qed simp

text \<open>
  C14: with the standard outputters, the output pass of a file always ends, in a result or an
  error, if neither the title nor the author of the file contains a node that prints the title:
  call depths up to the heights of the tree and of the title together suffice, and any greater
  bound gives the same.
\<close>

theorem output_pass_ends:
  assumes "std_output c" and "user_monotone c" and "cache_ok c s"
    and "all_below (title_free c) (title_elems (os_storage s))"
  shows "\<exists>r. \<forall>fuel \<ge> node_height n + elems_height (title_elems (os_storage s)) + 2.
    outputPass fuel c n s = Some r"
proof -
  let ?b = "node_height n + elems_height (title_elems (os_storage s)) + 2"
  have "outs.safe c (os_storage s) (outputLtrfObj ?b c (Nd n))"
    by (rule output_safe [OF assms(1,4)]) (simp add: node_height_eq)
  then obtain r where "outputLtrfObj ?b c (Nd n) s = Some r"
    using outs.safe_returns [of c "os_storage s" "outputLtrfObj ?b c (Nd n)" s] assms(3) by auto
  with fuel_more [OF assms(2) this] show ?thesis by (auto simp: outputPass_def)
qed

end
