(* ===== verification/Loading.thy ===== *)
theory Loading
  imports Modules Paths
begin

text \<open>
  Loading modules: the loader object (\<^verbatim>\<open>internal/module/loader.ts\<close>), \<^verbatim>\<open>loadModule\<close>
  (\<^verbatim>\<open>internal/module/module.ts\<close>) with the promises it leaves behind, and the builder
  (\<^verbatim>\<open>internal/lapolCompiler.ts\<close>).
\<close>

section \<open>Module declarations\<close>

text \<open>
  A module is declared by a function that calls methods of the loader.  It is represented by the
  calls it makes, in their order; \<open>IfTarget\<close> is an \<^verbatim>\<open>if (l.hasTarget(...))\<close>, and \<open>LoaderThrows\<close>
  an exception of the function's own.  The function may be asynchronous: \<open>AwaitPromise\<close> is an
  \<^verbatim>\<open>await\<close> in it.
\<close>

datatype exported =
    ExFn js_fn
  | ExArray nat js_fn
  | ExCommand command
  | ExOther

text \<open>
  What may be given to \<^verbatim>\<open>exportCommands\<close>: an object with its own properties, \<^verbatim>\<open>null\<close> (whose \<^verbatim>\<open>typeof\<close> is
  \<^verbatim>\<open>object\<close> as well), or a value that is no object.
\<close>

datatype commands_value =
    CommandsObject "(jstr \<times> exported) list"
  | CommandsNull
  | CommandsNoObject

datatype loader_call =
    RequireName jstr
  | DeclareInstantiator file_store
  | ExportCommand jstr exported
  | ExportCommands commands_value
  | ExportAllCommandsFrom jstr
  | ExportLtrfNodeOutputter jstr jstr node_outputter
  | ExportStringOutputterProvider jstr string_provider
  | DeclareTarget jstr
  | DeclareSubModule jstr "loader_call list"
  | IfTarget jstr "loader_call list"
  | AwaitPromise
  | LoaderThrows nat

section \<open>The loader\<close>

datatype finalize_action =
    ActExportCommands commands_value
  | ActSubModule jstr "loader_call list"

record loader =
  ld_identifier :: jstr
  ld_commands :: "command jmap"
  ld_loadedSubModules :: sub_array
  ld_finalizeActions :: "finalize_action list"
  ld_instantiator :: "file_store option"
  ld_nodeOutputters :: "node_outputter jmap jmap"
  ld_stringProviders :: "string_provider jmap"

definition make_ModuleLoader :: "jstr \<Rightarrow> sub_array \<Rightarrow> loader" where
  "make_ModuleLoader identifier subs = \<lparr>ld_identifier = identifier, ld_commands = [],
     ld_loadedSubModules = subs, ld_finalizeActions = [], ld_instantiator = None,
     ld_nodeOutputters = [], ld_stringProviders = []\<rparr>"

definition requireName :: "loader \<Rightarrow> jstr \<Rightarrow> loader result" where
  "requireName l name =
     (if name \<noteq> ld_identifier l then Inl (ModuleError (ModuleNameMismatch (ld_identifier l) name))
      else Inr l)"

definition declareInstantiator :: "loader \<Rightarrow> file_store \<Rightarrow> loader result" where
  "declareInstantiator l instantiator =
     (if ld_instantiator l \<noteq> None then Inl (ModuleError InstantiatorRedefined)
      else Inr (l\<lparr>ld_instantiator := Some instantiator\<rparr>))"

definition set_command :: "loader \<Rightarrow> jstr \<Rightarrow> command \<Rightarrow> loader" where
  "set_command l name command = l\<lparr>ld_commands := jmap_set name command (ld_commands l)\<rparr>"

definition exportCommand :: "loader \<Rightarrow> jstr \<Rightarrow> exported \<Rightarrow> loader result" where
  "exportCommand l name command = (case command of
       ExFn f \<Rightarrow> bindR (fromJsFunction f name) (\<lambda>c. Inr (set_command l name c))
     | ExCommand c \<Rightarrow> Inr (set_command l name c)
     | _ \<Rightarrow> Inr l)"

text \<open>One round of the loop in the action that \<^verbatim>\<open>exportCommands\<close> enqueues.\<close>

definition export_property :: "loader \<Rightarrow> jstr \<times> exported \<Rightarrow> loader result" where
  "export_property l pv = (case pv of (prop, val) \<Rightarrow> case val of
       ExFn f \<Rightarrow> bindR (fromJsFunction f prop) (\<lambda>c. Inr (set_command l prop c))
     | ExArray len f \<Rightarrow>
         bindR (assertR (len = 2)) (\<lambda>_.
         bindR (fromJsFunction f prop) (\<lambda>c. Inr (set_command l prop c)))
     | ExCommand c \<Rightarrow> Inr (set_command l prop c)
     | ExOther \<Rightarrow> Inr l)"

text \<open>The action: the assertion, \<^verbatim>\<open>Object.getOwnPropertyNames\<close>, and the loop.\<close>

fun own_properties :: "commands_value \<Rightarrow> (jstr \<times> exported) list result" where
  "own_properties (CommandsObject props) = Inr props"
| "own_properties CommandsNull = Inl TypeError"
| "own_properties CommandsNoObject = Inl AssertionError"

definition export_properties :: "loader \<Rightarrow> commands_value \<Rightarrow> loader result" where
  "export_properties l commands = bindR (own_properties commands) (foldR export_property l)"

definition push_action :: "loader \<Rightarrow> finalize_action \<Rightarrow> loader" where
  "push_action l a = l\<lparr>ld_finalizeActions := ld_finalizeActions l @ [a]\<rparr>"

definition exportLtrfNodeOutputter ::
  "loader \<Rightarrow> jstr \<Rightarrow> jstr \<Rightarrow> node_outputter \<Rightarrow> loader result" where
  "exportLtrfNodeOutputter l targetLanguage tag outputter =
     (case jmap_get (ld_nodeOutputters l) targetLanguage of
        None \<Rightarrow> Inl (ModuleError (TargetNotDeclared targetLanguage (ld_identifier l)))
      | Some a \<Rightarrow> Inr (l\<lparr>ld_nodeOutputters :=
          jmap_set targetLanguage (jmap_set tag outputter a) (ld_nodeOutputters l)\<rparr>))"

definition exportStringOutputterProvider :: "loader \<Rightarrow> jstr \<Rightarrow> string_provider \<Rightarrow> loader" where
  "exportStringOutputterProvider l targetLanguage p =
     l\<lparr>ld_stringProviders := jmap_set targetLanguage p (ld_stringProviders l)\<rparr>"

definition declareTarget :: "loader \<Rightarrow> jstr \<Rightarrow> loader" where
  "declareTarget l target =
     (if jmap_has (ld_nodeOutputters l) target then l
      else l\<lparr>ld_nodeOutputters := jmap_set target [] (ld_nodeOutputters l)\<rparr>)"

definition hasTarget :: "registry \<Rightarrow> jstr \<Rightarrow> bool" where
  "hasTarget reg targetName \<longleftrightarrow> targetName \<in> set (reg_targetNames reg)"

text \<open>A method call on a loader.\<close>

fun run_call :: "loader \<Rightarrow> loader_call \<Rightarrow> loader result" where
  "run_call l (RequireName name) = requireName l name"
| "run_call l (DeclareInstantiator st) = declareInstantiator l st"
| "run_call l (ExportCommand name c) = exportCommand l name c"
| "run_call l (ExportCommands cs) = Inr (push_action l (ActExportCommands cs))"
| "run_call l (ExportAllCommandsFrom m) = Inl (ModuleError NotImplemented)"
| "run_call l (ExportLtrfNodeOutputter tgt tag p) = exportLtrfNodeOutputter l tgt tag p"
| "run_call l (ExportStringOutputterProvider tgt p) = Inr (exportStringOutputterProvider l tgt p)"
| "run_call l (DeclareTarget tgt) = Inr (declareTarget l tgt)"
| "run_call l (DeclareSubModule name calls) = Inr (push_action l (ActSubModule name calls))"
| "run_call l (LoaderThrows e) = Inl (UserError e)"
| "run_call l _ = Inr l"

text \<open>
  Running the declaring function, up to its end or its next \<^verbatim>\<open>await\<close>: the loader, and what is left
  to run, with the \<^verbatim>\<open>await\<close> first.
\<close>

fun run_calls :: "registry \<Rightarrow> loader \<Rightarrow> loader_call list \<Rightarrow> (loader \<times> loader_call list) result" where
  "run_calls reg l [] = Inr (l, [])"
| "run_calls reg l (c # cs) = (case c of
       AwaitPromise \<Rightarrow> Inr (l, c # cs)
     | IfTarget tgt calls \<Rightarrow>
         if hasTarget reg tgt then
           bindR (run_calls reg l calls) (\<lambda>(l', rest).
             if rest = [] then run_calls reg l' cs else Inr (l', rest @ cs))
         else run_calls reg l cs
     | _ \<Rightarrow> bindR (run_call l c) (\<lambda>l'. run_calls reg l' cs))"

section \<open>Promises\<close>

text \<open>
  \<^verbatim>\<open>loadModule\<close> runs the declaring function at once and awaits its result, so \<^verbatim>\<open>_finalize\<close> runs
  in a later microtask, and microtasks run first in, first out.  A task is a loader, what its
  asynchronous function has left to run, and the continuation; when nothing is left, the task is
  to finalize the loader.  The promise of a top-level
  module is kept by the builder.  The one of a submodule is awaited by the action that
  \<^verbatim>\<open>declareSubModule\<close> enqueued, but the promise of that action is dropped by \<^verbatim>\<open>_finalize\<close>: if the
  submodule fails, the rejection is unhandled.  \<open>ls_arrays\<close> holds the arrays of loaded
  submodules, one for each loader.  The pushes and the settling of promises take microtasks of
  their own, which touch neither the registry nor an array that is read later; they are done
  here together with the task that they follow.  So is the rejection of an asynchronous function
  that throws, one microtask early, which only matters for which of several rejections is the first.
\<close>

datatype continuation = TopLevel nat | SubOf sub_array jstr

type_synonym load_task = "loader \<times> loader_call list \<times> continuation"

record load_state =
  ls_registry :: registry
  ls_heap :: ns_heap
  ls_arrays :: "jstr list list"
  ls_tasks :: "load_task list"
  ls_settled :: "(nat \<times> jstr list result) list"
  ls_unhandled :: "js_error list"

definition complete :: "continuation \<Rightarrow> jstr list result \<Rightarrow> load_state \<Rightarrow> load_state" where
  "complete k r s = (case k of
       TopLevel i \<Rightarrow> s\<lparr>ls_settled := ls_settled s @ [(i, r)]\<rparr>
     | SubOf a name \<Rightarrow> (case r of
           Inl e \<Rightarrow> s\<lparr>ls_unhandled := ls_unhandled s @ [e]\<rparr>
         | Inr _ \<Rightarrow> s\<lparr>ls_arrays := (ls_arrays s)[a := ls_arrays s ! a @ [name]]\<rparr>))"

text \<open>\<^verbatim>\<open>loadModule\<close> up to its \<^verbatim>\<open>await\<close>.\<close>

definition start_loadModule ::
  "jstr \<Rightarrow> loader_call list \<Rightarrow> continuation \<Rightarrow> load_state \<Rightarrow> load_state" where
  "start_loadModule name calls k s =
     (let l = make_ModuleLoader name (length (ls_arrays s));
          s1 = s\<lparr>ls_arrays := ls_arrays s @ [[]]\<rparr>
      in case run_calls (ls_registry s) l calls of
           Inl e \<Rightarrow> complete k (Inl e) s1
         | Inr (l', rest) \<Rightarrow> s1\<lparr>ls_tasks := ls_tasks s1 @ [(l', rest, k)]\<rparr>)"

text \<open>
  \<^verbatim>\<open>_finalize\<close>.  Submodules that were started stay started if a later action throws, so the
  state is returned in every case.
\<close>

fun run_actions ::
  "loader \<Rightarrow> finalize_action list \<Rightarrow> load_state \<Rightarrow> loader result \<times> load_state" where
  "run_actions l [] s = (Inr l, s)"
| "run_actions l (ActExportCommands cs # as) s =
     (case export_properties l cs of
        Inl e \<Rightarrow> (Inl e, s)
      | Inr l' \<Rightarrow> run_actions l' as s)"
| "run_actions l (ActSubModule name calls # as) s =
     run_actions l as (start_loadModule name calls (SubOf (ld_loadedSubModules l) name) s)"

definition finalize_loader :: "loader \<Rightarrow> load_state \<Rightarrow> jstr list result \<times> load_state" where
  "finalize_loader l0 s0 =
     (case run_actions l0 (ld_finalizeActions l0) s0 of
        (Inl e, s) \<Rightarrow> (Inl e, s)
      | (Inr l, s) \<Rightarrow>
          (case ld_instantiator l of
             None \<Rightarrow> (Inl (ModuleError InstantiatorRequired), s)
           | Some inst \<Rightarrow>
               (case new_LapolModule (ld_commands l) (ld_identifier l) (ld_loadedSubModules l) inst
                   (ld_nodeOutputters l) (ld_stringProviders l) (ls_heap s) of
                  Inl e \<Rightarrow> (Inl e, s)
                | Inr (m, h) \<Rightarrow>
                    (let s' = s\<lparr>ls_heap := h\<rparr> in
                     case drawer_declare (reg_modules (ls_registry s')) (mod_identifier m) m of
                       Inl e \<Rightarrow> (Inl e, s')
                     | Inr ms \<Rightarrow>
                         (Inr ([mod_identifier m] @ (ls_arrays s' ! mod_loadedSubModules m)),
                          s'\<lparr>ls_registry := (ls_registry s')\<lparr>reg_modules := ms\<rparr>\<rparr>)))))"

text \<open>A task: the function goes on after its \<^verbatim>\<open>await\<close>, or the loader is finalized.\<close>

definition resume_loader :: "loader \<Rightarrow> loader_call list \<Rightarrow> continuation \<Rightarrow> load_state \<Rightarrow> load_state" where
  "resume_loader l rest k s =
     (case run_calls (ls_registry s) l (tl rest) of
        Inl e \<Rightarrow> complete k (Inl e) s
      | Inr (l', rest') \<Rightarrow> s\<lparr>ls_tasks := ls_tasks s @ [(l', rest', k)]\<rparr>)"

definition finalize_task :: "loader \<Rightarrow> continuation \<Rightarrow> load_state \<Rightarrow> load_state" where
  "finalize_task l k s = (case finalize_loader l s of (r, s') \<Rightarrow> complete k r s')"

definition run_task :: "load_task \<Rightarrow> load_state \<Rightarrow> load_state" where
  "run_task t s = (case t of (l, rest, k) \<Rightarrow>
     if rest = [] then finalize_task l k s else resume_loader l rest k s)"

fun action_weight :: "finalize_action \<Rightarrow> nat" where
  "action_weight (ActExportCommands _) = 0"
| "action_weight (ActSubModule _ calls) = Suc (size_list size calls)"

definition actions_weight :: "finalize_action list \<Rightarrow> nat" where
  "actions_weight as = sum_list (map action_weight as)"

definition loader_weight :: "loader \<Rightarrow> loader_call list \<Rightarrow> nat" where
  "loader_weight l rest = actions_weight (ld_finalizeActions l) + size_list size rest"

definition tasks_weight :: "load_task list \<Rightarrow> nat" where
  "tasks_weight ts = sum_list (map (\<lambda>(l, rest, k). Suc (loader_weight l rest)) ts)"

lemma tasks_weight_append [simp]: "tasks_weight (ts @ us) = tasks_weight ts + tasks_weight us"
  by (simp add: tasks_weight_def)

lemma complete_simps [simp]:
  "ls_tasks (complete k r s) = ls_tasks s" "ls_registry (complete k r s) = ls_registry s"
  "ls_heap (complete k r s) = ls_heap s"
  by (auto simp: complete_def split: continuation.splits sum.splits)

text \<open>The actions that a declaring function enqueues are parts of it.\<close>

lemma run_call_weight:
  "run_call l c = Inr l' \<Longrightarrow>
     actions_weight (ld_finalizeActions l') \<le> actions_weight (ld_finalizeActions l) + size c"
  by (cases c) (auto simp: requireName_def declareInstantiator_def exportCommand_def push_action_def
    set_command_def exportLtrfNodeOutputter_def exportStringOutputterProvider_def declareTarget_def
    actions_weight_def bindR_eq_Inr_iff split: if_splits exported.splits option.splits)

text \<open>Induction on the calls that are run.\<close>

lemma run_calls_rule [consumes 1, case_names finished await skipped ended suspended call]:
  assumes "run_calls reg l cs = Inr (l', rest)"
    and "\<And>l. P l [] l []"
    and "\<And>l cs. P l (AwaitPromise # cs) l (AwaitPromise # cs)"
    and "\<And>l tgt calls cs l' rest. P l cs l' rest \<Longrightarrow> P l (IfTarget tgt calls # cs) l' rest"
    and "\<And>l tgt calls cs l1 l' rest. P l calls l1 [] \<Longrightarrow> P l1 cs l' rest \<Longrightarrow>
      P l (IfTarget tgt calls # cs) l' rest"
    and "\<And>l tgt calls cs l' rest. P l calls l' rest \<Longrightarrow> rest \<noteq> [] \<Longrightarrow>
      P l (IfTarget tgt calls # cs) l' (rest @ cs)"
    and "\<And>l c cs l1 l' rest. run_call l c = Inr l1 \<Longrightarrow> P l1 cs l' rest \<Longrightarrow> P l (c # cs) l' rest"
  shows "P l cs l' rest"
  using assms(1)
proof (induction reg l cs arbitrary: l' rest rule: run_calls.induct)
  case (1 reg l)
  then show ?case using assms(2) by simp
next
  case (2 reg l c cs)
  show ?case
  proof (cases c)
    case (IfTarget tgt calls)
    show ?thesis
    proof (cases "hasTarget reg tgt")
      case True
      with "2.prems" IfTarget obtain l1 rest1 where calls: "run_calls reg l calls = Inr (l1, rest1)"
        and rest: "if rest1 = [] then run_calls reg l1 cs = Inr (l', rest) else l' = l1 \<and> rest = rest1 @ cs"
        by (auto simp: bindR_eq_Inr_iff split: if_splits)
      from "2.IH"(10) [OF IfTarget True calls] have first: "P l calls l1 rest1" .
      show ?thesis
      proof (cases "rest1 = []")
        case empty: True
        with rest calls "2.IH"(11) [OF IfTarget True, of "(l1, rest1)" l1 rest1] have "P l1 cs l' rest" by simp
        with first empty IfTarget show ?thesis by (simp add: assms(5))
      qed (use first rest IfTarget in \<open>simp add: assms(6)\<close>)
    qed (use 2 IfTarget in \<open>simp add: assms(4)\<close>)
  next
    case AwaitPromise
    with "2.prems" show ?thesis using assms(3) by auto
  qed (use 2 in \<open>auto simp: bindR_eq_Inr_iff intro: assms(7)\<close>)
qed

text \<open>What is left of a function starts with the \<^verbatim>\<open>await\<close> at which it stopped.\<close>

lemma run_calls_rest:
  "run_calls reg l cs = Inr (l', rest) \<Longrightarrow> rest \<noteq> [] \<Longrightarrow> hd rest = AwaitPromise"
  by (induction rule: run_calls_rule) auto

lemma run_calls_weight:
  "run_calls reg l cs = Inr (l', rest) \<Longrightarrow> loader_weight l' rest \<le> loader_weight l cs"
proof (induction rule: run_calls_rule)
  case (call l c cs l1 l' rest)
  with run_call_weight [OF call(1)] show ?case by (simp add: loader_weight_def)
qed (auto simp: loader_weight_def)

lemma start_weight:
  "tasks_weight (ls_tasks (start_loadModule name calls k s)) \<le>
     tasks_weight (ls_tasks s) + Suc (size_list size calls)"
proof (cases "run_calls (ls_registry s) (make_ModuleLoader name (length (ls_arrays s))) calls")
  case (Inr x)
  obtain l' rest where x: "x = (l', rest)" by fastforce
  from run_calls_weight [of "ls_registry s" "make_ModuleLoader name (length (ls_arrays s))" calls l' rest] Inr x
  show ?thesis
    by (simp add: start_loadModule_def tasks_weight_def make_ModuleLoader_def loader_weight_def actions_weight_def)
qed (simp add: start_loadModule_def)

lemma run_actions_weight:
  "tasks_weight (ls_tasks (snd (run_actions l as s))) \<le> tasks_weight (ls_tasks s) + actions_weight as"
proof (induction l as s rule: run_actions.induct)
  case (3 l name calls as s)
  then show ?case
    using start_weight [of name calls "SubOf (ld_loadedSubModules l) name" s]
    by (simp add: actions_weight_def)
qed (auto simp: actions_weight_def split: sum.splits)

lemma finalize_tasks:
  "ls_tasks (snd (finalize_loader l s)) = ls_tasks (snd (run_actions l (ld_finalizeActions l) s))"
  by (auto simp: finalize_loader_def Let_def split: prod.splits sum.splits option.splits)

lemma run_task_weight:
  "tasks_weight (ls_tasks (run_task t s)) < tasks_weight (ls_tasks s) + tasks_weight [t]"
proof -
  obtain l rest k where t: "t = (l, rest, k)" by (cases t)
  show ?thesis
  proof (cases rest)
    case Nil
    have "ls_tasks (finalize_task l k s) = ls_tasks (snd (run_actions l (ld_finalizeActions l) s))"
      by (simp add: finalize_task_def split: prod.split) (metis finalize_tasks snd_conv)
    with run_actions_weight [of l "ld_finalizeActions l" s] Nil t show ?thesis
      by (simp add: run_task_def tasks_weight_def loader_weight_def)
  next
    case (Cons c cs)
    show ?thesis
    proof (cases "run_calls (ls_registry s) l cs")
      case (Inr x)
      obtain l' rest' where x: "x = (l', rest')" by fastforce
      from run_calls_weight [of "ls_registry s" l cs l' rest'] Inr x Cons t show ?thesis
        by (simp add: run_task_def resume_loader_def tasks_weight_def loader_weight_def)
    qed (simp add: t Cons run_task_def resume_loader_def tasks_weight_def loader_weight_def)
  qed
qed

function run_tasks :: "load_state \<Rightarrow> load_state" where
  "run_tasks s = (case ls_tasks s of
       [] \<Rightarrow> s
     | t # ts \<Rightarrow> run_tasks (run_task t (s\<lparr>ls_tasks := ts\<rparr>)))"
  by pat_completeness auto
termination
proof (relation "measure (\<lambda>s. tasks_weight (ls_tasks s))")
  fix s :: load_state and t ts assume "ls_tasks s = t # ts"
  with run_task_weight [of t "s\<lparr>ls_tasks := ts\<rparr>"]
  show "(run_task t (s\<lparr>ls_tasks := ts\<rparr>), s) \<in> measure (\<lambda>s. tasks_weight (ls_tasks s))"
    by (simp add: tasks_weight_def)
qed simp

declare run_tasks.simps [simp del]

text \<open>
  \<open>run_tasks\<close> runs the tasks as microtasks, first in, first out: every promise that an asynchronous
  function awaits is settled already.  In general an \<^verbatim>\<open>await\<close> may wait for the outside world, and
  then any task may be the next.
\<close>

inductive load_step :: "load_state \<Rightarrow> load_state \<Rightarrow> bool" where
  load_stepI: "ls_tasks s = ts @ t # us \<Longrightarrow> load_step s (run_task t (s\<lparr>ls_tasks := ts @ us\<rparr>))"

inductive_cases load_stepE: "load_step s s'"

lemma load_step_weight: "load_step s s' \<Longrightarrow> tasks_weight (ls_tasks s') < tasks_weight (ls_tasks s)"
proof (erule load_stepE)
  fix ts t us assume "s' = run_task t (s\<lparr>ls_tasks := ts @ us\<rparr>)" and "ls_tasks s = ts @ t # us"
  with run_task_weight [of t "s\<lparr>ls_tasks := ts @ us\<rparr>"]
  show "tasks_weight (ls_tasks s') < tasks_weight (ls_tasks s)" by (simp add: tasks_weight_def)
qed

lemma run_tasks_steps: "load_step\<^sup>*\<^sup>* s (run_tasks s)"
proof (induction s rule: run_tasks.induct)
  case (1 s)
  show ?case
  proof (cases "ls_tasks s")
    case (Cons t ts)
    with load_stepI [of s "[]" t ts] 1 show ?thesis
      by (subst run_tasks.simps) (simp add: converse_rtranclp_into_rtranclp)
  qed (simp add: run_tasks.simps)
qed

section \<open>What loading establishes\<close>

text \<open>
  The registry holds modules under their own names, each name once, and their namespaces are
  in a well-formed store.
\<close>

definition modules_inv :: "load_state \<Rightarrow> bool" where
  "modules_inv s \<longleftrightarrow> heap_ok (ls_heap s) \<and>
     distinct (map fst (reg_modules (ls_registry s))) \<and>
     (\<forall>(k, m) \<in> set (reg_modules (ls_registry s)).
        mod_identifier m = k \<and> mod_namespace m < length (ls_heap s))"

text \<open>
  The array of a loader that has not been finalized is its own and still empty, and nobody will
  push to it before.  \<open>ps\<close> are the pending loaders' arrays with their continuations, \<open>X\<close> is the
  array of the loader that is being finalized, and \<open>K\<close> where its continuation will push.
\<close>

definition parent_arrays :: "continuation \<Rightarrow> sub_array set" where
  "parent_arrays k = (case k of TopLevel _ \<Rightarrow> {} | SubOf a _ \<Rightarrow> {a})"

definition arr_inv ::
  "sub_array set \<Rightarrow> sub_array set \<Rightarrow> jstr list list \<Rightarrow> (sub_array \<times> continuation) list \<Rightarrow> bool" where
  "arr_inv X K arrs ps \<longleftrightarrow> distinct (map fst ps) \<and> X \<inter> fst ` set ps = {} \<and>
     (\<forall>a \<in> fst ` set ps \<union> X. a < length arrs \<and> arrs ! a = []) \<and>
     (\<forall>a \<in> \<Union> (parent_arrays ` snd ` set ps) \<union> K. a < length arrs \<and> a \<notin> fst ` set ps)"

definition pending :: "load_task list \<Rightarrow> (sub_array \<times> continuation) list" where
  "pending ts = map (\<lambda>(l, rest, k). (ld_loadedSubModules l, k)) ts"

lemma pending_simps [simp]:
  "pending [] = []" "pending ((l, rest, k) # ts) = (ld_loadedSubModules l, k) # pending ts"
  "pending (ts @ us) = pending ts @ pending us"
  by (simp_all add: pending_def)

lemma arr_inv_grow: "arr_inv X K arrs ps \<Longrightarrow> arr_inv X K (arrs @ [[]]) ps"
  by (auto simp: arr_inv_def nth_append less_SucI)

lemma arr_inv_add:
  assumes "arr_inv X K arrs ps" and "parent_arrays k \<subseteq> X"
  shows "arr_inv X K (arrs @ [[]]) (ps @ [(length arrs, k)])"
proof -
  from arr_inv_grow [OF assms(1)] assms have "length arrs \<notin> fst ` set ps \<union> X"
    and "length arrs \<notin> \<Union> (parent_arrays ` snd ` set ps) \<union> K"
    and "\<forall>a \<in> X. a < length arrs \<and> a \<notin> fst ` set ps"
    by (auto simp: arr_inv_def)
  with arr_inv_grow [OF assms(1)] assms(2) show ?thesis
    unfolding arr_inv_def by (auto simp: subset_iff)
qed

lemma arr_inv_pop:
  "arr_inv {} {} arrs ((b, k) # ps) \<Longrightarrow> arr_inv {b} (parent_arrays k) arrs ps"
  by (auto simp: arr_inv_def)

lemma arr_inv_push:
  "arr_inv X K arrs ps \<Longrightarrow> a \<in> K \<Longrightarrow> arr_inv {} {} (arrs[a := v]) ps"
  unfolding arr_inv_def by (auto simp: nth_list_update)

lemma arr_inv_forget: "arr_inv X K arrs ps \<Longrightarrow> arr_inv {} {} arrs ps"
  by (auto simp: arr_inv_def)

definition arrays_inv :: "sub_array set \<Rightarrow> sub_array set \<Rightarrow> load_state \<Rightarrow> bool" where
  "arrays_inv X K s \<longleftrightarrow> arr_inv X K (ls_arrays s) (pending (ls_tasks s))"

text \<open>Every settled promise that was fulfilled holds the name of one module.\<close>

definition single_result :: "jstr list result \<Rightarrow> bool" where
  "single_result r \<longleftrightarrow> (case r of Inl _ \<Rightarrow> True | Inr ns \<Rightarrow> length ns = 1)"

definition settled_inv :: "load_state \<Rightarrow> bool" where
  "settled_inv s \<longleftrightarrow> (\<forall>(i, r) \<in> set (ls_settled s). single_result r)"

definition load_inv :: "load_state \<Rightarrow> bool" where
  "load_inv s \<longleftrightarrow> modules_inv s \<and> arrays_inv {} {} s \<and> settled_inv s"

definition same_loader :: "loader \<Rightarrow> loader \<Rightarrow> bool" where
  "same_loader l l' \<longleftrightarrow> ld_identifier l' = ld_identifier l \<and>
     ld_loadedSubModules l' = ld_loadedSubModules l"

lemma same_loader_trans: "same_loader l l1 \<Longrightarrow> same_loader l1 l2 \<Longrightarrow> same_loader l l2"
  by (simp add: same_loader_def)

lemma same_loader_ops [simp]:
  "same_loader l l" "same_loader l (set_command l n c)" "same_loader l (push_action l a)"
  "same_loader l (exportStringOutputterProvider l tgt p)" "same_loader l (declareTarget l tgt)"
  by (simp_all add: same_loader_def set_command_def push_action_def
      exportStringOutputterProvider_def declareTarget_def)

lemma same_loader_results:
  "requireName l n = Inr l' \<Longrightarrow> same_loader l l'"
  "declareInstantiator l st = Inr l' \<Longrightarrow> same_loader l l'"
  "exportLtrfNodeOutputter l tgt tag p = Inr l' \<Longrightarrow> same_loader l l'"
  by (auto simp: same_loader_def requireName_def declareInstantiator_def
      exportLtrfNodeOutputter_def split: if_splits option.splits)

lemma exportCommand_same: "exportCommand l n x = Inr l' \<Longrightarrow> same_loader l l'"
  by (cases x) (auto simp: exportCommand_def bindR_eq_Inr_iff)

lemma export_property_same: "export_property l pv = Inr l' \<Longrightarrow> same_loader l l'"
  by (cases pv; cases "snd pv") (auto simp: export_property_def bindR_eq_Inr_iff)

lemma run_call_keeps: "run_call l c = Inr l' \<Longrightarrow> same_loader l l'"
  by (cases c) (auto dest: same_loader_results exportCommand_same)

lemma run_calls_keeps: "run_calls reg l cs = Inr (l', rest) \<Longrightarrow> same_loader l l'"
  by (induction rule: run_calls_rule) (auto intro: same_loader_trans run_call_keeps)

lemma start_keeps [simp]:
  "ls_registry (start_loadModule name calls k s) = ls_registry s"
  "ls_heap (start_loadModule name calls k s) = ls_heap s"
  by (auto simp: start_loadModule_def Let_def split: sum.splits prod.splits)

lemma start_modules: "modules_inv s \<Longrightarrow> modules_inv (start_loadModule name calls k s)"
  by (simp add: modules_inv_def)

lemma complete_settled:
  "settled_inv s \<Longrightarrow> single_result r \<Longrightarrow> settled_inv (complete k r s)"
  by (auto simp: settled_inv_def complete_def split: continuation.splits sum.splits)

lemma settled_update [simp]:
  "settled_inv (s\<lparr>ls_arrays := a\<rparr>) = settled_inv s"
  "settled_inv (s\<lparr>ls_arrays := a, ls_tasks := ts\<rparr>) = settled_inv s"
  by (simp_all add: settled_inv_def)

lemma start_settled: "settled_inv s \<Longrightarrow> settled_inv (start_loadModule name calls k s)"
  by (cases "run_calls (ls_registry s) (make_ModuleLoader name (length (ls_arrays s))) calls")
    (auto simp: start_loadModule_def single_result_def intro: complete_settled)

lemma start_arrays:
  assumes "arrays_inv X K s" and "parent_arrays k \<subseteq> X"
  shows "arrays_inv X K (start_loadModule name calls k s)"
proof (cases "run_calls (ls_registry s) (make_ModuleLoader name (length (ls_arrays s))) calls")
  case (Inl e)
  have "ls_arrays (complete k (Inl e) u) = ls_arrays u" for u
    by (simp add: complete_def split: continuation.split)
  with Inl assms(1) show ?thesis
    by (simp add: start_loadModule_def arrays_inv_def arr_inv_grow)
next
  case (Inr x)
  obtain l rest where x: "x = (l, rest)" by fastforce
  with Inr have "same_loader (make_ModuleLoader name (length (ls_arrays s))) l"
    by (blast intro: run_calls_keeps)
  with Inr x assms show ?thesis
    by (simp add: start_loadModule_def arrays_inv_def make_ModuleLoader_def arr_inv_add same_loader_def)
qed

lemma export_loop_keeps:
  "foldR export_property l cs = Inr l' \<Longrightarrow> same_loader l l'"
proof (induction cs arbitrary: l)
  case (Cons c cs)
  then obtain l1 where "export_property l c = Inr l1" and "foldR export_property l1 cs = Inr l'"
    by (auto simp: bindR_eq_Inr_iff)
  with Cons.IH show ?case by (blast intro: same_loader_trans export_property_same)
qed simp

lemma export_properties_keep: "export_properties l v = Inr l' \<Longrightarrow> same_loader l l'"
  by (auto simp: export_properties_def bindR_eq_Inr_iff intro: export_loop_keeps)

lemma actions_inv:
  assumes "run_actions l as s = (r, s')"
    and "modules_inv s" and "settled_inv s" and "arrays_inv {ld_loadedSubModules l} K s"
  shows "modules_inv s' \<and> settled_inv s' \<and> arrays_inv {ld_loadedSubModules l} K s' \<and>
    (\<forall>l'. r = Inr l' \<longrightarrow> same_loader l l')"
  using assms
proof (induction l as s rule: run_actions.induct)
  case (2 l cs as s)
  show ?case
  proof (cases "export_properties l cs")
    case (Inl e)
    with 2 show ?thesis by auto
  next
    case (Inr l1)
    note keep = export_properties_keep [OF Inr]
    from "2.prems"(1) Inr have run: "run_actions l1 as s = (r, s')" by simp
    from keep have own: "ld_loadedSubModules l1 = ld_loadedSubModules l" by (simp add: same_loader_def)
    with "2.prems"(4) have "arrays_inv {ld_loadedSubModules l1} K s" by simp
    from "2.IH" [OF Inr run "2.prems"(2,3) this] own show ?thesis
      using keep by (auto intro: same_loader_trans)
  qed
next
  case (3 l name calls as s)
  from "3.prems"(1) have run: "run_actions l as
      (start_loadModule name calls (SubOf (ld_loadedSubModules l) name) s) = (r, s')"
    by simp
  show ?case
    by (rule "3.IH" [OF run])
      (use "3.prems" in \<open>simp_all add: start_modules start_settled start_arrays parent_arrays_def\<close>)
qed auto

lemma new_module_heap:
  assumes "new_LapolModule cmds ident subs inst outs provs h = Inr (m, h')" and "heap_ok h"
  shows "heap_ok h' \<and> length h' = Suc (length h) \<and> mod_namespace m = length h \<and>
    mod_identifier m = ident \<and> mod_loadedSubModules m = subs"
proof -
  let ?h1 = "snd (new_Namespace ident h)"
  from assms(1) have run: "foldR (\<lambda>h (n, c). addChildItem h (length h0) n c) ?h1 cmds = Inr h'"
    and m: "mod_namespace m = length h \<and> mod_identifier m = ident \<and> mod_loadedSubModules m = subs"
    if "h0 = h" for h0
    using that by (auto simp: new_LapolModule_def new_Namespace_def bindR_eq_Inr_iff)
  have "heap_ok ?h1" using new_ns.keeps_ok [OF assms(2) refl] .
  then have "heap_ok h'"
    by (rule foldR_invariant [OF run [OF refl]]) (metis add_child_item.keeps_ok split_beta)
  with m [OF refl] add_items_heap [OF run [OF refl]] show ?thesis by (simp add: new_Namespace_def)
qed

lemma heap_update_inv [simp]:
  "arrays_inv X K (s\<lparr>ls_heap := h\<rparr>) = arrays_inv X K s"
  "arrays_inv X K (s\<lparr>ls_registry := g\<rparr>) = arrays_inv X K s"
  "settled_inv (s\<lparr>ls_heap := h\<rparr>) = settled_inv s"
  "settled_inv (s\<lparr>ls_registry := g\<rparr>) = settled_inv s"
  by (simp_all add: arrays_inv_def settled_inv_def)

lemma modules_inv_heap:
  "modules_inv s \<Longrightarrow> heap_ok h \<Longrightarrow> length (ls_heap s) \<le> length h \<Longrightarrow> modules_inv (s\<lparr>ls_heap := h\<rparr>)"
  by (fastforce simp: modules_inv_def)

lemma modules_inv_declare:
  assumes "modules_inv s" and "drawer_declare (reg_modules (ls_registry s)) (mod_identifier m) m = Inr ms"
    and "mod_namespace m < length (ls_heap s)"
  shows "modules_inv (s\<lparr>ls_registry := (ls_registry s)\<lparr>reg_modules := ms\<rparr>\<rparr>)"
proof -
  from assms(2) have "ms = reg_modules (ls_registry s) @ [(mod_identifier m, m)]"
    and "mod_identifier m \<notin> set (map fst (reg_modules (ls_registry s)))"
    using jm.in_keys_iff [of "mod_identifier m" "reg_modules (ls_registry s)"]
    by (simp_all add: drawer_declare_Inr jmap_keys_def)
  with assms(1,3) show ?thesis by (auto simp: modules_inv_def)
qed

text \<open>The end of \<^verbatim>\<open>_finalize\<close>, after the actions.\<close>

lemma declare_module_inv:
  assumes "modules_inv s" and "settled_inv s" and "arrays_inv {ld_loadedSubModules l} K s"
    and "ld_instantiator l = Some inst"
    and "new_LapolModule (ld_commands l) (ld_identifier l) (ld_loadedSubModules l) inst
      (ld_nodeOutputters l) (ld_stringProviders l) (ls_heap s) = Inr (m, h)"
  shows "modules_inv (s\<lparr>ls_heap := h\<rparr>)"
    and "drawer_declare (reg_modules (ls_registry s)) (mod_identifier m) m = Inr ms \<Longrightarrow>
      modules_inv (s\<lparr>ls_heap := h, ls_registry := (ls_registry s)\<lparr>reg_modules := ms\<rparr>\<rparr>)"
    and "[mod_identifier m] @ (ls_arrays s ! mod_loadedSubModules m) = [ld_identifier l]"
proof -
  have "heap_ok (ls_heap s)" using assms(1) by (simp add: modules_inv_def)
  note m = new_module_heap [OF assms(5) this]
  then show inv: "modules_inv (s\<lparr>ls_heap := h\<rparr>)" using assms(1) by (simp add: modules_inv_heap)
  show "modules_inv (s\<lparr>ls_heap := h, ls_registry := (ls_registry s)\<lparr>reg_modules := ms\<rparr>\<rparr>)"
    if "drawer_declare (reg_modules (ls_registry s)) (mod_identifier m) m = Inr ms"
    using modules_inv_declare [OF inv, of m ms] m that by simp
  have "ls_arrays s ! ld_loadedSubModules l = []"
    using assms(3) by (simp add: arrays_inv_def arr_inv_def)
  with m show "[mod_identifier m] @ (ls_arrays s ! mod_loadedSubModules m) = [ld_identifier l]"
    by simp
qed

lemma finalize_inv:
  assumes "finalize_loader l s = (r, s')"
    and "modules_inv s" and "settled_inv s" and "arrays_inv {ld_loadedSubModules l} K s"
  shows "modules_inv s' \<and> settled_inv s' \<and> arrays_inv {ld_loadedSubModules l} K s' \<and>
    (\<forall>ns. r = Inr ns \<longrightarrow> ns = [ld_identifier l])"
proof -
  obtain r1 s1 where acts: "run_actions l (ld_finalizeActions l) s = (r1, s1)" by fastforce
  note inv = actions_inv [OF acts assms(2-4)]
  show ?thesis
  proof (cases r1)
    case (Inl e)
    with acts assms(1) inv show ?thesis by (auto simp: finalize_loader_def)
  next
    case l1: (Inr l1)
    with inv have own: "ld_loadedSubModules l1 = ld_loadedSubModules l"
      and id: "ld_identifier l1 = ld_identifier l"
      by (simp_all add: same_loader_def)
    show ?thesis
    proof (cases "ld_instantiator l1")
      case None
      with acts l1 assms(1) inv show ?thesis by (auto simp: finalize_loader_def)
    next
      case inst: (Some inst)
      let ?new = "new_LapolModule (ld_commands l1) (ld_identifier l1) (ld_loadedSubModules l1) inst
          (ld_nodeOutputters l1) (ld_stringProviders l1) (ls_heap s1)"
      show ?thesis
      proof (cases ?new)
        case (Inl e)
        with acts l1 inst assms(1) inv show ?thesis by (auto simp: finalize_loader_def)
      next
        case (Inr mh)
        then obtain m h where mh: "?new = Inr (m, h)" by (cases mh) simp
        have arr: "arrays_inv {ld_loadedSubModules l1} K s1" using inv own by simp
        note decl = declare_module_inv [OF _ _ arr inst mh]
        show ?thesis
        proof (cases "drawer_declare (reg_modules (ls_registry s1)) (mod_identifier m) m")
          case (Inl e)
          with acts l1 inst mh assms(1) have "r = Inl e \<and> s' = s1\<lparr>ls_heap := h\<rparr>"
            by (simp add: finalize_loader_def)
          with inv decl(1) show ?thesis by simp
        next
          case (Inr ms)
          with acts l1 inst mh assms(1)
          have "r = Inr ([mod_identifier m] @ (ls_arrays s1 ! mod_loadedSubModules m)) \<and>
              s' = s1\<lparr>ls_heap := h, ls_registry := (ls_registry s1)\<lparr>reg_modules := ms\<rparr>\<rparr>"
            by (simp add: finalize_loader_def)
          with inv decl(2) [OF _ _ Inr] decl(3) id show ?thesis by simp
        qed
      qed
    qed
  qed
qed

lemma complete_inv:
  assumes "modules_inv s" and "settled_inv s" and "single_result r"
    and "arrays_inv X (parent_arrays k) s"
  shows "load_inv (complete k r s)"
proof -
  have "arrays_inv {} {} (complete k r s)"
    using assms(4) arr_inv_push [of X "parent_arrays k"] arr_inv_forget [of X "parent_arrays k"]
    by (simp add: arrays_inv_def complete_def parent_arrays_def split: continuation.splits sum.splits)
  with assms(1,2,3) show ?thesis by (simp add: load_inv_def complete_settled modules_inv_def)
qed

lemma arr_inv_perm:
  "arr_inv X K arrs (ps @ p # qs) \<longleftrightarrow> arr_inv X K arrs (p # ps @ qs)"
  by (auto simp: arr_inv_def)

lemma task_inv:
  assumes "load_inv s" and tasks: "ls_tasks s = ts @ t # us"
  shows "load_inv (run_task t (s\<lparr>ls_tasks := ts @ us\<rparr>))"
proof -
  let ?s = "s\<lparr>ls_tasks := ts @ us\<rparr>"
  obtain l rest k where t: "t = (l, rest, k)" by (cases t)
  have inv: "modules_inv ?s" "settled_inv ?s"
    "arrays_inv {ld_loadedSubModules l} (parent_arrays k) ?s"
    using assms arr_inv_pop [of "ls_arrays s" "ld_loadedSubModules l" k "pending ts @ pending us"]
    by (simp_all add: t load_inv_def modules_inv_def settled_inv_def arrays_inv_def arr_inv_perm)
  show ?thesis
  proof (cases rest)
    case Nil
    obtain r s' where fin: "finalize_loader l ?s = (r, s')" by fastforce
    note inv' = finalize_inv [OF fin inv]
    then have "single_result r" by (cases r) (simp_all add: single_result_def)
    with inv' fin Nil complete_inv [of s' r "{ld_loadedSubModules l}" k] show ?thesis
      by (simp add: t run_task_def finalize_task_def)
  next
    case (Cons c cs)
    show ?thesis
    proof (cases "run_calls (ls_registry s) l cs")
      case (Inl e)
      with Cons inv complete_inv [of ?s "Inl e" "{ld_loadedSubModules l}" k] show ?thesis
        by (simp add: t run_task_def resume_loader_def single_result_def)
    next
      case (Inr x)
      obtain l' rest' where x: "x = (l', rest')" by fastforce
      with Inr have "ld_loadedSubModules l' = ld_loadedSubModules l"
        using run_calls_keeps [of "ls_registry s" l cs l' rest'] by (simp add: same_loader_def)
      with assms(1) inv(1,2) have "load_inv (?s\<lparr>ls_tasks := (ts @ us) @ [(l', rest', k)]\<rparr>)"
        using tasks by (auto simp: t load_inv_def modules_inv_def settled_inv_def arrays_inv_def arr_inv_def)
      with Cons Inr x show ?thesis by (simp add: t run_task_def resume_loader_def)
    qed
  qed
qed

lemma load_steps_inv: "load_step\<^sup>*\<^sup>* s s' \<Longrightarrow> load_inv s \<Longrightarrow> load_inv s'"
  by (induction rule: rtranclp_induct) (auto elim!: load_stepE intro: task_inv)

lemma run_tasks_empty: "ls_tasks (run_tasks s) = []"
  by (induction s rule: run_tasks.induct) (subst run_tasks.simps, simp split: list.split)

lemma run_tasks_inv: "load_inv s \<Longrightarrow> load_inv (run_tasks s) \<and> ls_tasks (run_tasks s) = []"
  by (intro conjI load_steps_inv [OF run_tasks_steps] run_tasks_empty)

lemma start_load_inv: "load_inv s \<Longrightarrow> load_inv (start_loadModule name calls (TopLevel i) s)"
  by (simp add: load_inv_def start_modules start_settled start_arrays parent_arrays_def)

end
