(* ===== verification/StdModules.thy ===== *)
theory StdModules
  imports Loading
begin

text \<open>
  The declarations of the standard modules (\<^verbatim>\<open>std/core.ts\<close>, \<^verbatim>\<open>std/main.ts\<close> and their output
  submodules), and the builder that loads them (\<^verbatim>\<open>internal/lapolCompiler.ts\<close>).
\<close>

section \<open>Standard modules\<close>

definition html :: jstr where
  "html = js ''html''"

definition latex :: jstr where
  "latex = js ''latex''"

definition core_html_mod :: "loader_call list" where
  "core_html_mod =
     [RequireName (js ''std::core::html_output''),
      DeclareInstantiator (plain_store (js ''std::core::html_output'')),
      DeclareTarget html,
      ExportLtrfNodeOutputter html (js ''__root'') HtmlRootOutputter,
      ExportLtrfNodeOutputter html (js ''__doc'') (HtmlTagOutputter (js ''div'') []),
      ExportLtrfNodeOutputter html (js ''__p'') (HtmlTagOutputter (js ''p'') [])]"

definition core_latex_mod :: "loader_call list" where
  "core_latex_mod =
     [RequireName (js ''std::core::latex_output''),
      DeclareInstantiator (plain_store (js ''std::core::latex_output'')),
      DeclareTarget latex,
      ExportLtrfNodeOutputter latex (js ''__root'') LatexRootOutputter,
      ExportLtrfNodeOutputter latex (js ''__doc'') LatexParaOutputter,
      ExportLtrfNodeOutputter latex (js ''__p'') LatexParaOutputter]"

definition core_commands :: "(jstr \<times> exported) list" where
  "core_commands =
     [(js ''__require'', ExCommand RequireCommand), (js ''__using'', ExCommand UsingCommand),
      (js ''__using_all'', ExCommand UsingAllCommand), (js ''__doc'', ExFn DocCommand)]"

definition core_mod :: "loader_call list" where
  "core_mod =
     [RequireName (js ''std::core''),
      DeclareInstantiator (plain_store (js ''std::core'')),
      ExportCommands (CommandsObject core_commands),
      IfTarget html [DeclareSubModule (js ''std::core::html_output'') core_html_mod],
      IfTarget latex [DeclareSubModule (js ''std::core::latex_output'') core_latex_mod]]"

definition main_html_mod :: "loader_call list" where
  "main_html_mod =
     [RequireName (js ''std::main::html_output''),
      DeclareInstantiator (plain_store (js ''std::main::html_output'')),
      DeclareTarget html,
      ExportStringOutputterProvider html HtmlStringOutputter,
      ExportLtrfNodeOutputter html (js ''maketitle'') HtmlMaketitleOutputter,
      ExportLtrfNodeOutputter html (js ''sec'') (HtmlTagOutputter (js ''h2'') []),
      ExportLtrfNodeOutputter html (js ''subsec'') (HtmlTagOutputter (js ''h3'') []),
      ExportLtrfNodeOutputter html (js ''subsubsec'') (HtmlTagOutputter (js ''h4'') []),
      ExportLtrfNodeOutputter html (js ''bold'') (HtmlTagOutputter (js ''b'') []),
      ExportLtrfNodeOutputter html (js ''italic'') (HtmlTagOutputter (js ''i'') []),
      ExportLtrfNodeOutputter html (js ''bquot'') (HtmlTagOutputter (js ''blockquote'') []),
      ExportLtrfNodeOutputter html (js ''marginnote'') (HtmlTagOutputter (js ''aside'') [])]"

definition main_latex_mod :: "loader_call list" where
  "main_latex_mod =
     [RequireName (js ''std::main::latex_output''),
      DeclareInstantiator (plain_store (js ''std::main::latex_output'')),
      DeclareTarget latex,
      ExportStringOutputterProvider latex LatexStringOutputter,
      ExportLtrfNodeOutputter latex (js ''maketitle'') (LatexNoCurlyCommandOutputter (js ''maketitle'')),
      ExportLtrfNodeOutputter latex (js ''sec'') (LatexSingleCurlyCommandOutputter (js ''section'')),
      ExportLtrfNodeOutputter latex (js ''subsec'')
        (LatexSingleCurlyCommandOutputter (js ''subsection'')),
      ExportLtrfNodeOutputter latex (js ''subsubsec'')
        (LatexSingleCurlyCommandOutputter (js ''subsubsection'')),
      ExportLtrfNodeOutputter latex (js ''bold'') (LatexSingleCurlyCommandOutputter (js ''textbf'')),
      ExportLtrfNodeOutputter latex (js ''italic'') (LatexSingleCurlyCommandOutputter (js ''textit'')),
      ExportLtrfNodeOutputter latex (js ''bquot'')
        (LatexBlockOutputter (js ''lapoldefaultblockquote'')),
      ExportLtrfNodeOutputter latex (js ''marginnote'')
        (LatexSingleCurlyCommandOutputter (js ''lapoldefaultaside''))]"

definition main_instance :: file_store where
  "main_instance = \<lparr>store_moduleName = main_name, store_count = Some 0, store_title = Some [],
     store_author = Some [], store_rest = 0\<rparr>"

definition main_mod :: "loader_call list" where
  "main_mod =
     [RequireName (js ''std::main''),
      DeclareInstantiator main_instance,
      ExportCommand (js ''count'') (ExFn CountFn),
      ExportCommand (js ''title'') (ExFn TitleFn),
      ExportCommand (js ''author'') (ExFn AuthorFn),
      ExportCommand (js ''maketitle'') (ExFn MaketitleFn),
      ExportCommand (js ''sec'') (ExFn (WrapInBlockCmd (js ''sec''))),
      ExportCommand (js ''subsec'') (ExFn (WrapInBlockCmd (js ''subsec''))),
      ExportCommand (js ''subsubsec'') (ExFn (WrapInBlockCmd (js ''subsubsec''))),
      ExportCommand (js ''bf'') (ExFn (WrapInCmd (js ''bold''))),
      ExportCommand (js ''it'') (ExFn (WrapInCmd (js ''italic''))),
      ExportCommand (js ''bquot'') (ExFn (WrapInBlockCmd (js ''bquot''))),
      ExportCommand (js ''marginnote'') (ExFn (WrapInCmd (js ''marginnote''))),
      IfTarget html [DeclareSubModule (js ''std::main::html_output'') main_html_mod],
      IfTarget latex [DeclareSubModule (js ''std::main::latex_output'') main_latex_mod]]"

section \<open>The builder\<close>

text \<open>
  A thunk is the module it will load.  The registry of the builder, with the promises that its
  earlier calls of \<^verbatim>\<open>build\<close> have left behind, is part of the state that \<^verbatim>\<open>build\<close> changes; the names
  of the targets are in the builder, where \<^verbatim>\<open>withTargets\<close> adds to them.
\<close>

record builder =
  b_thunks :: "(jstr \<times> loader_call list) list"
  b_targets :: "jstr list"
  b_outputFolder :: "la_path option"

record lapol_compiler =
  lc_registry :: registry
  lc_outputFolder :: la_path

definition withModule :: "jstr \<Rightarrow> loader_call list \<Rightarrow> builder \<Rightarrow> builder" where
  "withModule name m b = b\<lparr>b_thunks := b_thunks b @ [(name, m)]\<rparr>"

definition new_LapolCompilerBuilder :: builder where
  "new_LapolCompilerBuilder =
     withModule (js ''std::core'') core_mod \<lparr>b_thunks = [], b_targets = [], b_outputFolder = None\<rparr>"

definition withTargets :: "jstr list \<Rightarrow> builder \<Rightarrow> builder" where
  "withTargets targets b = b\<lparr>b_targets :=
     foldl (\<lambda>ts t. if t \<in> set ts then ts else ts @ [t]) (b_targets b) targets\<rparr>"

definition toFolder :: "la_path \<Rightarrow> builder \<Rightarrow> builder" where
  "toFolder folder b = b\<lparr>b_outputFolder := Some folder\<rparr>"

text \<open>\<^verbatim>\<open>Promise.all\<close> rejects with the rejection that comes first in time.\<close>

fun first_rejection :: "(nat \<times> 'a result) list \<Rightarrow> js_error option" where
  "first_rejection [] = None"
| "first_rejection ((_, Inl e) # rs) = Some e"
| "first_rejection ((_, Inr _) # rs) = first_rejection rs"

definition start_state :: "registry \<Rightarrow> ns_heap \<Rightarrow> load_state" where
  "start_state reg h = \<lparr>ls_registry = reg, ls_heap = h, ls_arrays = [], ls_tasks = [],
     ls_settled = [], ls_unhandled = []\<rparr>"

text \<open>
  The promise of a module goes to the end of \<^verbatim>\<open>_modules\<close>, after those of earlier calls, which have
  all settled.
\<close>

definition run_thunks :: "(jstr \<times> loader_call list) list \<Rightarrow> load_state \<Rightarrow> load_state" where
  "run_thunks thunks s =
     foldl (\<lambda>s (i, name, m). start_loadModule name m (TopLevel i) s) s
       (enumerate (length (ls_settled s)) thunks)"

text \<open>
  \<^verbatim>\<open>build\<close> does not look into the registry, which it passes on by reference.  A submodule of a
  submodule may still be on its way when its promise settles, but rendering reads the source
  file first and so waits for more than microtasks: what the compiler sees is the registry
  after all of them, and the state returned is that one.
\<close>

definition build_from :: "builder \<Rightarrow> load_state \<Rightarrow> lapol_compiler result \<times> load_state" where
  "build_from b s =
     (let s0 = s\<lparr>ls_registry := (ls_registry s)\<lparr>reg_targetNames := b_targets b\<rparr>\<rparr> in
      case b_outputFolder b of
        None \<Rightarrow> (Inl (ModuleError OutputFolderNotSet), s0)
      | Some folder \<Rightarrow>
          (let s1 = run_tasks (run_thunks (b_thunks b) s0) in
           (case first_rejection (ls_settled s1) of
              Some e \<Rightarrow> Inl e
            | None \<Rightarrow> Inr \<lparr>lc_registry = ls_registry s1, lc_outputFolder = folder\<rparr>, s1)))"

text \<open>The first call.\<close>

definition build :: "builder \<Rightarrow> ns_heap \<Rightarrow> lapol_compiler result \<times> load_state" where
  "build b h = build_from b (start_state new_LapolRegistry h)"

section \<open>What building establishes\<close>

lemma build_eq:
  "build b h =
     (let s0 = start_state (new_LapolRegistry\<lparr>reg_targetNames := b_targets b\<rparr>) h in
      case b_outputFolder b of
        None \<Rightarrow> (Inl (ModuleError OutputFolderNotSet), s0)
      | Some folder \<Rightarrow>
          (let s = run_tasks (run_thunks (b_thunks b) s0) in
           (case first_rejection (ls_settled s) of
              Some e \<Rightarrow> Inl e
            | None \<Rightarrow> Inr \<lparr>lc_registry = ls_registry s, lc_outputFolder = folder\<rparr>, s)))"
  by (simp add: build_def build_from_def start_state_def)

lemma start_state_inv: "heap_ok h \<Longrightarrow> load_inv (start_state (new_LapolRegistry\<lparr>reg_targetNames := ts\<rparr>) h)"
  by (simp add: start_state_def new_LapolRegistry_def load_inv_def modules_inv_def arrays_inv_def
      arr_inv_def settled_inv_def)

lemma run_thunks_inv: "load_inv s \<Longrightarrow> load_inv (run_thunks thunks s)"
proof -
  have "load_inv s \<Longrightarrow> load_inv (foldl (\<lambda>s (i, name, m). start_loadModule name m (TopLevel i) s) s xs)"
    for xs
    by (induction xs arbitrary: s) (auto simp: start_load_inv split: prod.splits)
  then show "load_inv s \<Longrightarrow> load_inv (run_thunks thunks s)" by (simp add: run_thunks_def)
qed

lemma build_inv:
  assumes "heap_ok h" and "build b h = (r, s)"
  shows "load_inv s \<and> ls_tasks s = []"
proof (cases "b_outputFolder b")
  case None
  with assms show ?thesis by (auto simp: build_eq start_state_inv) (simp add: start_state_def)
next
  case (Some f)
  with assms show ?thesis
    using run_tasks_inv [OF run_thunks_inv [OF start_state_inv [OF assms(1)]]]
    by (auto simp: build_eq Let_def)
qed

section \<open>What the standard modules are, once loaded\<close>

text \<open>
  A loaded module as a tuple: its name, its commands, the storage it instantiates, its node
  outputters and its string outputters.
\<close>

type_synonym module_spec =
  "jstr \<times> command jmap \<times> file_store \<times> node_outputter jmap jmap \<times> string_provider jmap"

definition fn_command :: "string \<Rightarrow> js_fn \<Rightarrow> jstr \<times> command" where
  "fn_command name f = (js name, JsFnCommand (js name) f)"

definition tag_outputter :: "string \<Rightarrow> string \<Rightarrow> jstr \<times> node_outputter" where
  "tag_outputter tag el = (js tag, HtmlTagOutputter (js el) [])"

definition tex_outputter :: "string \<Rightarrow> string \<Rightarrow> jstr \<times> node_outputter" where
  "tex_outputter tag cmd = (js tag, LatexSingleCurlyCommandOutputter (js cmd))"

definition core_spec :: module_spec where
  "core_spec = (js ''std::core'',
     [(js ''__require'', RequireCommand), (js ''__using'', UsingCommand),
      (js ''__using_all'', UsingAllCommand), fn_command ''__doc'' DocCommand],
     plain_store (js ''std::core''), [], [])"

definition main_spec :: module_spec where
  "main_spec = (js ''std::main'',
     [fn_command ''count'' CountFn, fn_command ''title'' TitleFn,
      fn_command ''author'' AuthorFn, fn_command ''maketitle'' MaketitleFn,
      fn_command ''sec'' (WrapInBlockCmd (js ''sec'')),
      fn_command ''subsec'' (WrapInBlockCmd (js ''subsec'')),
      fn_command ''subsubsec'' (WrapInBlockCmd (js ''subsubsec'')),
      fn_command ''bf'' (WrapInCmd (js ''bold'')), fn_command ''it'' (WrapInCmd (js ''italic'')),
      fn_command ''bquot'' (WrapInBlockCmd (js ''bquot'')),
      fn_command ''marginnote'' (WrapInCmd (js ''marginnote''))],
     main_instance, [], [])"

definition core_html_spec :: module_spec where
  "core_html_spec = (js ''std::core::html_output'', [], plain_store (js ''std::core::html_output''),
     [(html, [(js ''__root'', HtmlRootOutputter), tag_outputter ''__doc'' ''div'',
        tag_outputter ''__p'' ''p''])], [])"

definition core_latex_spec :: module_spec where
  "core_latex_spec = (js ''std::core::latex_output'', [], plain_store (js ''std::core::latex_output''),
     [(latex, [(js ''__root'', LatexRootOutputter), (js ''__doc'', LatexParaOutputter),
        (js ''__p'', LatexParaOutputter)])], [])"

definition main_html_spec :: module_spec where
  "main_html_spec = (js ''std::main::html_output'', [], plain_store (js ''std::main::html_output''),
     [(html, [(js ''maketitle'', HtmlMaketitleOutputter), tag_outputter ''sec'' ''h2'',
        tag_outputter ''subsec'' ''h3'', tag_outputter ''subsubsec'' ''h4'',
        tag_outputter ''bold'' ''b'', tag_outputter ''italic'' ''i'',
        tag_outputter ''bquot'' ''blockquote'', tag_outputter ''marginnote'' ''aside''])],
     [(html, HtmlStringOutputter)])"

definition main_latex_spec :: module_spec where
  "main_latex_spec = (js ''std::main::latex_output'', [], plain_store (js ''std::main::latex_output''),
     [(latex, [(js ''maketitle'', LatexNoCurlyCommandOutputter (js ''maketitle'')),
        tex_outputter ''sec'' ''section'', tex_outputter ''subsec'' ''subsection'',
        tex_outputter ''subsubsec'' ''subsubsection'', tex_outputter ''bold'' ''textbf'',
        tex_outputter ''italic'' ''textit'',
        (js ''bquot'', LatexBlockOutputter (js ''lapoldefaultblockquote'')),
        tex_outputter ''marginnote'' ''lapoldefaultaside''])],
     [(latex, LatexStringOutputter)])"

definition std_specs :: "jstr list \<Rightarrow> module_spec list" where
  "std_specs targets = [core_spec, main_spec] @
     (if html \<in> set targets then [core_html_spec] else []) @
     (if latex \<in> set targets then [core_latex_spec] else []) @
     (if html \<in> set targets then [main_html_spec] else []) @
     (if latex \<in> set targets then [main_latex_spec] else [])"

text \<open>The modules get the addresses of their namespaces and arrays in the order of loading.\<close>

fun spec_module :: "nat \<Rightarrow> module_spec \<Rightarrow> jstr \<times> lapol_module" where
  "spec_module a (name, cmds, st, outs, provs) = (name, \<lparr>mod_namespace = a, mod_identifier = name,
     mod_loadedSubModules = a, mod_instantiate = st, mod_nodeOutputters = outs,
     mod_stringProviders = provs\<rparr>)"

fun spec_namespace :: "module_spec \<Rightarrow> namespace" where
  "spec_namespace (name, cmds, st, outs, provs) = \<lparr>ns_name = name, ns_isRoot = False,
     ns_parent = None, ns_children = map (\<lambda>(n, c). (n, EntryItem c)) cmds\<rparr>"

fun spec_modules :: "nat \<Rightarrow> module_spec list \<Rightarrow> lapol_module jmap" where
  "spec_modules a [] = []"
| "spec_modules a (m # ms) = spec_module a m # spec_modules (Suc a) ms"

definition std_registry :: "jstr list \<Rightarrow> registry" where
  "std_registry targets =
     \<lparr>reg_targetNames = targets, reg_modules = spec_modules 0 (std_specs targets)\<rparr>"

definition std_heap :: "jstr list \<Rightarrow> ns_heap" where
  "std_heap targets = map spec_namespace (std_specs targets)"

text \<open>The loader that a standard module's function leaves behind.\<close>

fun spec_loader :: "module_spec \<Rightarrow> sub_array \<Rightarrow> finalize_action list \<Rightarrow> loader" where
  "spec_loader (name, cmds, st, outs, provs) a acts = \<lparr>ld_identifier = name, ld_commands = cmds,
     ld_loadedSubModules = a, ld_finalizeActions = acts, ld_instantiator = Some st,
     ld_nodeOutputters = outs, ld_stringProviders = provs\<rparr>"

lemmas loader_ops = make_ModuleLoader_def requireName_def declareInstantiator_def
  exportCommand_def push_action_def set_command_def fromJsFunction_def
  exportLtrfNodeOutputter_def exportStringOutputterProvider_def declareTarget_def jmap_has_def

definition sub_actions :: "registry \<Rightarrow> string \<Rightarrow> loader_call list \<Rightarrow> loader_call list \<Rightarrow> finalize_action list" where
  "sub_actions reg name hm lm =
     (if hasTarget reg html then [ActSubModule (js (name @ ''::html_output'')) hm] else []) @
     (if hasTarget reg latex then [ActSubModule (js (name @ ''::latex_output'')) lm] else [])"

lemma run_core: "run_calls reg (make_ModuleLoader (js ''std::core'') a) core_mod =
    Inr ((spec_loader core_spec a (ActExportCommands (CommandsObject core_commands) #
      sub_actions reg ''std::core'' core_html_mod core_latex_mod))\<lparr>ld_commands := []\<rparr>, [])"
  by (simp add: core_mod_def core_spec_def sub_actions_def loader_ops)

lemma run_main: "run_calls reg (make_ModuleLoader (js ''std::main'') a) main_mod =
    Inr (spec_loader main_spec a (sub_actions reg ''std::main'' main_html_mod main_latex_mod), [])"
  by (cases "hasTarget reg html"; cases "hasTarget reg latex")
    (simp_all add: main_mod_def main_spec_def sub_actions_def loader_ops fn_command_def)

lemma run_core_html: "run_calls reg (make_ModuleLoader (js ''std::core::html_output'') a) core_html_mod =
    Inr (spec_loader core_html_spec a [], [])"
  by (simp add: core_html_mod_def core_html_spec_def loader_ops tag_outputter_def)

lemma run_core_latex: "run_calls reg (make_ModuleLoader (js ''std::core::latex_output'') a) core_latex_mod =
    Inr (spec_loader core_latex_spec a [], [])"
  by (simp add: core_latex_mod_def core_latex_spec_def loader_ops)

lemma run_main_html: "run_calls reg (make_ModuleLoader (js ''std::main::html_output'') a) main_html_mod =
    Inr (spec_loader main_html_spec a [], [])"
  by (simp add: main_html_mod_def main_html_spec_def loader_ops tag_outputter_def)

lemma run_main_latex: "run_calls reg (make_ModuleLoader (js ''std::main::latex_output'') a) main_latex_mod =
    Inr (spec_loader main_latex_spec a [], [])"
  by (simp add: main_latex_mod_def main_latex_spec_def loader_ops tex_outputter_def)

lemmas run_std_modules = run_core run_main run_core_html run_core_latex run_main_html run_main_latex

text \<open>Starting and finalizing a module whose loader is known.\<close>

lemma start_known:
  assumes "run_calls (ls_registry s) (make_ModuleLoader name (length (ls_arrays s))) calls = Inr (l, rest)"
  shows "start_loadModule name calls k s =
    s\<lparr>ls_arrays := ls_arrays s @ [[]], ls_tasks := ls_tasks s @ [(l, rest, k)]\<rparr>"
  using assms by (simp add: start_loadModule_def)

definition declare_spec :: "module_spec \<Rightarrow> load_state \<Rightarrow> load_state" where
  "declare_spec spec s = s\<lparr>ls_heap := ls_heap s @ [spec_namespace spec],
     ls_registry := (ls_registry s)\<lparr>reg_modules :=
       reg_modules (ls_registry s) @ [spec_module (length (ls_heap s)) spec]\<rparr>\<rparr>"

definition good_spec :: "module_spec \<Rightarrow> bool" where
  "good_spec spec \<longleftrightarrow> distinct (map fst (fst (snd spec))) \<and>
     SUPER_IDENTIFIER \<notin> set (map fst (fst (snd spec)))"

lemma run_task_known:
  assumes "run_actions l (ld_finalizeActions l) s = (Inr (spec_loader spec a acts), s')"
    and "good_spec spec" and "fst spec \<notin> set (map fst (reg_modules (ls_registry s')))"
    and "length (ls_heap s') = a" and "ls_arrays s' ! a = []"
  shows "run_task (l, [], k) s = complete k (Inr [fst spec]) (declare_spec spec s')"
proof -
  obtain name cmds st outs provs where spec: "spec = (name, cmds, st, outs, provs)"
    by (cases spec) auto
  have new: "new_LapolModule cmds name a st outs provs (ls_heap s') =
      Inr (new_module cmds name a st outs provs (length (ls_heap s')), ls_heap s' @ [spec_namespace spec])"
    using assms(2) new_LapolModule_eq [of cmds name a st outs provs "ls_heap s'"]
    by (simp add: good_spec_def spec)
  have "drawer_declare (reg_modules (ls_registry s')) name m =
      Inr (reg_modules (ls_registry s') @ [(name, m)])" for m
    using assms(3) jm.in_keys_iff [of name "reg_modules (ls_registry s')"]
    by (simp add: drawer_declare_Inr jmap_keys_def spec)
  with assms(1,4,5) new show ?thesis
    by (simp add: run_task_def finalize_task_def finalize_loader_def spec new_module_def declare_spec_def Let_def)
qed

lemma good_std_specs:
  "good_spec core_spec" "good_spec main_spec" "good_spec core_html_spec" "good_spec core_latex_spec"
  "good_spec main_html_spec" "good_spec main_latex_spec"
  by (simp_all add: good_spec_def core_spec_def main_spec_def core_html_spec_def core_latex_spec_def
      main_html_spec_def main_latex_spec_def fn_command_def SUPER_IDENTIFIER_def)

lemma spec_names:
  "fst core_spec = js ''std::core''" "fst main_spec = js ''std::main''"
  "fst core_html_spec = js ''std::core::html_output''"
  "fst core_latex_spec = js ''std::core::latex_output''"
  "fst main_html_spec = js ''std::main::html_output''"
  "fst main_latex_spec = js ''std::main::latex_output''"
  by (simp_all add: core_spec_def main_spec_def core_html_spec_def core_latex_spec_def
      main_html_spec_def main_latex_spec_def)

lemma spec_module_fst [simp]: "fst (spec_module a spec) = fst spec"
  by (cases spec) simp

lemma spec_loader_sel [simp]:
  "ld_finalizeActions (spec_loader spec a acts) = acts"
  "ld_loadedSubModules (spec_loader spec a acts) = a"
  by (cases spec; simp)+

lemma export_core: "export_properties ((spec_loader core_spec a acts)\<lparr>ld_commands := []\<rparr>)
    (CommandsObject core_commands) = Inr (spec_loader core_spec a acts)"
  by (simp add: export_properties_def core_spec_def core_commands_def export_property_def set_command_def
      fromJsFunction_def fn_command_def)

definition is_sub :: "finalize_action \<Rightarrow> bool" where
  "is_sub a \<longleftrightarrow> (case a of ActSubModule _ _ \<Rightarrow> True | ActExportCommands _ \<Rightarrow> False)"

lemma is_sub_simps [simp]: "is_sub (ActSubModule n m)" "\<not> is_sub (ActExportCommands cs)"
  by (simp_all add: is_sub_def)

lemma run_sub_actions: "list_all is_sub as \<Longrightarrow> fst (run_actions l as s) = Inr l"
  by (induction l as s rule: run_actions.induct) auto

lemma run_task_spec:
  fixes spec a acts s
  defines "s' \<equiv> snd (run_actions (spec_loader spec a acts) acts s)"
  assumes "list_all is_sub acts" and "good_spec spec"
    and "fst spec \<notin> set (map fst (reg_modules (ls_registry s')))"
    and "length (ls_heap s') = a" and "ls_arrays s' ! a = []"
  shows "run_task (spec_loader spec a acts, [], k) s = complete k (Inr [fst spec]) (declare_spec spec s')"
  by (rule run_task_known [OF _ assms(3-6)])
    (use run_sub_actions [OF assms(2), of "spec_loader spec a acts" s] in
      \<open>simp add: s'_def prod_eq_iff\<close>)

lemma run_task_core:
  fixes a acts s
  defines "l \<equiv> spec_loader core_spec a (ActExportCommands (CommandsObject core_commands) # acts)"
  defines "s' \<equiv> snd (run_actions l acts s)"
  assumes "list_all is_sub acts" and "fst core_spec \<notin> set (map fst (reg_modules (ls_registry s')))"
    and "length (ls_heap s') = a" and "ls_arrays s' ! a = []"
  shows "run_task (l\<lparr>ld_commands := []\<rparr>, [], k) s =
    complete k (Inr [fst core_spec]) (declare_spec core_spec s')"
proof (rule run_task_known [OF _ good_std_specs(1) assms(4-6)])
  show "run_actions (l\<lparr>ld_commands := []\<rparr>) (ld_finalizeActions (l\<lparr>ld_commands := []\<rparr>)) s =
      (Inr (spec_loader core_spec a (ActExportCommands (CommandsObject core_commands) # acts)), s')"
    using run_sub_actions [OF assms(3), of l s]
    by (simp add: l_def s'_def export_core prod_eq_iff)
qed

lemmas start_std = start_known [OF run_core] start_known [OF run_main]
  start_known [OF run_core_html] start_known [OF run_core_latex]
  start_known [OF run_main_html] start_known [OF run_main_latex]

definition std_thunks :: "(jstr \<times> loader_call list) list" where
  "std_thunks = [(js ''std::core'', core_mod), (js ''std::main'', main_mod)]"

lemma std_load:
  "\<exists>s. run_tasks (run_thunks std_thunks
      (start_state (new_LapolRegistry\<lparr>reg_targetNames := ts\<rparr>) [])) = s \<and>
    ls_registry s = std_registry ts \<and> ls_heap s = std_heap ts \<and>
    ls_settled s = [(0, Inr [js ''std::core'']), (1, Inr [js ''std::main''])] \<and> ls_unhandled s = []"
proof -
  have enum: "enumerate 0 std_thunks = [(0, js ''std::core'', core_mod), (1, js ''std::main'', main_mod)]"
    by (simp add: std_thunks_def)
  have thunks: "run_thunks std_thunks (start_state (new_LapolRegistry\<lparr>reg_targetNames := ts\<rparr>) []) =
      \<lparr>ls_registry = \<lparr>reg_targetNames = ts, reg_modules = []\<rparr>, ls_heap = [], ls_arrays = [[], []],
       ls_tasks = [((spec_loader core_spec 0 (ActExportCommands (CommandsObject core_commands) #
           sub_actions \<lparr>reg_targetNames = ts, reg_modules = []\<rparr> ''std::core'' core_html_mod
             core_latex_mod))\<lparr>ld_commands := []\<rparr>, [], TopLevel 0),
         (spec_loader main_spec 1 (sub_actions \<lparr>reg_targetNames = ts, reg_modules = []\<rparr>
           ''std::main'' main_html_mod main_latex_mod), [], TopLevel 1)],
       ls_settled = [], ls_unhandled = []\<rparr>"
    by (simp add: run_thunks_def start_state_def new_LapolRegistry_def start_std enum)
  show ?thesis
    unfolding thunks
    by (cases "html \<in> set ts"; cases "latex \<in> set ts")
      (simp_all add: run_tasks.simps run_task_spec run_task_core sub_actions_def hasTarget_def
        start_std good_std_specs spec_names declare_spec_def complete_def std_registry_def
        std_heap_def std_specs_def)
qed

section \<open>Properties of the builder\<close>

text \<open>The builder as the command line program uses it.\<close>

definition std_builder :: "la_path \<Rightarrow> jstr list \<Rightarrow> builder" where
  "std_builder f ts =
     toFolder f (withTargets ts (withModule (js ''std::main'') main_mod new_LapolCompilerBuilder))"

lemma std_build:
  "\<exists>s. build (std_builder f ts) [] =
    (Inr \<lparr>lc_registry = std_registry (b_targets (withTargets ts new_LapolCompilerBuilder)),
       lc_outputFolder = f\<rparr>, s) \<and>
    ls_heap s = std_heap (b_targets (withTargets ts new_LapolCompilerBuilder)) \<and>
    ls_settled s = [(0, Inr [js ''std::core'']), (1, Inr [js ''std::main''])] \<and>
    ls_unhandled s = []"
proof -
  let ?b = "std_builder f ts"
  let ?ts = "b_targets (withTargets ts new_LapolCompilerBuilder)"
  have "b_thunks ?b = std_thunks" "b_outputFolder ?b = Some f" "b_targets ?b = ?ts"
    by (simp_all add: std_builder_def toFolder_def withTargets_def withModule_def
        new_LapolCompilerBuilder_def std_thunks_def)
  with std_load [of ?ts] show ?thesis by (auto simp: build_eq)
qed

text \<open>
  C26: loading the standard modules succeeds for every choice of targets, with no error lost,
  and leaves exactly the standard modules of the requested targets in the registry, with their
  namespaces, in the order of loading.
\<close>

theorem std_modules_load:
  "\<exists>s. build (std_builder f ts) [] =
    (Inr \<lparr>lc_registry = std_registry (b_targets (withTargets ts new_LapolCompilerBuilder)),
       lc_outputFolder = f\<rparr>, s) \<and>
    ls_heap s = std_heap (b_targets (withTargets ts new_LapolCompilerBuilder)) \<and>
    ls_unhandled s = []"
  using std_build by blast

text \<open>
  What \<^verbatim>\<open>build\<close> returns is consistent, whatever modules were given: the registry holds every
  module under its own name and no name twice, and the namespaces are in a well-formed store.
\<close>

lemma build_consistent:
  assumes "heap_ok h" and "build b h = (Inr cc, s)"
  shows "heap_ok (ls_heap s) \<and> registry_ok (lc_registry cc) (length (ls_heap s)) \<and>
    distinct (map fst (reg_modules (lc_registry cc))) \<and>
    list_all (\<lambda>(k, m). mod_identifier m = k) (reg_modules (lc_registry cc))"
proof -
  from assms(2) have "lc_registry cc = ls_registry s"
    by (auto simp: build_eq Let_def split: option.splits)
  with build_inv [OF assms] show ?thesis
    by (auto simp: load_inv_def modules_inv_def registry_ok_def list_all_iff)
qed

text \<open>
  Loading a module resolves to the name of that module alone.  The comment on \<^verbatim>\<open>_finalize\<close>
  promises its submodules too, but they are loaded by promises that nobody awaits, so none has
  been recorded when the list is made.
\<close>

lemma loaded_list_lacks_submodules:
  assumes "heap_ok h" and "build b h = (r, s)" and "(i, Inr names) \<in> set (ls_settled s)"
  shows "length names = 1"
  using build_inv [OF assms(1,2)] assms(3)
  by (force simp: load_inv_def settled_inv_def single_result_def)

definition broken_parent :: "jstr \<Rightarrow> nat \<Rightarrow> loader_call list" where
  "broken_parent sub e =
     [DeclareInstantiator (plain_store (js ''m'')), DeclareSubModule sub [LoaderThrows e]]"

lemma run_broken: "run_calls reg (make_ModuleLoader (js ''m'') a) (broken_parent sub e) =
    Inr (spec_loader (js ''m'', [], plain_store (js ''m''), [], []) a [ActSubModule sub [LoaderThrows e]], [])"
  by (simp add: broken_parent_def loader_ops)

lemma start_broken: "start_loadModule sub [LoaderThrows e] (SubOf b n) s =
    s\<lparr>ls_arrays := ls_arrays s @ [[]], ls_unhandled := ls_unhandled s @ [UserError e]\<rparr>"
  by (simp add: start_loadModule_def complete_def)

text \<open>
  A module whose submodule throws at once: \<^verbatim>\<open>build\<close> succeeds, the submodule is missing from the
  registry, and the error remains in a rejected promise that nobody handles.
\<close>

lemma broken_submodule_build:
  "\<exists>cc s. build (toFolder f (withModule (js ''m'') (broken_parent sub e) new_LapolCompilerBuilder)) [] =
      (Inr cc, s) \<and>
    map fst (reg_modules (lc_registry cc)) = [js ''std::core'', js ''m''] \<and>
    ls_unhandled s = [UserError e]"
proof -
  let ?reg = "\<lparr>reg_targetNames = [], reg_modules = []\<rparr>"
  have good: "good_spec (js ''m'', [], plain_store (js ''m''), [], [])"
    by (simp add: good_spec_def)
  have no_targets: "sub_actions ?reg n hm lm = []" for n hm lm
    by (simp add: sub_actions_def hasTarget_def)
  have thunks: "run_thunks [(js ''std::core'', core_mod), (js ''m'', broken_parent sub e)]
      (start_state ?reg []) =
      \<lparr>ls_registry = ?reg, ls_heap = [], ls_arrays = [[], []],
       ls_tasks = [((spec_loader core_spec 0 [ActExportCommands (CommandsObject core_commands)])\<lparr>ld_commands := []\<rparr>,
           [], TopLevel 0),
         (spec_loader (js ''m'', [], plain_store (js ''m''), [], []) 1
           [ActSubModule sub [LoaderThrows e]], [], TopLevel 1)],
       ls_settled = [], ls_unhandled = []\<rparr>"
    by (simp add: run_thunks_def start_state_def start_std start_known [OF run_broken] no_targets
        del: spec_loader.simps)
  show ?thesis
    unfolding build_eq
    by (simp add: toFolder_def withModule_def new_LapolCompilerBuilder_def new_LapolRegistry_def
        thunks run_tasks.simps run_task_core run_task_spec good spec_names declare_spec_def
        complete_def start_broken del: spec_loader.simps)
qed

text \<open>The folder that the examples write to.\<close>

definition sample_folder :: la_path where
  "sample_folder = new_LaPath sample_libs (js ''/out'') None"

end
