(* ===== verification/LoadOrder.thy ===== *)
theory LoadOrder
  imports StdModules "HOL-Library.Sublist"
begin

text \<open>
  Loading modules whose declaring functions are asynchronous (\<^verbatim>\<open>internal/module/module.ts\<close>,
  \<^verbatim>\<open>internal/lapolCompiler.ts\<close>): the promises that they await may be settled by the outside
  world, so the tasks of the loaders run in any order.
\<close>

section \<open>What is awaited\<close>

text \<open>\<^verbatim>\<open>Promise.all(this._modules)\<close> for \<open>n\<close> modules: what it has settled with, if it has.\<close>

definition modules_outcome :: "nat \<Rightarrow> load_state \<Rightarrow> unit result option" where
  "modules_outcome n s = (case first_rejection (ls_settled s) of
       Some e \<Rightarrow> Some (Inl e)
     | None \<Rightarrow> if list_all (\<lambda>i. i \<in> fst ` set (ls_settled s)) [0..<n] then Some (Inr ()) else None)"

lemma first_rejection_None:
  "first_rejection rs = None \<Longrightarrow> (i, r) \<in> set rs \<Longrightarrow> \<exists>x. r = Inr x"
  by (induction rs rule: first_rejection.induct) auto

text \<open>The thunks have been run; the tasks that they have left are to come.\<close>

definition build_start :: "builder \<Rightarrow> ns_heap \<Rightarrow> load_state" where
  "build_start b h = run_thunks (b_thunks b)
     (start_state (new_LapolRegistry\<lparr>reg_targetNames := b_targets b\<rparr>) h)"

text \<open>\<open>build\<close> is the run in which every awaited promise is settled already.\<close>

lemma build_is_a_run:
  assumes "b_outputFolder b \<noteq> None" and "build b h = (r, s)"
  shows "load_step\<^sup>*\<^sup>* (build_start b h) s"
  using assms run_tasks_steps [of "build_start b h"] by (auto simp: build_eq build_start_def Let_def)

section \<open>The promises of the top-level modules\<close>

definition sub_task :: "load_task \<Rightarrow> bool" where
  "sub_task t \<longleftrightarrow> (case t of (l, rest, k) \<Rightarrow> (case k of SubOf _ _ \<Rightarrow> True | TopLevel _ \<Rightarrow> False))"

definition registered :: "load_state \<Rightarrow> jstr \<Rightarrow> bool" where
  "registered s name \<longleftrightarrow> jmap_has (reg_modules (ls_registry s)) name"

lemma complete_effect:
  "registered (complete k r s) = registered s"
  "ls_settled (complete k r s) =
    (case k of TopLevel i \<Rightarrow> ls_settled s @ [(i, r)] | SubOf _ _ \<Rightarrow> ls_settled s)"
  by (auto simp: registered_def fun_eq_iff) (auto simp: complete_def split: continuation.split sum.split)

lemma start_sub_effect:
  "\<exists>new. ls_tasks (start_loadModule name calls (SubOf a n) s) = ls_tasks s @ new \<and> list_all sub_task new"
  "ls_settled (start_loadModule name calls (SubOf a n) s) = ls_settled s"
  "registered (start_loadModule name calls k s) = registered s"
  by (cases "run_calls (ls_registry s) (make_ModuleLoader name (length (ls_arrays s))) calls";
      auto simp: start_loadModule_def complete_effect registered_def fun_eq_iff sub_task_def)+

lemma run_actions_effect:
  assumes "run_actions l as s = (r, s')"
  shows "ls_settled s' = ls_settled s \<and> ls_registry s' = ls_registry s \<and>
    (\<exists>new. ls_tasks s' = ls_tasks s @ new \<and> list_all sub_task new)"
  using assms
proof (induction l as s rule: run_actions.induct)
  case (2 l cs as s)
  then show ?case by (cases "export_properties l cs") auto
next
  case (3 l name calls as s)
  let ?s = "start_loadModule name calls (SubOf (ld_loadedSubModules l) name) s"
  from start_sub_effect(1) [of name calls "ld_loadedSubModules l" name s] obtain new where
    "ls_tasks ?s = ls_tasks s @ new" and "list_all sub_task new" by blast
  moreover from 3 obtain new' where "ls_tasks s' = ls_tasks ?s @ new'" and "list_all sub_task new'" by auto
  moreover from 3 have "ls_settled s' = ls_settled s \<and> ls_registry s' = ls_registry s"
    by (simp add: start_sub_effect(2))
  ultimately show ?case by auto
qed simp

lemma run_actions_identifier:
  "run_actions l as s = (Inr l', s') \<Longrightarrow> ld_identifier l' = ld_identifier l"
proof (induction l as s rule: run_actions.induct)
  case (2 l cs as s)
  then obtain l1 where l1: "export_properties l cs = Inr l1" by (cases "export_properties l cs") auto
  with 2 have "ld_identifier l' = ld_identifier l1" by simp
  with export_properties_keep [OF l1] show ?case by (simp add: same_loader_def)
qed auto

lemma registered_prefix:
  "prefix (reg_modules (ls_registry s)) (reg_modules (ls_registry s')) \<Longrightarrow> registered s name \<Longrightarrow>
   registered s' name"
  by (auto simp: registered_def prefix_def jmap_has_append)

text \<open>Finalizing adds at most the module itself to the registry, and only if the name is free.\<close>

lemma finalize_effect:
  assumes "finalize_loader l s = (r, s')"
  shows "ls_settled s' = ls_settled s"
    and "\<exists>new. ls_tasks s' = ls_tasks s @ new \<and> list_all sub_task new"
    and "prefix (reg_modules (ls_registry s)) (reg_modules (ls_registry s'))"
    and "r = Inr ns \<Longrightarrow> \<not> registered s (ld_identifier l) \<and> registered s' (ld_identifier l)"
    and "r = Inl e \<Longrightarrow> ls_registry s' = ls_registry s"
proof -
  obtain r1 s1 where acts: "run_actions l (ld_finalizeActions l) s = (r1, s1)" by fastforce
  note effect = run_actions_effect [OF acts]
  have "ls_settled s' = ls_settled s1 \<and> ls_tasks s' = ls_tasks s1 \<and>
      (ls_registry s' = ls_registry s1 \<and> isl r \<or>
       \<not> isl r \<and> \<not> registered s1 (ld_identifier l) \<and>
       (\<exists>m. reg_modules (ls_registry s') = reg_modules (ls_registry s1) @ [(ld_identifier l, m)]))"
  proof (cases r1)
    case (Inl e)
    with assms acts show ?thesis by (auto simp: finalize_loader_def)
  next
    case l1: (Inr l1)
    with acts have id: "ld_identifier l1 = ld_identifier l" by (auto intro: run_actions_identifier)
    show ?thesis
    proof (cases "ld_instantiator l1")
      case None
      with assms acts l1 show ?thesis by (auto simp: finalize_loader_def)
    next
      case inst: (Some inst)
      let ?new = "new_LapolModule (ld_commands l1) (ld_identifier l1) (ld_loadedSubModules l1) inst
          (ld_nodeOutputters l1) (ld_stringProviders l1) (ls_heap s1)"
      show ?thesis
      proof (cases ?new)
        case (Inl e)
        with assms acts l1 inst show ?thesis by (auto simp: finalize_loader_def)
      next
        case (Inr mh)
        then obtain m h where mh: "?new = Inr (m, h)" by (cases mh) simp
        then have "mod_identifier m = ld_identifier l"
          using id by (auto simp: new_LapolModule_def new_Namespace_def bindR_eq_Inr_iff)
        with assms acts l1 inst mh show ?thesis
          by (auto simp: finalize_loader_def Let_def registered_def drawer_declare_Inr
              split: sum.splits)
      qed
    qed
  qed
  with effect show "ls_settled s' = ls_settled s"
    and "\<exists>new. ls_tasks s' = ls_tasks s @ new \<and> list_all sub_task new"
    and "prefix (reg_modules (ls_registry s)) (reg_modules (ls_registry s'))"
    and "r = Inr ns \<Longrightarrow> \<not> registered s (ld_identifier l) \<and> registered s' (ld_identifier l)"
    and "r = Inl e \<Longrightarrow> ls_registry s' = ls_registry s"
    by (auto simp: registered_def jmap_has_append jmap_has_def map_add_def)
qed

text \<open>
  Of the modules with the given names, the first \<open>n\<close> have been started: each has a task or a
  settled promise, and when its promise is fulfilled the module is registered.
\<close>

definition task_for :: "jstr list \<Rightarrow> load_task \<Rightarrow> bool" where
  "task_for names t \<longleftrightarrow> (case t of (l, rest, k) \<Rightarrow> (case k of
       TopLevel i \<Rightarrow> i < length names \<and> ld_identifier l = names ! i
     | SubOf _ _ \<Rightarrow> True))"

definition settled_for :: "jstr list \<Rightarrow> load_state \<Rightarrow> nat \<times> jstr list result \<Rightarrow> bool" where
  "settled_for names s p \<longleftrightarrow> (case p of (i, r) \<Rightarrow>
     i < length names \<and> (\<forall>ns. r = Inr ns \<longrightarrow> registered s (names ! i)))"

definition promised :: "load_state \<Rightarrow> nat \<Rightarrow> bool" where
  "promised s i \<longleftrightarrow> i \<in> fst ` set (ls_settled s) \<or> (\<exists>l rest. (l, rest, TopLevel i) \<in> set (ls_tasks s))"

definition top_inv :: "jstr list \<Rightarrow> nat \<Rightarrow> load_state \<Rightarrow> bool" where
  "top_inv names n s \<longleftrightarrow> list_all (task_for names) (ls_tasks s) \<and>
     list_all (settled_for names s) (ls_settled s) \<and> (\<forall>i < n. promised s i)"

lemma sub_task_for: "sub_task t \<Longrightarrow> task_for names t"
  by (auto simp: sub_task_def task_for_def split: continuation.splits)

lemma settled_for_mono:
  "(\<And>name. registered s name \<Longrightarrow> registered s' name) \<Longrightarrow> settled_for names s p \<Longrightarrow> settled_for names s' p"
  by (auto simp: settled_for_def split: prod.splits)

text \<open>A task that ends settles its promise; one that suspends stays a task for it.\<close>

lemma top_inv_complete:
  assumes "top_inv names n s" and "ls_tasks s = ts @ (l, rest, k) # us"
    and "ls_settled s' = ls_settled s" and "ls_tasks s' = ts @ us @ new" and "list_all sub_task new"
    and "\<And>name. registered s name \<Longrightarrow> registered s' name"
    and "\<And>ns. r = Inr ns \<Longrightarrow> registered s' (ld_identifier l)"
  shows "top_inv names n (complete k r s')"
proof -
  have tasks: "list_all (task_for names) (ls_tasks (complete k r s'))"
    using assms(1,2,4,5) by (auto simp: top_inv_def list_all_iff sub_task_for)
  have old: "list_all (settled_for names (complete k r s')) (ls_settled s)"
    using assms(1,6) by (auto simp: top_inv_def list_all_iff complete_effect(1)
        intro: settled_for_mono [of s])
  have own: "task_for names (l, rest, k)" using assms(1,2) by (simp add: top_inv_def)
  have settled: "list_all (settled_for names (complete k r s')) (ls_settled (complete k r s'))"
  proof (cases k)
    case (TopLevel i)
    with own assms(7) have "settled_for names (complete k r s') (i, r)"
      by (auto simp: settled_for_def task_for_def complete_effect(1))
    with old TopLevel show ?thesis by (simp add: complete_effect(2) assms(3))
  qed (use old in \<open>simp add: complete_effect(2) assms(3)\<close>)
  have "promised (complete k r s') i" if "promised s i" for i
    using that assms(2,4) by (cases k) (auto simp: promised_def complete_effect(2) assms(3))
  with assms(1) tasks settled show ?thesis by (simp add: top_inv_def)
qed

lemma load_step_top:
  assumes "top_inv names n s" and "load_step s s'"
  shows "top_inv names n s'"
  using assms(2)
proof (rule load_stepE)
  fix ts t us assume s': "s' = run_task t (s\<lparr>ls_tasks := ts @ us\<rparr>)" and tasks: "ls_tasks s = ts @ t # us"
  let ?s = "s\<lparr>ls_tasks := ts @ us\<rparr>"
  obtain l rest k where t: "t = (l, rest, k)" by (cases t)
  note own = assms(1) tasks [unfolded t]
  have same: "registered ?s = registered s" by (simp add: registered_def fun_eq_iff)
  show ?thesis
  proof (cases rest)
    case Nil
    obtain r u where fin: "finalize_loader l ?s = (r, u)" by fastforce
    note effect = finalize_effect [OF fin]
    from effect(2) obtain new where new: "ls_tasks u = ts @ us @ new" "list_all sub_task new" by auto
    have "top_inv names n (complete k r u)"
      by (rule top_inv_complete [OF own _ new]) (use effect(1,3,4) same registered_prefix in auto)
    then show ?thesis by (simp add: s' t Nil run_task_def finalize_task_def fin)
  next
    case (Cons c cs)
    show ?thesis
    proof (cases "run_calls (ls_registry s) l cs")
      case (Inl e)
      have "top_inv names n (complete k (Inl e) ?s)"
        by (rule top_inv_complete [OF own, of _ "[]"]) (auto simp: same)
      with Inl show ?thesis by (simp add: s' t Cons run_task_def resume_loader_def)
    next
      case (Inr x)
      obtain l' rest' where x: "x = (l', rest')" by fastforce
      with Inr have "ld_identifier l' = ld_identifier l"
        using run_calls_keeps [of "ls_registry s" l cs l' rest'] by (simp add: same_loader_def)
      moreover have "promised (?s\<lparr>ls_tasks := (ts @ us) @ [(l', rest', k)]\<rparr>) i" if "promised s i" for i
        using that own(2) by (auto simp: promised_def)
      ultimately have "top_inv names n (?s\<lparr>ls_tasks := (ts @ us) @ [(l', rest', k)]\<rparr>)"
        using own by (simp add: top_inv_def list_all_iff task_for_def settled_for_def registered_def)
      with Inr x show ?thesis by (simp add: s' t Cons run_task_def resume_loader_def)
    qed
  qed
qed

lemma load_steps_top: "load_step\<^sup>*\<^sup>* s s' \<Longrightarrow> top_inv names n s \<Longrightarrow> top_inv names n s'"
  by (induction rule: rtranclp_induct) (auto intro: load_step_top)

lemma start_top:
  assumes "top_inv names n s" and "n < length names"
  shows "top_inv names (Suc n) (start_loadModule (names ! n) calls (TopLevel n) s)"
proof (cases "run_calls (ls_registry s) (make_ModuleLoader (names ! n) (length (ls_arrays s))) calls")
  case (Inl e)
  then show ?thesis
    using assms by (auto simp: top_inv_def start_loadModule_def list_all_iff settled_for_def
        promised_def complete_effect registered_def less_Suc_eq)
next
  case (Inr x)
  obtain l rest where x: "x = (l, rest)" by fastforce
  with Inr have "ld_identifier l = names ! n"
    using run_calls_keeps [of "ls_registry s" "make_ModuleLoader (names ! n) (length (ls_arrays s))" calls l rest]
    by (simp add: same_loader_def make_ModuleLoader_def)
  with Inr x assms show ?thesis
    by (auto simp: top_inv_def start_loadModule_def list_all_iff task_for_def settled_for_def
        promised_def registered_def less_Suc_eq)
qed

lemma run_thunks_snoc:
  "run_thunks (thunks @ [(name, m)]) s = start_loadModule name m
     (TopLevel (length (ls_settled s) + length thunks)) (run_thunks thunks s)"
  by (simp add: run_thunks_def enumerate_append_eq)

lemma run_thunks_top:
  "ls_settled s = [] \<Longrightarrow> top_inv names 0 s \<Longrightarrow> map fst thunks = take (length thunks) names \<Longrightarrow>
   top_inv names (length thunks) (run_thunks thunks s)"
proof (induction thunks rule: rev_induct)
  case Nil
  then show ?case by (simp add: run_thunks_def)
next
  case (snoc x thunks)
  obtain name m where x: "x = (name, m)" by fastforce
  from snoc.prems(3) have len: "length thunks < length names"
    by (metis length_append_singleton length_map length_take lessI min_less_iff_conj)
  with snoc.prems(3) x have "map fst thunks = take (length thunks) names" "name = names ! length thunks"
    by (simp_all add: take_Suc_conv_app_nth)
  with snoc.IH [OF snoc.prems(1,2)] snoc.prems(1) start_top [of names "length thunks" "run_thunks thunks s" m] len x
  show ?case by (simp add: run_thunks_snoc)
qed

lemma build_start_top: "top_inv (map fst (b_thunks b)) (length (b_thunks b)) (build_start b h)"
  unfolding build_start_def
  by (rule run_thunks_top) (simp_all add: top_inv_def start_state_def)

text \<open>Loading comes to an end.\<close>

lemma load_step_wf: "wf {(s', s). load_step s s'}"
  by (rule wf_subset [OF wf_measure [of "\<lambda>s. tasks_weight (ls_tasks s)"]]) (auto dest: load_step_weight)

text \<open>
  C27: loading modules in any order: declaring functions may be asynchronous and wait for anything.
  At any time the registry holds every module under its own name and no name twice, and the namespaces
  are in a well-formed store.  When the promises that \<^verbatim>\<open>build\<close> awaits are fulfilled, every module that was given to the
  builder is registered; as long as they have not settled, some task is left to run, and no run of tasks is
  infinite.
\<close>

theorem loading_in_any_order:
  assumes "heap_ok h" and "load_step\<^sup>*\<^sup>* (build_start b h) s"
  shows "heap_ok (ls_heap s) \<and> registry_ok (ls_registry s) (length (ls_heap s)) \<and>
    distinct (map fst (reg_modules (ls_registry s))) \<and>
    list_all (\<lambda>(k, m). mod_identifier m = k) (reg_modules (ls_registry s)) \<and>
    (modules_outcome (length (b_thunks b)) s = Some (Inr ()) \<longrightarrow>
      list_all (\<lambda>(name, m). jmap_has (reg_modules (ls_registry s)) name) (b_thunks b)) \<and>
    (modules_outcome (length (b_thunks b)) s = None \<longrightarrow> (\<exists>s'. load_step s s')) \<and>
    wf {(s', s). load_step s s'}"
proof -
  let ?names = "map fst (b_thunks b)" and ?n = "length (b_thunks b)"
  have "load_inv (build_start b h)"
    unfolding build_start_def by (intro run_thunks_inv start_state_inv assms(1))
  note inv = load_steps_inv [OF assms(2) this]
  have top: "top_inv ?names ?n s" by (rule load_steps_top [OF assms(2) build_start_top])
  have "registered s (?names ! i)"
    if done_all: "modules_outcome ?n s = Some (Inr ())" and i: "i < ?n" for i
  proof -
    from done_all i have none: "first_rejection (ls_settled s) = None" and "i \<in> fst ` set (ls_settled s)"
      by (auto simp: modules_outcome_def list_all_iff split: option.splits if_splits)
    then obtain r where r: "(i, r) \<in> set (ls_settled s)" by auto
    with none obtain ns where "r = Inr ns" using first_rejection_None by blast
    with r top show ?thesis by (auto simp: top_inv_def list_all_iff settled_for_def)
  qed
  then have all: "modules_outcome ?n s = Some (Inr ()) \<longrightarrow>
      list_all (\<lambda>(name, m). jmap_has (reg_modules (ls_registry s)) name) (b_thunks b)"
    by (auto simp: list_all_length registered_def split_beta)
  have "\<exists>s'. load_step s s'" if "modules_outcome ?n s = None"
  proof -
    from that obtain i where "i < ?n" "i \<notin> fst ` set (ls_settled s)"
      by (auto simp: modules_outcome_def list_all_iff split: option.splits if_splits)
    with top have "ls_tasks s \<noteq> []" by (auto simp: top_inv_def promised_def)
    then obtain t ts where "ls_tasks s = [] @ t # ts" by (cases "ls_tasks s") auto
    then show ?thesis by (blast intro: load_stepI)
  qed
  with inv all load_step_wf show ?thesis
    by (auto simp: load_inv_def modules_inv_def registry_ok_def list_all_iff)
qed

section \<open>Errors in submodules\<close>

text \<open>The error of the task that runs next, if it ends in one: after an \<^verbatim>\<open>await\<close>, or in the finalization.\<close>

definition task_error :: "loader \<Rightarrow> loader_call list \<Rightarrow> load_state \<Rightarrow> js_error option" where
  "task_error l rest s =
     (if rest = [] then (case fst (finalize_loader l s) of Inl e \<Rightarrow> Some e | Inr _ \<Rightarrow> None)
      else (case run_calls (ls_registry s) l (tl rest) of Inl e \<Rightarrow> Some e | Inr _ \<Rightarrow> None))"

definition only_exports :: "loader \<Rightarrow> loader" where
  "only_exports l = l\<lparr>ld_finalizeActions := filter (\<lambda>a. \<not> is_sub a) (ld_finalizeActions l)\<rparr>"

text \<open>Rejections that nobody handles stay.\<close>

lemma complete_unhandled:
  "prefix (ls_unhandled s) (ls_unhandled (complete k r s))"
  "ls_unhandled (complete (SubOf a name) (Inl e) s) = ls_unhandled s @ [e]"
  by (auto simp: complete_def split: continuation.split sum.split)

lemma start_unhandled:
  "prefix (ls_unhandled s) (ls_unhandled (start_loadModule name calls k s))"
  by (cases "run_calls (ls_registry s) (make_ModuleLoader name (length (ls_arrays s))) calls")
    (auto simp: start_loadModule_def complete_def Let_def split: continuation.split sum.split)

lemma start_unchanged:
  "ls_registry (start_loadModule name calls k s) = ls_registry s"
  "ls_heap (start_loadModule name calls k s) = ls_heap s"
  by (simp_all add: start_loadModule_def Let_def split: sum.split)

lemma run_actions_unhandled:
  "run_actions l as s = (r, s') \<Longrightarrow> prefix (ls_unhandled s) (ls_unhandled s')"
proof (induction l as s rule: run_actions.induct)
  case (2 l cs as s)
  then show ?case by (cases "export_properties l cs") auto
next
  case (3 l name calls as s)
  then show ?case using start_unhandled [of s] by (auto intro: prefix_order.trans)
qed simp

lemma finalize_unhandled:
  assumes "finalize_loader l s = (r, s')"
  shows "ls_unhandled s' = ls_unhandled (snd (run_actions l (ld_finalizeActions l) s))"
proof -
  obtain r1 s1 where acts: "run_actions l (ld_finalizeActions l) s = (r1, s1)" by fastforce
  with assms show ?thesis
    by (auto simp: finalize_loader_def Let_def split: sum.splits option.splits)
qed

lemma load_step_unhandled: "load_step s s' \<Longrightarrow> prefix (ls_unhandled s) (ls_unhandled s')"
proof (erule load_stepE)
  fix ts t us assume s': "s' = run_task t (s\<lparr>ls_tasks := ts @ us\<rparr>)"
  let ?s = "s\<lparr>ls_tasks := ts @ us\<rparr>"
  obtain l rest k where t: "t = (l, rest, k)" by (cases t)
  obtain r u where fin: "finalize_loader l ?s = (r, u)" by fastforce
  obtain r1 s1 where acts: "run_actions l (ld_finalizeActions l) ?s = (r1, s1)" by fastforce
  from run_actions_unhandled [OF acts] finalize_unhandled [OF fin] acts
  have "prefix (ls_unhandled s) (ls_unhandled u)" by simp
  then show "prefix (ls_unhandled s) (ls_unhandled s')"
    using complete_unhandled(1) [of u k r] complete_unhandled(1) [of ?s k]
    by (auto simp: s' t run_task_def finalize_task_def fin resume_loader_def
        intro: prefix_order.trans split: sum.split)
qed

lemma load_steps_unhandled: "load_step\<^sup>*\<^sup>* s s' \<Longrightarrow> prefix (ls_unhandled s) (ls_unhandled s')"
  by (induction rule: rtranclp_induct) (auto dest: load_step_unhandled intro: prefix_order.trans)

text \<open>A submodule that throws when it is started.\<close>

lemma run_actions_broken_sub:
  assumes "run_actions l as s = (Inr l', s')" and "ActSubModule name calls \<in> set as"
    and "\<And>a. run_calls (ls_registry s) (make_ModuleLoader name a) calls = Inl e"
  shows "e \<in> set (ls_unhandled s')"
  using assms
proof (induction l as s rule: run_actions.induct)
  case (2 l cs as s)
  then show ?case by (cases "export_properties l cs") auto
next
  case (3 l n m as s)
  let ?s = "start_loadModule n m (SubOf (ld_loadedSubModules l) n) s"
  from "3.prems"(1) have rest: "run_actions l as ?s = (Inr l', s')" by simp
  have reg: "ls_registry ?s = ls_registry s" by (rule start_unchanged)
  show ?case
  proof (cases "ActSubModule name calls \<in> set as")
    case True
    with "3.IH" [OF rest] "3.prems"(3) reg show ?thesis by simp
  next
    case False
    with "3.prems"(2,3) have "ls_unhandled ?s = ls_unhandled s @ [e]"
      by (auto simp: start_loadModule_def complete_unhandled(2))
    with run_actions_unhandled [OF rest] show ?thesis by (auto simp: prefix_def)
  qed
qed simp

text \<open>What a finalization returns does not depend on the submodules.\<close>

lemma export_commutes:
  "export_properties (l\<lparr>ld_finalizeActions := x\<rparr>) v =
    map_sum id (\<lambda>l. l\<lparr>ld_finalizeActions := x\<rparr>) (export_properties l v)"
proof -
  have one: "export_property (l\<lparr>ld_finalizeActions := x\<rparr>) pv =
      map_sum id (\<lambda>l. l\<lparr>ld_finalizeActions := x\<rparr>) (export_property l pv)" for l pv
    by (auto simp: export_property_def set_command_def bindR_def split: exported.split sum.split prod.split)
  have "foldR export_property (l\<lparr>ld_finalizeActions := x\<rparr>) ps =
      map_sum id (\<lambda>l. l\<lparr>ld_finalizeActions := x\<rparr>) (foldR export_property l ps)" for ps
    by (induction ps arbitrary: l) (auto simp: one bindR_def split: sum.split)
  then show ?thesis by (cases "own_properties v") (simp_all add: export_properties_def)
qed

lemma run_exports_only:
  "fst (run_actions (l\<lparr>ld_finalizeActions := x\<rparr>) (filter (\<lambda>a. \<not> is_sub a) as) s0) =
    map_sum id (\<lambda>l. l\<lparr>ld_finalizeActions := x\<rparr>) (fst (run_actions l as s))"
proof (induction l as s rule: run_actions.induct)
  case (2 l cs as s)
  then show ?case by (cases "export_properties l cs") (simp_all add: export_commutes)
qed simp_all

lemma run_actions_heap:
  assumes "run_actions l as s = (r, s')"
  shows "ls_heap s' = ls_heap s"
  using assms
proof (induction l as s rule: run_actions.induct)
  case (2 l cs as s)
  then show ?case by (cases "export_properties l cs") auto
next
  case (3 l name calls as s)
  then show ?case by (simp add: start_unchanged)
qed simp

lemma finalize_exports_only:
  "fst (finalize_loader l s) = Inl e \<longleftrightarrow> fst (finalize_loader (only_exports l) s) = Inl e"
proof -
  let ?l = "only_exports l"
  obtain r1 s1 where acts: "run_actions l (ld_finalizeActions l) s = (r1, s1)" by fastforce
  obtain r2 s2 where acts': "run_actions ?l (ld_finalizeActions ?l) s = (r2, s2)" by fastforce
  have r2: "r2 = map_sum id (\<lambda>l'. l'\<lparr>ld_finalizeActions := ld_finalizeActions ?l\<rparr>) r1"
    using run_exports_only [where l = l and x = "ld_finalizeActions ?l" and as = "ld_finalizeActions l" and ?s0.0 = s and s = s] acts acts'
    by (simp add: only_exports_def)
  have same: "ls_heap s1 = ls_heap s2" "ls_registry s1 = ls_registry s2"
    using run_actions_heap [OF acts] run_actions_heap [OF acts'] run_actions_effect [OF acts]
      run_actions_effect [OF acts'] by simp_all
  show ?thesis
    by (cases r1) (auto simp: finalize_loader_def acts acts' r2 same Let_def split: option.splits sum.splits)
qed

text \<open>
  C29: an error in a submodule is lost, wherever it occurs.  Throws its declaring function after an
  \<^verbatim>\<open>await\<close>, or its finalization, then neither the promise that \<^verbatim>\<open>build\<close> awaits nor the registry notices.
  Throws the declaring function at once, then the finalization of the parent returns or throws what it would
  without submodules.  The error stays in a rejected promise that nobody handles.  Once all tasks have run,
  the promise of \<^verbatim>\<open>build\<close> is fulfilled unless one of the modules that the builder was given has failed itself.
\<close>

theorem submodule_error_lost:
  assumes "load_step\<^sup>*\<^sup>* (build_start b h) s" and "ls_tasks s = ts @ (l, rest, k) # us"
    and "s1 = run_task (l, rest, k) (s\<lparr>ls_tasks := ts @ us\<rparr>)" and "load_step\<^sup>*\<^sup>* s1 t"
  shows "(\<forall>a name e. k = SubOf a name \<and> task_error l rest (s\<lparr>ls_tasks := ts @ us\<rparr>) = Some e \<longrightarrow>
      modules_outcome (length (b_thunks b)) s1 = modules_outcome (length (b_thunks b)) s \<and>
      ls_registry s1 = ls_registry s \<and> e \<in> set (ls_unhandled t)) \<and>
    (rest = [] \<longrightarrow>
      (\<forall>e. fst (finalize_loader l (s\<lparr>ls_tasks := ts @ us\<rparr>)) = Inl e \<longleftrightarrow>
        fst (finalize_loader (only_exports l) (s\<lparr>ls_tasks := ts @ us\<rparr>)) = Inl e) \<and>
      (\<forall>name calls e ns. ActSubModule name calls \<in> set (ld_finalizeActions l) \<and>
        (\<forall>a. run_calls (ls_registry s) (make_ModuleLoader name a) calls = Inl e) \<and>
        fst (finalize_loader l (s\<lparr>ls_tasks := ts @ us\<rparr>)) = Inr ns \<longrightarrow> e \<in> set (ls_unhandled t))) \<and>
    (ls_tasks t = [] \<and> (\<forall>i e. (i, Inl e) \<notin> set (ls_settled t)) \<longrightarrow>
      modules_outcome (length (b_thunks b)) t = Some (Inr ()))"
proof (intro conjI allI impI)
  let ?s = "s\<lparr>ls_tasks := ts @ us\<rparr>" and ?n = "length (b_thunks b)"
  obtain r u where fin: "finalize_loader l ?s = (r, u)" by fastforce
  note effect = finalize_effect [OF fin]
  note kept = set_mono_prefix [OF load_steps_unhandled [OF assms(4)], THEN subsetD]
  {
    fix a name e assume sub: "k = SubOf a name \<and> task_error l rest ?s = Some e"
    have "ls_settled s1 = ls_settled s \<and> ls_registry s1 = ls_registry s \<and> e \<in> set (ls_unhandled s1)"
    proof (cases "rest = []")
      case True
      with sub fin have "r = Inl e" by (auto simp: task_error_def split: sum.splits)
      with True sub effect(1,5) show ?thesis
        by (simp add: assms(3) run_task_def finalize_task_def fin complete_effect complete_unhandled)
    next
      case False
      with sub have "run_calls (ls_registry s) l (tl rest) = Inl e"
        by (auto simp: task_error_def split: sum.splits)
      with False sub show ?thesis
        by (simp add: assms(3) run_task_def resume_loader_def complete_effect complete_unhandled)
    qed
    then show "modules_outcome ?n s1 = modules_outcome ?n s" and "ls_registry s1 = ls_registry s"
      and "e \<in> set (ls_unhandled t)"
      by (auto simp: modules_outcome_def intro: kept)
  }
  show "fst (finalize_loader l ?s) = Inl e \<longleftrightarrow> fst (finalize_loader (only_exports l) ?s) = Inl e" for e
    by (rule finalize_exports_only)
  {
    fix name calls e ns assume "rest = []"
      and broken: "ActSubModule name calls \<in> set (ld_finalizeActions l) \<and>
        (\<forall>a. run_calls (ls_registry s) (make_ModuleLoader name a) calls = Inl e) \<and>
        fst (finalize_loader l ?s) = Inr ns"
    obtain r1 u1 where acts: "run_actions l (ld_finalizeActions l) ?s = (r1, u1)" by fastforce
    with broken fin obtain l1 where "r1 = Inr l1" by (cases r1) (auto simp: finalize_loader_def)
    with run_actions_broken_sub [of l "ld_finalizeActions l" ?s l1 u1 name calls e] acts broken
    have "e \<in> set (ls_unhandled u)" using finalize_unhandled [OF fin] by simp
    with \<open>rest = []\<close> complete_unhandled(1) [of u k r] show "e \<in> set (ls_unhandled t)"
      by (auto simp: assms(3) run_task_def finalize_task_def fin prefix_def intro!: kept)
  }
  assume idle: "ls_tasks t = [] \<and> (\<forall>i e. (i, Inl e) \<notin> set (ls_settled t))"
  have "load_step s s1" using load_stepI [OF assms(2)] assms(3) by simp
  with assms(1,4) have "load_step\<^sup>*\<^sup>* (build_start b h) t" by (blast intro: rtranclp.rtrancl_into_rtrancl rtranclp_trans)
  from load_steps_top [OF this build_start_top] idle have "\<forall>i < ?n. i \<in> fst ` set (ls_settled t)"
    by (auto simp: top_inv_def promised_def)
  moreover have "first_rejection rs = None" if "\<forall>i e. (i, Inl e) \<notin> set rs" for rs
    using that by (induction rs rule: first_rejection.induct) auto
  then have "first_rejection (ls_settled t) = None" using idle by blast
  ultimately show "modules_outcome ?n t = Some (Inr ())"
    by (auto simp: modules_outcome_def list_all_iff)
qed

section \<open>A run\<close>

text \<open>A schedule lists the positions of the tasks that run.\<close>

definition load_turns :: "nat list \<Rightarrow> load_state \<Rightarrow> load_state" where
  "load_turns is s0 = foldl (\<lambda>s i. if i < length (ls_tasks s)
     then run_task (ls_tasks s ! i) (s\<lparr>ls_tasks := take i (ls_tasks s) @ drop (Suc i) (ls_tasks s)\<rparr>)
     else s) s0 is"

lemma load_turns_steps: "load_step\<^sup>*\<^sup>* s (load_turns is s)"
proof (induction "is" rule: rev_induct)
  case (snoc i "is")
  let ?s = "load_turns is s"
  have "load_turns (is @ [i]) s = ?s \<or> load_step ?s (load_turns (is @ [i]) s)"
    by (auto simp: load_turns_def intro: load_stepI id_take_nth_drop)
  with snoc show ?case by (auto intro: rtranclp.rtrancl_into_rtrancl)
qed (simp add: load_turns_def)

text \<open>
  A module that waits before it exports its command, and asks for a submodule that waits.  The
  submodule may still be waiting when \<^verbatim>\<open>build\<close> resolves.
\<close>

definition waiting_mod :: "loader_call list" where
  "waiting_mod = [DeclareInstantiator (plain_store (js ''m'')),
     DeclareSubModule (js ''m::sub'') [DeclareInstantiator (plain_store (js ''m::sub'')), AwaitPromise],
     AwaitPromise, ExportCommand (js ''hello'') (ExFn DocCommand)]"

definition waiting_builder :: builder where
  "waiting_builder = toFolder sample_folder (withModule (js ''m'') waiting_mod new_LapolCompilerBuilder)"

definition resolves_early :: "load_state \<Rightarrow> bool" where
  "resolves_early s \<longleftrightarrow> modules_outcome 2 s = Some (Inr ()) \<and>
    \<not> jmap_has (reg_modules (ls_registry s)) (js ''m::sub'') \<and>
    jmap_has (reg_modules (ls_registry (load_turns [0, 0] s))) (js ''m::sub'')"

lemma waiting_run: "resolves_early (load_turns [1, 1, 0] (build_start waiting_builder []))"
  by code_simp

lemma submodule_not_awaited:
  "\<exists>s. load_step\<^sup>*\<^sup>* (build_start waiting_builder []) s \<and> modules_outcome 2 s = Some (Inr ()) \<and>
    \<not> jmap_has (reg_modules (ls_registry s)) (js ''m::sub'') \<and>
    jmap_has (reg_modules (ls_registry (load_turns [0, 0] s))) (js ''m::sub'')"
  using waiting_run load_turns_steps unfolding resolves_early_def by blast

theorem loading_in_any_order_witness:
  "\<exists>s. load_step\<^sup>*\<^sup>* (build_start waiting_builder []) s \<and>
    jmap_has (reg_modules (ls_registry s)) (js ''m'') \<and> jmap_has (reg_modules (ls_registry s)) (js ''std::core'')"
proof -
  let ?s = "load_turns [1, 1, 0] (build_start waiting_builder [])"
  have thunks: "b_thunks waiting_builder = [(js ''std::core'', core_mod), (js ''m'', waiting_mod)]"
    by (simp add: waiting_builder_def toFolder_def withModule_def new_LapolCompilerBuilder_def)
  have "heap_ok []" by (simp add: heap_ok_def)
  from loading_in_any_order [OF this load_turns_steps, of "[1, 1, 0]" waiting_builder] waiting_run
  have "jmap_has (reg_modules (ls_registry ?s)) (js ''m'') \<and> jmap_has (reg_modules (ls_registry ?s)) (js ''std::core'')"
    by (simp add: thunks numeral_2_eq_2 resolves_early_def)
  with load_turns_steps show ?thesis by blast
qed

text \<open>A module with a submodule that waits and then throws.\<close>

definition failing_builder :: builder where
  "failing_builder = toFolder sample_folder (withModule (js ''m'')
     [DeclareInstantiator (plain_store (js ''m'')), DeclareSubModule (js ''m::sub'') [AwaitPromise, LoaderThrows 7]]
     new_LapolCompilerBuilder)"

definition sub_fails :: "load_state \<Rightarrow> bool" where
  "sub_fails s = (case ls_tasks s of
       [t0, (l, rest, SubOf a name)] \<Rightarrow>
         task_error l rest (s\<lparr>ls_tasks := [t0]\<rparr>) = Some (UserError 7) \<and>
         (let t = load_turns [0] (run_task (l, rest, SubOf a name) (s\<lparr>ls_tasks := [t0]\<rparr>))
          in ls_tasks t = [] \<and> list_all (\<lambda>(i, r). \<not> isl r) (ls_settled t))
     | _ \<Rightarrow> False)"

lemma failing_run: "sub_fails (load_turns [1] (build_start failing_builder []))"
  by code_simp

theorem submodule_error_lost_witness:
  "\<exists>t. load_step\<^sup>*\<^sup>* (build_start failing_builder []) t \<and> modules_outcome 2 t = Some (Inr ()) \<and>
    UserError 7 \<in> set (ls_unhandled t)"
proof -
  let ?s = "load_turns [1] (build_start failing_builder [])"
  from failing_run obtain t0 l rest a name where tasks: "ls_tasks ?s = [t0, (l, rest, SubOf a name)]"
    by (auto simp: sub_fails_def split: list.splits prod.splits continuation.splits)
      (metis neq_Nil_conv prod_cases3)+
  let ?s1 = "run_task (l, rest, SubOf a name) (?s\<lparr>ls_tasks := [t0]\<rparr>)"
  let ?t = "load_turns [0] ?s1"
  from failing_run tasks have err: "task_error l rest (?s\<lparr>ls_tasks := [t0]\<rparr>) = Some (UserError 7)"
    and idle: "ls_tasks ?t = []" "\<And>i e. (i, Inl e) \<notin> set (ls_settled ?t)"
    by (auto simp: sub_fails_def Let_def list_all_iff)
  have n: "length (b_thunks failing_builder) = 2"
    by (simp add: failing_builder_def toFolder_def withModule_def new_LapolCompilerBuilder_def)
  from tasks have split: "ls_tasks ?s = [t0] @ (l, rest, SubOf a name) # []" by simp
  from submodule_error_lost [OF load_turns_steps split refl] err idle load_turns_steps n
  have "modules_outcome 2 ?t = Some (Inr ()) \<and> UserError 7 \<in> set (ls_unhandled ?t)"
    by auto
  moreover have "load_step ?s ?s1" using load_stepI [OF split] by simp
  ultimately show ?thesis
    using load_turns_steps by (meson rtranclp.rtrancl_into_rtrancl rtranclp_trans)
qed

end
