(* ===== verification/SecondBuild.thy ===== *)
theory SecondBuild
  imports LoadOrder
begin

text \<open>
  Calling \<^verbatim>\<open>build\<close> a second time on the same builder (\<^verbatim>\<open>internal/lapolCompiler.ts\<close>).  The thunks
  run again, on the registry that the first call has filled and that the first compiler refers to.
\<close>

section \<open>The registry grows\<close>

abbreviation modules_of :: "load_state \<Rightarrow> (jstr \<times> lapol_module) list" where
  "modules_of s \<equiv> reg_modules (ls_registry s)"

lemma run_task_registry: "prefix (modules_of s) (modules_of (run_task t s))"
proof -
  obtain l rest k where t: "t = (l, rest, k)" by (cases t)
  obtain r u where fin: "finalize_loader l s = (r, u)" by fastforce
  show ?thesis
  proof (cases "run_calls (ls_registry s) l (tl rest)")
    case (Inr x)
    then show ?thesis using finalize_effect(3) [OF fin]
      by (cases x) (simp add: t run_task_def resume_loader_def finalize_task_def fin)
  qed (use finalize_effect(3) [OF fin] in
      \<open>simp add: t run_task_def resume_loader_def finalize_task_def fin\<close>)
qed

lemma load_steps_registry: "load_step\<^sup>*\<^sup>* s s' \<Longrightarrow> prefix (modules_of s) (modules_of s')"
proof (induction rule: rtranclp_induct)
  case (step s' s'')
  then obtain t ts us where "s'' = run_task t (s'\<lparr>ls_tasks := ts @ us\<rparr>)" by (auto elim: load_stepE)
  with run_task_registry [of "s'\<lparr>ls_tasks := ts @ us\<rparr>" t] have "prefix (modules_of s') (modules_of s'')"
    by simp
  with step.IH show ?case by (rule prefix_order.trans)
qed simp

lemma run_thunks_registry [simp]: "ls_registry (run_thunks thunks s) = ls_registry s"
proof -
  have "ls_registry (foldl (\<lambda>s (i, name, m). start_loadModule name m (TopLevel i) s) s xs) = ls_registry s"
    for xs
    by (induction xs arbitrary: s) (auto split: prod.splits)
  then show ?thesis by (simp add: run_thunks_def)
qed

section \<open>A name that is taken\<close>

text \<open>A promise that the builder awaits is rejected, or will be because its module's name is taken.\<close>

definition doomed_task :: "load_state \<Rightarrow> load_task \<Rightarrow> bool" where
  "doomed_task s t \<longleftrightarrow> (case t of (l, rest, k) \<Rightarrow> (case k of
       TopLevel i \<Rightarrow> registered s (ld_identifier l)
     | SubOf _ _ \<Rightarrow> False))"

definition doomed :: "load_state \<Rightarrow> bool" where
  "doomed s \<longleftrightarrow> list_ex (\<lambda>(i, r). isl r) (ls_settled s) \<or> list_ex (doomed_task s) (ls_tasks s)"

lemma doomed_task_mono:
  "(\<And>name. registered s name \<Longrightarrow> registered s' name) \<Longrightarrow> doomed_task s t \<Longrightarrow> doomed_task s' t"
  by (auto simp: doomed_task_def split: prod.splits continuation.splits)

lemma doomed_grow:
  assumes "doomed s" and "prefix (modules_of s) (modules_of s')"
    and "ls_settled s' = ls_settled s @ rs" and "ls_tasks s' = ls_tasks s @ ts"
  shows "doomed s'"
proof -
  have "doomed_task s' t" if "doomed_task s t" for t
    by (rule doomed_task_mono [OF registered_prefix [OF assms(2)] that])
  with assms(1,3,4) show ?thesis unfolding doomed_def list_ex_iff by (metis Un_iff set_append)
qed

lemma start_grows:
  "\<exists>rs ts. ls_settled (start_loadModule name calls k s) = ls_settled s @ rs \<and>
     ls_tasks (start_loadModule name calls k s) = ls_tasks s @ ts"
  by (cases "run_calls (ls_registry s) (make_ModuleLoader name (length (ls_arrays s))) calls")
    (auto simp: start_loadModule_def complete_effect split: continuation.split)

lemma start_doomed: "doomed s \<Longrightarrow> doomed (start_loadModule name calls k s)"
  using start_grows [of name calls k s] by (auto intro: doomed_grow)

lemma start_taken:
  assumes "registered s name"
  shows "doomed (start_loadModule name calls (TopLevel i) s)"
proof (cases "run_calls (ls_registry s) (make_ModuleLoader name (length (ls_arrays s))) calls")
  case (Inl e)
  then show ?thesis by (simp add: start_loadModule_def doomed_def complete_effect)
next
  case (Inr x)
  obtain l rest where x: "x = (l, rest)" by fastforce
  with Inr have "ld_identifier l = name"
    using run_calls_keeps [of "ls_registry s" "make_ModuleLoader name (length (ls_arrays s))" calls l rest]
    by (simp add: same_loader_def make_ModuleLoader_def)
  with Inr x assms show ?thesis
    by (simp add: start_loadModule_def doomed_def doomed_task_def registered_def)
qed

lemma run_thunks_taken:
  assumes "registered s name" and "name \<in> fst ` set thunks"
  shows "doomed (run_thunks thunks s)"
proof -
  let ?run = "foldl (\<lambda>s (i, name, m). start_loadModule name m (TopLevel i) s)"
  have keep: "doomed s \<Longrightarrow> doomed (?run s xs)" for s xs
    by (induction xs arbitrary: s) (auto intro: start_doomed split: prod.splits)
  have "registered s name \<Longrightarrow> (i, name, m) \<in> set xs \<Longrightarrow> doomed (?run s xs)" for s i m xs
  proof (induction xs arbitrary: s)
    case (Cons x xs)
    then show ?case
      by (cases x) (auto simp: keep start_taken start_sub_effect(3))
  qed simp
  moreover have "\<exists>i m. (i, name, m) \<in> set (enumerate n thunks)" for n
  proof -
    from assms(2) obtain m j where "j < length thunks" and "thunks ! j = (name, m)"
      by (auto simp: in_set_conv_nth)
    then have "(n + j, name, m) \<in> set (enumerate n thunks)" by (simp add: in_set_enumerate_eq)
    then show ?thesis by blast
  qed
  ultimately show ?thesis using assms(1) unfolding run_thunks_def by blast
qed

text \<open>The task of a module whose name is taken settles with an error or waits again.\<close>

lemma run_doomed_task:
  assumes "doomed_task s (l, rest, k)"
  shows "doomed (run_task (l, rest, k) s)"
proof (cases k)
  case (TopLevel i)
  with assms have taken: "registered s (ld_identifier l)" by (simp add: doomed_task_def)
  show ?thesis
  proof (cases "rest = []")
    case True
    obtain r u where fin: "finalize_loader l s = (r, u)" by fastforce
    with taken finalize_effect(4) [OF fin] have "isl r" by (cases r) auto
    with True TopLevel fin show ?thesis
      by (simp add: run_task_def finalize_task_def doomed_def complete_effect)
  next
    case False
    show ?thesis
    proof (cases "run_calls (ls_registry s) l (tl rest)")
      case (Inl e)
      with False TopLevel show ?thesis
        by (simp add: run_task_def resume_loader_def doomed_def complete_effect)
    next
      case (Inr x)
      obtain l' rest' where x: "x = (l', rest')" by fastforce
      with Inr have "ld_identifier l' = ld_identifier l"
        using run_calls_keeps [of "ls_registry s" l "tl rest" l' rest'] by (simp add: same_loader_def)
      with False TopLevel Inr x taken show ?thesis
        by (simp add: run_task_def resume_loader_def doomed_def doomed_task_def registered_def)
    qed
  qed
qed (use assms in \<open>simp add: doomed_task_def\<close>)

lemma run_task_grows:
  "\<exists>rs new. ls_settled (run_task t s) = ls_settled s @ rs \<and> ls_tasks (run_task t s) = ls_tasks s @ new"
proof -
  obtain l rest k where t: "t = (l, rest, k)" by (cases t)
  obtain r u where fin: "finalize_loader l s = (r, u)" by fastforce
  from finalize_effect(1,2) [OF fin] show ?thesis
    by (cases "run_calls (ls_registry s) l (tl rest)")
      (auto simp: t run_task_def finalize_task_def resume_loader_def fin complete_effect
        split: continuation.split)
qed

lemma load_step_doomed:
  assumes "doomed s" and "load_step s s'"
  shows "doomed s'"
  using assms(2)
proof (rule load_stepE)
  fix ts t us assume s': "s' = run_task t (s\<lparr>ls_tasks := ts @ us\<rparr>)" and tasks: "ls_tasks s = ts @ t # us"
  let ?s = "s\<lparr>ls_tasks := ts @ us\<rparr>"
  have same: "doomed_task ?s = doomed_task s"
    by (simp add: doomed_task_def registered_def fun_eq_iff split: prod.split continuation.split)
  show ?thesis
  proof (cases "doomed_task s t")
    case True
    then show ?thesis using run_doomed_task [of ?s] by (cases t) (simp add: s' same)
  next
    case False
    with assms(1) tasks same have "doomed ?s" by (auto simp: doomed_def)
    with run_task_grows [of t ?s] run_task_registry [of ?s t] show ?thesis
      unfolding s' by (blast intro: doomed_grow)
  qed
qed

lemma load_steps_doomed: "load_step\<^sup>*\<^sup>* s s' \<Longrightarrow> doomed s \<Longrightarrow> doomed s'"
  by (induction rule: rtranclp_induct) (auto intro: load_step_doomed)

lemma first_rejection_doomed: "list_ex (\<lambda>(i, r). isl r) rs \<Longrightarrow> first_rejection rs \<noteq> None"
  by (induction rs rule: first_rejection.induct) auto

section \<open>The second call\<close>

lemma built_registered:
  assumes "build b h = (Inr cc, s)" and "name \<in> fst ` set (b_thunks b)"
  shows "registered s name"
proof -
  have folder: "b_outputFolder b \<noteq> None" using assms(1) by (cases "b_outputFolder b") (auto simp: build_eq Let_def)
  let ?names = "map fst (b_thunks b)"
  from assms(2) obtain i where i: "i < length (b_thunks b)" "?names ! i = name"
    by (auto simp: in_set_conv_nth)
  have top: "top_inv ?names (length (b_thunks b)) s"
    by (rule load_steps_top [OF build_is_a_run [OF folder assms(1)] build_start_top])
  have over: "first_rejection (ls_settled s) = None" "ls_tasks s = []"
    using assms(1) run_tasks_empty by (auto simp: build_eq Let_def split: option.splits)
  with top i(1) obtain r where r: "(i, r) \<in> set (ls_settled s)"
    by (auto simp: top_inv_def promised_def)
  with over(1) obtain ns where "r = Inr ns" using first_rejection_None by blast
  with r top i show ?thesis by (auto simp: top_inv_def list_all_iff settled_for_def)
qed

text \<open>
  C28: a builder builds once.  When \<^verbatim>\<open>build\<close> has succeeded, a second call on the builder is rejected,
  whatever targets, modules and folder have been set in the meantime: it loads \<^verbatim>\<open>std::core\<close> again, whose
  name is taken.  The compiler of the first call loses none of its modules, but the modules that the failed
  call has loaded on its way are added to its registry, which both share.
\<close>

theorem second_build_fails:
  assumes "build b h = (Inr cc, s)" and "b_thunks b \<noteq> []" and "prefix (b_thunks b) (b_thunks b')"
  shows "\<exists>e s'. build_from b' s = (Inl e, s') \<and> lc_registry cc = ls_registry s \<and>
    prefix (reg_modules (ls_registry s)) (reg_modules (ls_registry s'))"
proof -
  let ?s = "s\<lparr>ls_registry := (ls_registry s)\<lparr>reg_targetNames := b_targets b'\<rparr>\<rparr>"
  let ?run = "run_thunks (b_thunks b') ?s"
  have cc: "lc_registry cc = ls_registry s"
    using assms(1) by (auto simp: build_eq Let_def split: option.splits)
  have grows: "prefix (modules_of s) (modules_of (run_tasks ?run))"
    using load_steps_registry [OF run_tasks_steps [of ?run]] by simp
  obtain name m where first: "(name, m) \<in> set (b_thunks b)" using assms(2) by (cases "b_thunks b") auto
  then have "registered s name" using built_registered [OF assms(1)] by force
  then have "registered ?s name" by (simp add: registered_def)
  moreover have "name \<in> fst ` set (b_thunks b')" using first assms(3) by (force simp: prefix_def)
  ultimately have "doomed (run_tasks ?run)"
    by (blast intro: load_steps_doomed [OF run_tasks_steps] run_thunks_taken)
  then have "first_rejection (ls_settled (run_tasks ?run)) \<noteq> None"
    by (intro first_rejection_doomed) (simp add: doomed_def run_tasks_empty)
  with cc grows show ?thesis by (cases "b_outputFolder b'") (auto simp: build_from_def Let_def)
qed

text \<open>The html module of \<^verbatim>\<open>std::core\<close> is loaded by a second call that fails.\<close>

definition sample_builder :: builder where
  "sample_builder = toFolder sample_folder new_LapolCompilerBuilder"

definition html_added_later :: "lapol_compiler result \<times> load_state \<Rightarrow> bool" where
  "html_added_later x \<longleftrightarrow> (case x of (r, s) \<Rightarrow> \<not> isl r \<and>
     map fst (modules_of (snd (build_from (withTargets [js ''html''] sample_builder) s))) =
       [js ''std::core'', js ''std::core::html_output''])"

lemma sample_build: "html_added_later (build sample_builder [])"
  by code_simp

theorem second_build_fails_witness:
  "\<exists>cc s e s'. build sample_builder [] = (Inr cc, s) \<and>
    build_from (withTargets [js ''html''] sample_builder) s = (Inl e, s') \<and>
    map fst (reg_modules (ls_registry s')) = [js ''std::core'', js ''std::core::html_output'']"
proof -
  let ?b = "withTargets [js ''html''] sample_builder"
  obtain r s where "build sample_builder [] = (r, s)" by fastforce
  moreover with sample_build obtain cc where "r = Inr cc" by (cases r) (auto simp: html_added_later_def)
  ultimately have first: "build sample_builder [] = (Inr cc, s)" by simp
  have "b_thunks ?b = b_thunks sample_builder" and "b_thunks sample_builder \<noteq> []"
    by (simp_all add: sample_builder_def toFolder_def withTargets_def withModule_def new_LapolCompilerBuilder_def)
  with second_build_fails [OF first, of ?b] obtain e s' where "build_from ?b s = (Inl e, s')" by auto
  with first sample_build show ?thesis by (simp add: html_added_later_def)
qed

end
