(* ===== verification/StdOutput.thy ===== *)
theory StdOutput
  imports Output StdModules
begin

text \<open>
  Which outputter the dispatcher finds for each tag when the standard modules are loaded
  (\<^verbatim>\<open>internal/out/dispatcher.ts\<close> on the declarations of \<^verbatim>\<open>std\<close>).
\<close>

section \<open>Searching the loaded modules\<close>

fun spec_outputter :: "jstr \<Rightarrow> jstr \<Rightarrow> module_spec \<Rightarrow> node_outputter option" where
  "spec_outputter target tag (name, cmds, st, outs, provs) =
     (case jmap_get outs target of None \<Rightarrow> None | Some m \<Rightarrow> jmap_get m tag)"

fun spec_provider :: "jstr \<Rightarrow> module_spec \<Rightarrow> string_provider option" where
  "spec_provider target (name, cmds, st, outs, provs) = jmap_get provs target"

lemma spec_module_outputter [simp]:
  "getLtrfNodeOutputter_mod (snd (spec_module a spec)) target tag = spec_outputter target tag spec"
  by (cases spec) (simp add: getLtrfNodeOutputter_mod_def)

lemma spec_module_provider [simp]:
  "getStringOutputterProvider (snd (spec_module a spec)) target = spec_provider target spec"
  by (cases spec) (simp add: getStringOutputterProvider_def)

lemma found_specs:
  "found_in_modules \<lparr>reg_targetNames = ts, reg_modules = spec_modules a specs\<rparr> f =
    List.map_filter (\<lambda>(k, m). f m) (spec_modules a specs)"
  by (simp add: found_in_modules_eq)

lemma map_filter_specs:
  "(\<And>a spec. f (snd (spec_module a spec)) = g spec) \<Longrightarrow>
   List.map_filter (\<lambda>(k, m). f m) (spec_modules a specs) = List.map_filter g specs"
  by (induction specs arbitrary: a)
    (simp_all add: map_filter_Cons map_filter_simps(2) split_beta split: option.split)

lemma found_std:
  "found_in_modules (std_registry ts) (\<lambda>v. getLtrfNodeOutputter_mod v target tag) =
     List.map_filter (spec_outputter target tag) (std_specs ts)"
  "found_in_modules (std_registry ts) (\<lambda>v. getStringOutputterProvider v target) =
     List.map_filter (spec_provider target) (std_specs ts)"
  by (simp_all add: std_registry_def found_specs map_filter_specs [where g = "spec_outputter target tag"]
      map_filter_specs [where g = "spec_provider target"])

section \<open>The outputters of the standard modules\<close>

definition html_table :: "node_outputter jmap" where
  "html_table =
     [(js ''__root'', HtmlRootOutputter), tag_outputter ''__doc'' ''div'', tag_outputter ''__p'' ''p'',
      (js ''maketitle'', HtmlMaketitleOutputter), tag_outputter ''sec'' ''h2'',
      tag_outputter ''subsec'' ''h3'', tag_outputter ''subsubsec'' ''h4'',
      tag_outputter ''bold'' ''b'', tag_outputter ''italic'' ''i'',
      tag_outputter ''bquot'' ''blockquote'', tag_outputter ''marginnote'' ''aside'']"

definition latex_table :: "node_outputter jmap" where
  "latex_table =
     [(js ''__root'', LatexRootOutputter), (js ''__doc'', LatexParaOutputter),
      (js ''__p'', LatexParaOutputter),
      (js ''maketitle'', LatexNoCurlyCommandOutputter (js ''maketitle'')),
      tex_outputter ''sec'' ''section'', tex_outputter ''subsec'' ''subsection'',
      tex_outputter ''subsubsec'' ''subsubsection'', tex_outputter ''bold'' ''textbf'',
      tex_outputter ''italic'' ''textit'',
      (js ''bquot'', LatexBlockOutputter (js ''lapoldefaultblockquote'')),
      tex_outputter ''marginnote'' ''lapoldefaultaside'']"

text \<open>The first three entries come from \<^verbatim>\<open>std::core\<close>, the others from \<^verbatim>\<open>std::main\<close>.\<close>

lemma get_single:
  "jmap_get [(k, v)] t = (if t = k then Some v else None)" "jmap_get [] t = None"
  by simp_all

lemma spec_outputters:
  "spec_outputter t tag core_spec = None" "spec_outputter t tag main_spec = None"
  "spec_outputter t tag core_html_spec = (if t = html then jmap_get (take 3 html_table) tag else None)"
  "spec_outputter t tag main_html_spec = (if t = html then jmap_get (drop 3 html_table) tag else None)"
  "spec_outputter t tag core_latex_spec = (if t = latex then jmap_get (take 3 latex_table) tag else None)"
  "spec_outputter t tag main_latex_spec = (if t = latex then jmap_get (drop 3 latex_table) tag else None)"
  by (simp_all add: core_spec_def main_spec_def core_html_spec_def main_html_spec_def
      core_latex_spec_def main_latex_spec_def html_table_def latex_table_def get_single
      del: map_of.simps)

lemma spec_providers:
  "spec_provider t core_spec = None" "spec_provider t main_spec = None"
  "spec_provider t core_html_spec = None" "spec_provider t core_latex_spec = None"
  "spec_provider t main_html_spec = (if t = html then Some HtmlStringOutputter else None)"
  "spec_provider t main_latex_spec = (if t = latex then Some LatexStringOutputter else None)"
  by (simp_all add: core_spec_def main_spec_def core_html_spec_def main_html_spec_def
      core_latex_spec_def main_latex_spec_def)

lemma html_not_latex: "html \<noteq> latex" "latex \<noteq> html"
  by (simp_all add: html_def latex_def)

definition std_table :: "jstr \<Rightarrow> node_outputter jmap" where
  "std_table target = (if target = html then html_table else if target = latex then latex_table else [])"

definition std_strings_of :: "jstr \<Rightarrow> string_provider" where
  "std_strings_of target = (if target = html then HtmlStringOutputter else LatexStringOutputter)"

lemma table_split:
  "distinct (map fst xs) \<Longrightarrow> (case jmap_get (take n xs) t of None \<Rightarrow> [] | Some p \<Rightarrow> [p]) @
    (case jmap_get (drop n xs) t of None \<Rightarrow> [] | Some p \<Rightarrow> [p]) =
    (case jmap_get xs t of None \<Rightarrow> [] | Some p \<Rightarrow> [p])"
proof -
  assume distinct: "distinct (map fst xs)"
  have "jmap_get xs t = jmap_get (take n xs @ drop n xs) t" by simp
  also have "\<dots> = (case jmap_get (take n xs) t of None \<Rightarrow> jmap_get (drop n xs) t | Some p \<Rightarrow> Some p)"
    by (simp only: map_of_append map_add_def)
  finally have get: "jmap_get xs t = \<dots>" .
  have "set (map fst (take n xs)) \<inter> set (map fst (drop n xs)) = {}"
    using distinct distinct_append [of "map fst (take n xs)" "map fst (drop n xs)"]
    by (metis append_take_drop_id map_append)
  then have "jmap_get (take n xs) t = None \<or> jmap_get (drop n xs) t = None"
    by (auto simp: map_of_eq_None_iff)
  with get show ?thesis by (auto split: option.split)
qed

lemma tables_distinct: "distinct (map fst html_table)" "distinct (map fst latex_table)"
  by (simp_all add: html_table_def latex_table_def tag_outputter_def tex_outputter_def)

lemma found_std_table:
  assumes "target \<in> set ts" and "target = html \<or> target = latex"
  shows "List.map_filter (spec_outputter target tag) (std_specs ts) =
    (case jmap_get (std_table target) tag of None \<Rightarrow> [] | Some p \<Rightarrow> [p])"
    and "List.map_filter (spec_provider target) (std_specs ts) = [std_strings_of target]"
  using assms table_split [OF tables_distinct(1), of 3 tag] table_split [OF tables_distinct(2), of 3 tag]
  by (auto simp: std_specs_def map_filter_Cons spec_outputters spec_providers
      html_not_latex std_table_def std_strings_of_def map_filter_simps(2) split: option.splits)

lemma std_retrieve:
  assumes "target \<in> set ts" and "target = html \<or> target = latex"
  shows "retreiveNodeOutputterForTag (std_registry ts) target tag =
    (case jmap_get (std_table target) tag of
       None \<Rightarrow> Inl (OutputError (NoNodeOutputter target tag))
     | Some p \<Rightarrow> Inr p)"
    and "retreiveStringOutputterProvider (std_registry ts) target = Inr (std_strings_of target)"
  using found_std_table [OF assms]
  by (auto simp: retreiveNodeOutputterForTag_def retreiveStringOutputterProvider_def found_std
      split: option.split)

lemma std_html_retrieve:
  "html \<in> set ts \<Longrightarrow> retreiveNodeOutputterForTag (std_registry ts) html tag =
    (case jmap_get html_table tag of
       None \<Rightarrow> Inl (OutputError (NoNodeOutputter html tag))
     | Some p \<Rightarrow> Inr p)"
  using std_retrieve(1) [of html ts tag] by (simp add: std_table_def)

lemma std_latex_retrieve:
  "latex \<in> set ts \<Longrightarrow> retreiveNodeOutputterForTag (std_registry ts) latex tag =
    (case jmap_get latex_table tag of
       None \<Rightarrow> Inl (OutputError (NoNodeOutputter latex tag))
     | Some p \<Rightarrow> Inr p)"
  using std_retrieve(1) [of latex ts tag] by (simp add: std_table_def html_not_latex)

section \<open>What each tag is output with\<close>

text \<open>The tags that the passes and the standard commands make.\<close>

definition std_tags :: "jstr set" where
  "std_tags = {js ''__root'', js ''__doc'', js ''__p'', js ''maketitle'', js ''sec'', js ''subsec'',
     js ''subsubsec'', js ''bold'', js ''italic'', js ''bquot'', js ''marginnote''}"

lemma tables_cover: "set (map fst html_table) = std_tags" "set (map fst latex_table) = std_tags"
  by (simp_all add: html_table_def latex_table_def tag_outputter_def tex_outputter_def std_tags_def)

text \<open>
  C30: once the standard modules are loaded for the targets \<open>ts\<close>, a dispatcher can be made for
  each of their two targets among \<open>ts\<close>, and it finds an outputter for a tag exactly if the tag is one of the
  eleven that the passes and the standard commands make; every other tag is the error that
  names it.  The two targets support the same tags.
\<close>

theorem std_tags_dispatch:
  assumes "target \<in> set ts" and "target = html \<or> target = latex"
  shows "makeOutputDispatcher (std_registry ts) target = Inr ([], std_strings_of target) \<and>
    (if tag \<in> std_tags
     then \<exists>p. retreiveNodeOutputterForTag (std_registry ts) target tag = Inr p
     else retreiveNodeOutputterForTag (std_registry ts) target tag =
       Inl (OutputError (NoNodeOutputter target tag)))"
proof -
  have "tag \<in> std_tags \<longleftrightarrow> (\<exists>p. jmap_get (std_table target) tag = Some p)"
    using assms(2) tables_cover by (auto simp: std_table_def html_not_latex map_of_eq_None_iff
        simp flip: not_None_eq)
  with std_retrieve [OF assms] show ?thesis
    by (auto simp: makeOutputDispatcher_def)
qed

theorem std_tags_dispatch_witness:
  "makeOutputDispatcher (std_registry [html, latex]) latex = Inr ([], LatexStringOutputter) \<and>
    retreiveNodeOutputterForTag (std_registry [html, latex]) latex (js ''x'') =
      Inl (OutputError (NoNodeOutputter latex (js ''x'')))"
  using std_tags_dispatch [of latex "[html, latex]" "js ''x''"]
  by (simp add: std_tags_def std_strings_of_def html_not_latex)

end
