(* ===== verification/HtmlOutput.thy ===== *)
theory HtmlOutput
  imports StdOutput
begin

text \<open>
  What the standard modules output for the target \<^verbatim>\<open>html\<close>: the form of the code.
\<close>

section \<open>Well-formed html\<close>

text \<open>Text without markup, and the name of an element.\<close>

definition plain_text :: "jstr \<Rightarrow> bool" where
  "plain_text s \<longleftrightarrow> set (js ''<>'') \<inter> set s = {}"

definition element_name :: "jstr \<Rightarrow> bool" where
  "element_name t \<longleftrightarrow> t \<noteq> [] \<and> set (js ''<> /'') \<inter> set t = {}"

text \<open>
  Code in which every element that is opened is closed again, in the right order.  The second
  argument of an opening tag is what stands between the name and the bracket.
\<close>

inductive html_code :: "jstr \<Rightarrow> bool" where
  html_text: "plain_text t \<Longrightarrow> html_code t"
| html_append: "html_code s \<Longrightarrow> html_code t \<Longrightarrow> html_code (s @ t)"
| html_empty_element: "element_name t \<Longrightarrow> plain_text a \<Longrightarrow> html_code (js ''<'' @ t @ js '' '' @ a @ js ''/>'')"
| html_void_element: "t \<in> {js ''meta'', js ''link''} \<Longrightarrow> plain_text a \<Longrightarrow>
    html_code (js ''<'' @ t @ js '' '' @ a @ js ''>'')"
| html_element: "element_name t \<Longrightarrow> plain_text a \<Longrightarrow> a = [] \<or> hd a \<in> set (js '' '') \<Longrightarrow> html_code s \<Longrightarrow>
    html_code (js ''<'' @ t @ a @ js ''>'' @ s @ js ''</'' @ t @ js ''>'')"

lemma plain_text_append [simp]: "plain_text (s @ t) \<longleftrightarrow> plain_text s \<and> plain_text t"
  by (auto simp: plain_text_def)

lemma plain_text_js [simp]:
  "plain_text (js s) \<longleftrightarrow> CHR ''<'' \<notin> set s \<and> CHR ''>'' \<notin> set s"
  by (simp add: plain_text_def js_disjoint)

lemma element_name_js [simp]: "element_name (js t) \<longleftrightarrow> t \<noteq> [] \<and> CHR ''<'' \<notin> set t \<and>
    CHR ''>'' \<notin> set t \<and> CHR '' '' \<notin> set t \<and> CHR ''/'' \<notin> set t"
  by (auto simp: element_name_def js_disjoint)

lemma space_js: "space = js '' ''"
  by (simp add: space_def js_def)

lemma plain_text_Nil [simp]: "plain_text []"
  by (simp add: plain_text_def)

lemma html_concat: "list_all html_code ss \<Longrightarrow> html_code (concat ss)"
  by (induction ss) (auto intro: html_text html_append)

text \<open>An element whose name and attributes are literals.\<close>

lemma html_literal:
  assumes "element_name (js t)" and "plain_text (js a)" and "a = [] \<or> hd a = CHR '' ''"
    and "html_code s"
  shows "html_code (js (CHR ''<'' # t @ a @ ''>'') @ s @ js (''</'' @ t @ ''>''))"
proof -
  have "js a = [] \<or> hd (js a) \<in> set (js '' '')"
    using assms(3) by (cases a) (auto simp: js_def)
  from html_element [OF assms(1,2) this assms(4)] show ?thesis
    by (simp add: js_def)
qed

section \<open>The output is well formed\<close>

definition plain_attributes :: "(jstr \<times> jstr) list \<Rightarrow> bool" where
  "plain_attributes as \<longleftrightarrow> list_all (\<lambda>(a, v). plain_text a \<and> plain_text v) as"

lemma plain_attr_entries: "plain_attributes as \<Longrightarrow> plain_text (attr_entries as)"
proof -
  have "list_all plain_text ss \<Longrightarrow> plain_text (join_space ss)" for ss
    by (induction ss rule: join_space.induct) (auto simp: space_js)
  moreover have "plain_attributes as \<Longrightarrow>
      list_all plain_text (map (\<lambda>(attr, val). attr @ js ''=\"'' @ val @ js ''\"'') as)"
    by (auto simp: plain_attributes_def list_all_iff)
  ultimately show "plain_attributes as \<Longrightarrow> plain_text (attr_entries as)"
    by (simp add: attr_entries_def)
qed

fun html_outputter :: "node_outputter \<Rightarrow> bool" where
  "html_outputter HtmlRootOutputter = True"
| "html_outputter HtmlMaketitleOutputter = True"
| "html_outputter (HtmlTagOutputter t as) = (element_name t \<and> plain_attributes as)"
| "html_outputter _ = False"

text \<open>
  \<open>html_output\<close> is a context that outputs html: what \<^verbatim>\<open>he\<close> encodes contains no angle
  brackets, which the strict mode of the package guarantees, and every outputter makes elements.
\<close>

definition html_output :: "out_ctx \<Rightarrow> bool" where
  "html_output c \<longleftrightarrow> oc_strings c = HtmlStringOutputter \<and>
     (\<forall>s t. oc_heEncode c s = Inr t \<longrightarrow> plain_text t) \<and>
     (\<forall>n p. outputter_of c n = Inr p \<longrightarrow> html_outputter p)"

lemma elems_html:
  "(\<And>x. outs.yields c st html_code (rec x)) \<Longrightarrow> outs.yields c st html_code (output_elems rec es)"
  unfolding output_elems_def composeOutput_def
  by (rule outs.yields_bind [OF outs.yields_map]) (auto intro!: outs.yields_return html_concat)

lemma html_tag_html:
  assumes "html_outputter (HtmlTagOutputter t as)" and "html_code cs"
  shows "html_code (js ''<'' @ t @ js '' '' @ attr_entries as @ js ''/>'')"
    and "html_code (js ''<'' @ t @ js '' '' @ attr_entries as @ js ''>'' @ cs @ js ''</'' @ t @ js ''>'')"
proof -
  from assms(1) have t: "element_name t" and a: "plain_text (attr_entries as)"
    by (simp_all add: plain_attr_entries)
  show "html_code (js ''<'' @ t @ js '' '' @ attr_entries as @ js ''/>'')"
    using t a by (rule html_empty_element)
  have "plain_text (js '' '' @ attr_entries as)" using a by simp
  moreover have "hd (js '' '' @ attr_entries as) \<in> set (js '' '')" by (simp add: js_def)
  ultimately show "html_code (js ''<'' @ t @ js '' '' @ attr_entries as @ js ''>'' @ cs @ js ''</'' @ t @ js ''>'')"
    using html_element [of t "js '' '' @ attr_entries as" cs] t assms(2) by simp
qed

lemma maketitle_html:
  assumes "html_code t" and "html_code a"
  shows "html_code (js ''<header>'' @ js ''<h1 class=\"title\">'' @ t @ js ''</h1>'' @
    js ''<p class=\"subtitle\">'' @ a @ js ''</p>'' @ js ''</header>'')"
proof -
  have title: "html_code (js ''<h1 class=\"title\">'' @ t @ js ''</h1>'')"
    using html_literal [of "''h1''" "'' class=\"title\"''" t] assms(1) by simp
  have subtitle: "html_code (js ''<p class=\"subtitle\">'' @ a @ js ''</p>'')"
    using html_literal [of "''p''" "'' class=\"subtitle\"''" a] assms(2) by simp
  show ?thesis
    using html_literal [of "''header''" "[]", OF _ _ _ html_append [OF title subtitle]]
    by (simp add: js_append_assoc)
qed

lemma root_html:
  assumes "html_code cs"
  shows "html_code (
    js ''<html><head><meta charset=\"utf-8\">'' @
    js ''<link rel=\"stylesheet\" href=\"deps/hello-css-all.css\">'' @
    js ''<link rel=\"stylesheet\" href=\"deps/lapol-default.css\">'' @
    js ''</head><body><article class=\"page\">'' @ cs @ js ''</article></body></html>'')"
proof -
  let ?meta = "js ''<meta charset=\"utf-8\">''"
    and ?hello = "js ''<link rel=\"stylesheet\" href=\"deps/hello-css-all.css\">''"
    and ?lapol = "js ''<link rel=\"stylesheet\" href=\"deps/lapol-default.css\">''"
  have "html_code ?meta"
    using html_void_element [of "js ''meta''" "js ''charset=\"utf-8\"''"] by simp
  moreover have "html_code ?hello"
    using html_void_element [of "js ''link''"
        "js ''rel=\"stylesheet\" href=\"deps/hello-css-all.css\"''"] by simp
  moreover have "html_code ?lapol"
    using html_void_element [of "js ''link''"
        "js ''rel=\"stylesheet\" href=\"deps/lapol-default.css\"''"] by simp
  ultimately have "html_code (?meta @ ?hello @ ?lapol)" by (intro html_append)
  then have head: "html_code (js ''<head>'' @ (?meta @ ?hello @ ?lapol) @ js ''</head>'')"
    using html_literal [of "''head''" "[]" "?meta @ ?hello @ ?lapol"] by simp
  have "html_code (js ''<article class=\"page\">'' @ cs @ js ''</article>'')"
    using html_literal [of "''article''" "'' class=\"page\"''" cs] assms by simp
  then have body: "html_code (js ''<body>'' @ (js ''<article class=\"page\">'' @ cs @
      js ''</article>'') @ js ''</body>'')"
    using html_literal [of "''body''" "[]" "js ''<article class=\"page\">'' @ cs @ js ''</article>''"]
    by simp
  show ?thesis
    using html_literal [of "''html''" "[]", OF _ _ _ html_append [OF head body]]
    by (simp add: js_append_assoc)
qed

lemma run_outputter_html:
  assumes "html_outputter p" and rec: "\<And>x. outs.yields c st html_code (rec x)"
  shows "outs.yields c st html_code (run_outputter c rec p n)"
proof -
  note elems = elems_html [OF rec]
  show ?thesis
  proof (cases p)
    case HtmlRootOutputter
    then show ?thesis
      by (auto simp: html_root_def simp del: js_append
          intro!: outs.yields_bind [OF outs.safe_yields [OF require_safe]]
            outs.yields_bind [OF elems] outs.yields_return root_html)
  next
    case (HtmlTagOutputter t as)
    with assms(1) show ?thesis
      by (auto simp: html_tag_def Let_def simp del: html_outputter.simps js_append
          intro!: outs.yields_bind [OF elems] outs.yields_return html_tag_html(2)
            html_tag_html(1) [OF _ html_text [of "[]"]])
  next
    case HtmlMaketitleOutputter
    then show ?thesis
      by (auto simp: html_maketitle_def is_new_array_def simp del: js_append
          intro!: outs.yields_bind [OF outs.safe_yields [OF main_store_safe]]
            outs.yields_bind [OF outs.safe_yields [OF js_defined_safe]]
            outs.yields_bind [OF elems] outs.yields_return maketitle_html)
  qed (use assms(1) in simp_all)
qed

lemma output_html:
  assumes "html_output c"
  shows "outs.yields c st html_code (outputLtrfObj fuel c x)"
proof (induction fuel arbitrary: x)
  case 0
  show ?case by (rule outs.yieldsI) simp
next
  case (Suc fuel)
  show ?case
  proof (cases x)
    case (LtrfStr s)
    with assms show ?thesis
      by (auto simp: html_output_def getDefaultLtrfStrOutputter_def string_default_def
          html_string_default_def intro!: outs.yields_lift html_text)
  next
    case (Nd n)
    have "outs.yields c st html_code (run_outputter c (outputLtrfObj fuel c) p n)"
      if "outputter_of c n = Inr p" for p
      by (rule run_outputter_html) (use assms that Suc in \<open>auto simp: html_output_def\<close>)
    then show ?thesis
      by (auto simp: Nd intro!: outs.yields_bind [OF dispatch_yields])
  qed
qed

text \<open>
  C18: html output is well formed.  Whatever the document, if the pass returns, every element in
  the code it returns that is opened is closed, in the right order, and text contains no
  angle brackets.
\<close>

theorem html_well_formed:
  assumes "html_output c" and "cache_ok c s" and "outputPass fuel c n s = Some (Inr (code, s'))"
  shows "html_code code"
  using outs.yieldsD [where st = "os_storage s" and s = s, OF output_html [OF assms(1)]] assms(2,3)
  by (auto simp: outputPass_def)

text \<open>
  A document without a title and an author gets a header with an empty heading and an empty
  subtitle: the test for a missing author, \<^verbatim>\<open>author === []\<close>, never succeeds.
\<close>

lemma html_empty_author_has_subtitle:
  assumes "getFileModuleStorage (os_storage s) main_name = Inr st"
    and "store_title st = Some []" and "store_author st = Some []"
  shows "html_maketitle rec n s = Some (Inr (js
    ''<header><h1 class=\"title\"></h1><p class=\"subtitle\"></p></header>'', s))"
  using assms
  by (simp add: html_maketitle_def out_getFileModuleStorage_def act_bind_def act_simps js_defined_def
      output_elems_def composeOutput_def is_new_array_def)

section \<open>Required files\<close>

lemma require_yields:
  assumes "cache_ok c s" and "require_from_folder c deps s = Some (Inr (u, s'))"
    and "(src, tgt) \<in> set deps"
  shows "\<exists>folder. oc_lapolFolder c = Some folder \<and>
    file_source (os_files s') (lib_normalize (native_lib (oc_paths c)) tgt) =
      Some (lp_fullPath (lapol_file c folder src))"
proof -
  from assms(2) obtain folder where folder: "oc_lapolFolder c = Some folder"
    and "on_files (\<lambda>fs. require_all (oc_paths c) fs
      (map (\<lambda>(src, tgt). (lapol_file c folder src, tgt)) deps)) s = Some (Inr (u, s'))"
    by (auto simp: require_from_folder_def act_Inr_iffs getLapolFolder_def split: option.splits)
  then have "require_all (oc_paths c) (os_files s)
      (map (\<lambda>(src, tgt). (lapol_file c folder src, tgt)) deps) = Inr (os_files s')"
    by (auto simp: on_files_Inr)
  from require_all_source [OF this] assms(3) folder show ?thesis by force
qed

text \<open>A link to a style sheet, in the head of a page.\<close>

definition link_tag :: "jstr \<Rightarrow> jstr" where
  "link_tag href = js ''<link rel=\"stylesheet\" href=\"'' @ href @ js ''\">''"

lemma link_tags:
  "js ''<link rel=\"stylesheet\" href=\"deps/hello-css-all.css\">'' = link_tag (js ''deps/hello-css-all.css'')"
  "js ''<link rel=\"stylesheet\" href=\"deps/lapol-default.css\">'' = link_tag (js ''deps/lapol-default.css'')"
  by code_simp+

lemma head_end: "js ''</head><body><article class=\"page\">'' = js ''</head>'' @ js ''<body><article class=\"page\">''"
  by code_simp

lemma stylesheet_targets:
  "js ''./deps/hello-css-all.css'' = js ''./'' @ js ''deps/hello-css-all.css''"
  "js ''./deps/lapol-default.css'' = js ''./'' @ js ''deps/lapol-default.css''"
  by code_simp+

text \<open>
  C33: no style sheet is missing.  The head of the html code that the output pass returns for a
  root links to at least one style sheet, and to each of them by a name that, taken from the output
  folder, is the target of a required file: one that the rendering copies there, and that comes from the
  installation.  This holds for the path functions of any operating system.
\<close>

theorem html_stylesheets_required:
  assumes "html_output c" and "cache_ok c s" and "outputter_of c n = Inr HtmlRootOutputter"
    and "outputPass (Suc fuel) c n s = Some (Inr (code, s'))"
  shows "\<exists>folder hrefs rest. oc_lapolFolder c = Some folder \<and> hrefs \<noteq> [] \<and>
    code = js ''<html><head><meta charset=\"utf-8\">'' @ concat (map link_tag hrefs) @ js ''</head>'' @ rest \<and>
    (\<forall>href \<in> set hrefs. \<exists>src.
      file_source (os_files s') (lib_normalize (native_lib (oc_paths c)) (js ''./'' @ href)) =
        Some (lp_fullPath (lapol_file c folder src)))"
proof -
  let ?rec = "outputLtrfObj fuel c" and ?deps = "HTML_DEFAULT_DEPS @
    map (\<lambda>font. (js ''deps/hello-css/fonts/'' @ font, js ''./deps/fonts/'' @ font)) DEFAULT_FONTS"
  let ?hrefs = "[js ''deps/hello-css-all.css'', js ''deps/lapol-default.css'']"
  from assms(4) obtain p s1 where disp: "getLtrfNodeOutputter c n s = Some (Inr (p, s1))"
    and run: "run_outputter c ?rec p n s1 = Some (Inr (code, s'))"
    by (auto simp: outputPass_def act_Inr_iffs)
  from dispatch_Inr [OF assms(2) disp] assms(3) have p: "p = HtmlRootOutputter" and ok: "cache_ok c s1"
    by (simp_all add: outputter_of_def)
  from run obtain s2 cs where req: "require_from_folder c ?deps s1 = Some (Inr ((), s2))"
    and elems: "output_elems ?rec (node_elems n) s2 = Some (Inr (cs, s'))"
    and code: "code = js ''<html><head><meta charset=\"utf-8\">'' @
      js ''<link rel=\"stylesheet\" href=\"deps/hello-css-all.css\">'' @
      js ''<link rel=\"stylesheet\" href=\"deps/lapol-default.css\">'' @
      js ''</head><body><article class=\"page\">'' @ cs @ js ''</article></body></html>''"
    by (auto simp: p html_root_def act_Inr_iffs simp del: js_append)
  from outs.yieldsD [where st = "os_storage s1", OF outs.safe_yields [OF require_safe] _ req] ok
  have "cache_ok c s2" by simp
  with outs.yieldsD [where st = "os_storage s2", OF elems_html [OF output_html [OF assms(1)]] _ elems]
  have grow: "files_grow s2 s'" by simp
  have "(js ''deps/hello-css/dist/all.css'', js ''./deps/hello-css-all.css'') \<in> set ?deps"
    and "(js ''deps-lapol/lapol-default.css'', js ''./deps/lapol-default.css'') \<in> set ?deps"
    by (simp_all add: HTML_DEFAULT_DEPS_def)
  note sources = require_yields [OF ok req this(1)] require_yields [OF ok req this(2)]
  then obtain folder where folder: "oc_lapolFolder c = Some folder" by blast
  have "\<exists>src. file_source (os_files s') (lib_normalize (native_lib (oc_paths c)) (js ''./'' @ href)) =
      Some (lp_fullPath (lapol_file c folder src))" if "href \<in> set ?hrefs" for href
    using that sources folder grow unfolding stylesheet_targets files_grow_def by fastforce
  moreover have "code = js ''<html><head><meta charset=\"utf-8\">'' @ concat (map link_tag ?hrefs) @
      js ''</head>'' @ js ''<body><article class=\"page\">'' @ cs @ js ''</article></body></html>''"
    unfolding code link_tags head_end by simp
  ultimately show ?thesis using folder by blast
qed

section \<open>Witnesses\<close>

text \<open>
  The standard modules with the target html, an installation in \<^verbatim>\<open>/lapol\<close>, and an encoder that
  drops the angle brackets.
\<close>

definition sample_encode :: "jstr \<Rightarrow> jstr result" where
  "sample_encode s = Inr (filter (\<lambda>c. c \<notin> set (js ''<>'')) s)"

definition sample_out_ctx :: out_ctx where
  "sample_out_ctx = \<lparr>oc_registry = std_registry [html], oc_target = html,
     oc_strings = HtmlStringOutputter,
     oc_lapolFolder = Some (new_LaPath sample_libs (js ''/lapol'') None), oc_paths = sample_libs,
     oc_heEncode = sample_encode, oc_user = no_user_outputters\<rparr>"

definition sample_out_state :: out_state where
  "sample_out_state = \<lparr>os_lazyNodeOutputters = [], os_files = [],
     os_storage = [(main_name, main_instance)]\<rparr>"

lemma sample_outputter_of:
  "outputter_of sample_out_ctx n = (case jmap_get html_table (node_tag n) of
     None \<Rightarrow> Inl (OutputError (NoNodeOutputter html (node_tag n))) | Some p \<Rightarrow> Inr p)"
  by (simp add: outputter_of_def sample_out_ctx_def std_html_retrieve)

lemma html_table_outputters: "list_all (\<lambda>(t, p). html_outputter p) html_table"
  by (simp add: html_table_def tag_outputter_def plain_attributes_def)

lemma sample_html: "html_output sample_out_ctx"
proof -
  have "html_outputter p" if "jmap_get html_table t = Some p" for t p
    using html_table_outputters map_of_SomeD [OF that] by (auto simp: list_all_iff)
  then show ?thesis
    by (auto simp: html_output_def sample_outputter_of split: option.splits)
      (auto simp: sample_out_ctx_def sample_encode_def plain_text_def)
qed

text \<open>A root with one paragraph, and what it becomes.\<close>

definition sample_page :: ltrf_node where
  "sample_page = LtrfNode (js ''__root'') []
     [Nd (LtrfNode (js ''__doc'') [] [Nd (LtrfNode (js ''__p'') [] [LtrfStr (js ''a<b'')])])]"

lemma sample_requires:
  "case require_from_folder sample_out_ctx (HTML_DEFAULT_DEPS @
      map (\<lambda>font. (js ''deps/hello-css/fonts/'' @ font, js ''./deps/fonts/'' @ font)) DEFAULT_FONTS)
      (sample_out_state\<lparr>os_lazyNodeOutputters := cache\<rparr>) of
     Some (Inr _) \<Rightarrow> True | _ \<Rightarrow> False"
  by code_simp

lemma sample_retrieve:
  "retreiveNodeOutputterForTag (oc_registry sample_out_ctx) (oc_target sample_out_ctx) tag =
    (case jmap_get html_table tag of
       None \<Rightarrow> Inl (OutputError (NoNodeOutputter html tag))
     | Some p \<Rightarrow> Inr p)"
  by (simp add: sample_out_ctx_def std_html_retrieve)

lemma sample_page_run:
  "\<exists>s'. outputPass (Suc 3) sample_out_ctx sample_page sample_out_state = Some (Inr (
     js ''<html><head><meta charset=\"utf-8\"><link rel=\"stylesheet\" href=\"deps/hello-css-all.css\"><link rel=\"stylesheet\" href=\"deps/lapol-default.css\"></head><body><article class=\"page\"><div ><p >ab</p></div></article></body></html>'', s'))"
proof -
  let ?cache = "[(js ''__root'', HtmlRootOutputter)]"
  obtain s2 where req: "require_from_folder sample_out_ctx (HTML_DEFAULT_DEPS @
      map (\<lambda>font. (js ''deps/hello-css/fonts/'' @ font, js ''./deps/fonts/'' @ font)) DEFAULT_FONTS)
      (sample_out_state\<lparr>os_lazyNodeOutputters := ?cache\<rparr>) = Some (Inr ((), s2))"
    using sample_requires [of ?cache] by (auto split: option.splits sum.splits)
  then have cache: "os_lazyNodeOutputters s2 = ?cache"
    by (auto simp: require_from_folder_def act_Inr_iffs on_files_Inr)
  have enc: "oc_strings sample_out_ctx = HtmlStringOutputter"
    "oc_heEncode sample_out_ctx (js ''a<b'') = Inr (js ''ab'')"
    by (simp_all add: sample_out_ctx_def sample_encode_def js_def)
  show ?thesis
    using req cache enc
    by (simp add: outputPass_def sample_page_def numeral_3_eq_3 act_bind_def act_simps
        getLtrfNodeOutputter_def sample_retrieve html_table_def tag_outputter_def html_root_def
        html_tag_def output_elems_def composeOutput_def getDefaultLtrfStrOutputter_def
        string_default_def html_string_default_def attr_entries_def sample_out_state_def)
qed

theorem html_well_formed_witness:
  "\<exists>code s'. outputPass (Suc 3) sample_out_ctx sample_page sample_out_state = Some (Inr (code, s')) \<and>
     html_code code"
proof -
  obtain code s' where run: "outputPass (Suc 3) sample_out_ctx sample_page sample_out_state =
      Some (Inr (code, s'))"
    using sample_page_run by blast
  from html_well_formed [OF sample_html _ run] run show ?thesis
    by (auto simp: sample_out_state_def)
qed

theorem html_stylesheets_required_witness:
  "\<exists>code s' folder hrefs rest. outputPass (Suc 3) sample_out_ctx sample_page sample_out_state = Some (Inr (code, s')) \<and>
     hrefs \<noteq> [] \<and>
     code = js ''<html><head><meta charset=\"utf-8\">'' @ concat (map link_tag hrefs) @ js ''</head>'' @ rest \<and>
     (\<forall>href \<in> set hrefs. \<exists>src. file_source (os_files s') (posix_normalize (js ''./'' @ href)) =
       Some (lp_fullPath (lapol_file sample_out_ctx folder src)))"
proof -
  obtain code s' where run: "outputPass (Suc 3) sample_out_ctx sample_page sample_out_state =
      Some (Inr (code, s'))"
    using sample_page_run by blast
  have lib: "lib_normalize (native_lib (oc_paths sample_out_ctx)) = posix_normalize"
    by (simp add: sample_out_ctx_def sample_libs_def posix_def)
  have cache: "cache_ok sample_out_ctx sample_out_state"
    by (simp add: sample_out_state_def)
  have root: "outputter_of sample_out_ctx sample_page = Inr HtmlRootOutputter"
    by (simp add: sample_outputter_of sample_page_def html_table_def)
  from html_stylesheets_required [OF sample_html cache root run] run show ?thesis
    unfolding lib by blast
qed

text \<open>The termination of the output pass.\<close>

lemma sample_std_output: "std_output sample_out_ctx"
proof -
  have "list_all (\<lambda>(t, p). std_outputter p) html_table"
    by (simp add: html_table_def tag_outputter_def)
  then have "std_outputter p" if "jmap_get html_table t = Some p" for t p
    using map_of_SomeD [OF that] by (auto simp: list_all_iff)
  then show ?thesis
    by (auto simp: std_output_def sample_outputter_of split: option.splits)
      (simp add: sample_out_ctx_def)
qed

lemma sample_user_monotone: "user_monotone sample_out_ctx"
  by (simp add: user_monotone_def sample_out_ctx_def no_user_outputters_def act_le_refl)

theorem output_pass_ends_witness:
  "\<exists>r. \<forall>fuel \<ge> 5. outputPass fuel sample_out_ctx sample_page sample_out_state = Some r"
proof -
  have titles: "title_elems (os_storage sample_out_state) = []"
    by (simp add: title_elems_def sample_out_state_def main_instance_def)
  have "cache_ok sample_out_ctx sample_out_state" by (simp add: sample_out_state_def)
  from output_pass_ends [OF sample_std_output sample_user_monotone this, of sample_page] titles
  show ?thesis
    by (simp add: sample_page_def node_height_eq elems_height_def numeral_eq_Suc)
qed

theorem dispatch_cache_transparent_witness:
  "case getLtrfNodeOutputter sample_out_ctx sample_page sample_out_state of
      None \<Rightarrow> False
    | Some (Inl e) \<Rightarrow> retreiveNodeOutputterForTag (oc_registry sample_out_ctx)
        (oc_target sample_out_ctx) (node_tag sample_page) = Inl e
    | Some (Inr (p, s')) \<Rightarrow>
        retreiveNodeOutputterForTag (oc_registry sample_out_ctx) (oc_target sample_out_ctx)
          (node_tag sample_page) = Inr p \<and>
        cache_ok sample_out_ctx s' \<and> os_files s' = os_files sample_out_state \<and>
        os_storage s' = os_storage sample_out_state"
  by (rule dispatch_cache_transparent) (simp add: sample_out_state_def)

end
