(* ===== verification/LatexOutput.thy ===== *)
theory LatexOutput
  imports StdOutput
begin

text \<open>
  What the standard modules output for the target \<^verbatim>\<open>latex\<close>: the escaping of text and the form
  of the code.
\<close>

section \<open>Escaping\<close>

lemma latex_string_concat: "latex_string_default s = concat (map latex_escape_char s)"
proof -
  have "foldl (\<lambda>out c. out @ latex_escape_char c) acc s = acc @ concat (map latex_escape_char s)" for acc
    by (induction s arbitrary: acc) simp_all
  then show ?thesis by (simp add: latex_string_default_def)
qed

text \<open>
  Reading escaped text back: a backslash is followed by one of the three commands or by the
  character it stands for.
\<close>

definition strip_prefix :: "jstr \<Rightarrow> jstr \<Rightarrow> jstr option" where
  "strip_prefix p s = (if take (length p) s = p then Some (drop (length p) s) else None)"

fun latex_unescape :: "nat \<Rightarrow> jstr \<Rightarrow> jstr" where
  "latex_unescape 0 s = []"
| "latex_unescape (Suc k) [] = []"
| "latex_unescape (Suc k) (c # s) =
     (if c \<noteq> backslash then c # latex_unescape k s
      else case strip_prefix (js ''textasciitilde{}'') s of
             Some r \<Rightarrow> js ''~'' @ latex_unescape k r
           | None \<Rightarrow> (case strip_prefix (js ''textasciicircum{}'') s of
               Some r \<Rightarrow> js ''^'' @ latex_unescape k r
             | None \<Rightarrow> (case strip_prefix (js ''textbackslash{}'') s of
                 Some r \<Rightarrow> backslash # latex_unescape k r
               | None \<Rightarrow> (case s of [] \<Rightarrow> [] | d # r \<Rightarrow> d # latex_unescape k r))))"

lemma strip_prefix_append [simp]: "strip_prefix p (p @ s) = Some s"
  by (simp add: strip_prefix_def)

lemma unescape_char:
  "latex_unescape (Suc k) (latex_escape_char c @ s) = c # latex_unescape k s"
proof -
  consider "[c] \<in> {js ''&'', js ''%'', js ''$'', js ''#'', js ''_'', js ''{'', js ''}''}"
    | "[c] = js ''~''" | "[c] = js ''^''" | "c = backslash"
    | "[c] \<notin> {js ''&'', js ''%'', js ''$'', js ''#'', js ''_'', js ''{'', js ''}'', js ''~'', js ''^''}"
      "c \<noteq> backslash"
    by blast
  then show ?thesis
  proof cases
    case 1
    then show ?thesis
      by (auto simp: latex_escape_char_def strip_prefix_def js_def)
  next
    case 2
    then have "latex_escape_char c = tex ''textasciitilde{}''" by (simp add: latex_escape_char_def)
    with 2 show ?thesis by (simp add: tex_def)
  next
    case 3
    then have "latex_escape_char c = tex ''textasciicircum{}''" by (simp add: latex_escape_char_def)
    moreover have "strip_prefix (js ''textasciitilde{}'') (js ''textasciicircum{}'' @ s) = None"
      by (simp add: strip_prefix_def js_def)
    ultimately show ?thesis using 3 by (simp add: tex_def)
  next
    case 4
    then have "latex_escape_char c = tex ''textbackslash{}''"
      by (simp add: latex_escape_char_def js_def backslash_def)
    moreover have "strip_prefix (js ''textasciitilde{}'') (js ''textbackslash{}'' @ s) = None"
      "strip_prefix (js ''textasciicircum{}'') (js ''textbackslash{}'' @ s) = None"
      by (simp_all add: strip_prefix_def js_def)
    ultimately show ?thesis using 4 by (simp add: tex_def)
  next
    case 5
    then have "latex_escape_char c = [c]" by (simp add: latex_escape_char_def)
    with 5 show ?thesis by simp
  qed
qed

text \<open>
  C20: escaping for LaTeX loses nothing: the original text can be read back from the escaped one.
\<close>

theorem latex_escape_roundtrip:
  "latex_unescape (length s) (latex_string_default s) = s"
proof -
  have "latex_unescape (length s) (concat (map latex_escape_char s)) = s"
  proof (induction s)
    case (Cons c s)
    then show ?case by (simp only: list.map concat.simps list.size add_0_right add_Suc_right unescape_char)
  qed simp
  then show ?thesis by (simp add: latex_string_concat)
qed

section \<open>Balanced code\<close>

text \<open>
  The depth of braces while TeX reads code, with whether the last character was a backslash,
  which takes away the meaning of the next.  \<open>None\<close> is a closing brace without an opening one.
\<close>

fun brace_step :: "(bool \<times> nat) option \<Rightarrow> code_unit \<Rightarrow> (bool \<times> nat) option" where
  "brace_step None c = None"
| "brace_step (Some (esc, d)) c =
     (if esc then Some (False, d)
      else if c = backslash then Some (True, d)
      else if [c] = js ''{'' then Some (False, Suc d)
      else if [c] = js ''}'' then (if d = 0 then None else Some (False, d - 1))
      else Some (False, d))"

definition balanced :: "jstr \<Rightarrow> bool" where
  "balanced s \<longleftrightarrow> foldl brace_step (Some (False, 0)) s = Some (False, 0)"

lemma brace_step_shift:
  "brace_step (Some (b, d)) c = Some (b', d') \<Longrightarrow> brace_step (Some (b, d + k)) c = Some (b', d' + k)"
  by (auto split: if_splits)

lemma brace_fold_shift:
  "foldl brace_step (Some (b, d)) s = Some (b', d') \<Longrightarrow>
   foldl brace_step (Some (b, d + k)) s = Some (b', d' + k)"
proof (induction s arbitrary: b d)
  case (Cons c s)
  show ?case
  proof (cases "brace_step (Some (b, d)) c")
    case None
    have "foldl brace_step None s = None" by (induction s) simp_all
    with None Cons.prems show ?thesis by simp
  next
    case (Some x)
    obtain b1 d1 where x: "x = (b1, d1)" by fastforce
    with brace_step_shift [OF Some [unfolded x], of k] Cons.IH [of b1 d1] Cons.prems Some
    show ?thesis by simp
  qed
qed simp

lemma balanced_at: "balanced s \<Longrightarrow> foldl brace_step (Some (False, d)) s = Some (False, d)"
  using brace_fold_shift [of False 0 s False 0 d] by (simp add: balanced_def)

lemma balanced_append: "balanced s \<Longrightarrow> balanced t \<Longrightarrow> balanced (s @ t)"
  by (simp add: balanced_def)

lemma balanced_concat: "list_all balanced ss \<Longrightarrow> balanced (concat ss)"
  by (induction ss) (auto simp: balanced_append, simp add: balanced_def)

lemma balanced_group: "balanced s \<Longrightarrow> balanced (js ''{'' @ s @ js ''}'')"
proof -
  assume s: "balanced s"
  have "js ''{'' \<noteq> [backslash]" "js ''}'' \<noteq> [backslash]" by (simp_all add: js_def backslash_def)
  then show ?thesis using balanced_at [OF s, of 1] by (simp add: balanced_def js_def backslash_def)
qed

lemma balanced_escape: "balanced (latex_string_default s)"
proof -
  have "balanced (latex_escape_char c)" for c
    by (simp add: latex_escape_char_def balanced_def tex_def js_def backslash_def)
  then show ?thesis
    by (simp add: latex_string_concat balanced_concat list_all_iff)
qed

definition latex_name :: "jstr \<Rightarrow> bool" where
  "latex_name t \<longleftrightarrow> t \<noteq> [] \<and> set (backslash # js ''{}'') \<inter> set t = {}"

lemma balanced_neutral: "set (backslash # js ''{}'') \<inter> set t = {} \<Longrightarrow> balanced t"
proof -
  assume "set (backslash # js ''{}'') \<inter> set t = {}"
  then have "foldl brace_step (Some (False, d)) t = Some (False, d)" for d
    by (induction t) (auto simp: js_def)
  then show ?thesis by (simp add: balanced_def)
qed

lemma balanced_command: "latex_name t \<Longrightarrow> balanced (backslash # t)"
proof -
  assume t: "latex_name t"
  then obtain c r where c: "t = c # r" by (cases t) (auto simp: latex_name_def)
  with t have "balanced r" by (intro balanced_neutral) (auto simp: latex_name_def)
  with c show ?thesis by (simp add: balanced_def)
qed

lemma balanced_newline: "balanced newline"
  by (simp add: balanced_def newline_def backslash_def js_def)

fun latex_outputter :: "node_outputter \<Rightarrow> bool" where
  "latex_outputter LatexRootOutputter = True"
| "latex_outputter LatexParaOutputter = True"
| "latex_outputter (LatexNoCurlyCommandOutputter t) = latex_name t"
| "latex_outputter (LatexSingleCurlyCommandOutputter t) = latex_name t"
| "latex_outputter (LatexBlockOutputter t) = latex_name t"
| "latex_outputter _ = False"

definition latex_output :: "out_ctx \<Rightarrow> bool" where
  "latex_output c \<longleftrightarrow> oc_strings c = LatexStringOutputter \<and>
     (\<forall>n p. outputter_of c n = Inr p \<longrightarrow> latex_outputter p)"

lemma elems_latex:
  "(\<And>x. outs.yields c st balanced (rec x)) \<Longrightarrow> outs.yields c st balanced (output_elems rec es)"
  unfolding output_elems_def composeOutput_def
  by (rule outs.yields_bind [OF outs.yields_map]) (auto intro!: outs.yields_return balanced_concat)

lemma balanced_single_curly:
  "latex_name t \<Longrightarrow> balanced s \<Longrightarrow> balanced (backslash # t @ js ''{'' @ s @ js ''}'')"
  using balanced_append [OF balanced_command balanced_group] by simp

lemma balanced_no_curly: "latex_name t \<Longrightarrow> balanced (backslash # t @ js ''{}'')"
  using balanced_single_curly [of t "[]"] by (simp add: balanced_def)

lemma latex_name_js: "latex_name (js t) \<longleftrightarrow> t \<noteq> [] \<and> CHR ''{'' \<notin> set t \<and> CHR ''}'' \<notin> set t \<and>
    CHR 0x5C \<notin> set t"
proof -
  have "backslash # js ''{}'' = js (CHR 0x5C # ''{}'')" by (simp add: js_def backslash_def)
  then show ?thesis unfolding latex_name_def by (simp only: js_disjoint) auto
qed


lemma balanced_block:
  assumes "latex_name t" and "balanced s"
  shows "balanced (tex ''begin{'' @ t @ js ''}'' @ s @ tex ''end{'' @ t @ js ''}'')"
proof -
  have t: "balanced t" using assms(1) by (intro balanced_neutral) (simp add: latex_name_def)
  have cmd: "latex_name (js ''begin'')" "latex_name (js ''end'')" by (simp_all add: latex_name_js)
  from balanced_append [OF balanced_single_curly [OF cmd(1) t]
      balanced_append [OF assms(2) balanced_single_curly [OF cmd(2) t]]]
  show ?thesis by (simp add: tex_def js_append_assoc)
qed

lemma latex_preamble:
  "balanced (
     tex ''documentclass{deps/lapol_default_article}'' @ newline @
     tex ''usepackage{deps/lapol_default}'' @ newline @
     js ''% Debugging help:'' @ newline @
     js ''% Trick TeXstudio into loading the commands defined in this file.'' @ newline @
     tex ''begin{mcommenthack}'' @ newline @
     js ''  '' @ tex ''input{deps/lapol_default_article.cls}'' @ newline @
     js ''  '' @ tex ''input{deps/lapol_default.sty}'' @ newline @
     tex ''end{mcommenthack}'' @ newline)"
  by code_simp

lemma latex_document:
  "balanced (tex ''date{Compiled on '' @ tex ''today}'' @ tex ''begin{document}'')"
  "balanced (tex ''end{document}'')"
  by code_simp+

lemma root_latex:
  assumes "balanced cs" and "balanced t" and "balanced a"
  shows "balanced (
     tex ''documentclass{deps/lapol_default_article}'' @ newline @
     tex ''usepackage{deps/lapol_default}'' @ newline @
     js ''% Debugging help:'' @ newline @
     js ''% Trick TeXstudio into loading the commands defined in this file.'' @ newline @
     tex ''begin{mcommenthack}'' @ newline @
     js ''  '' @ tex ''input{deps/lapol_default_article.cls}'' @ newline @
     js ''  '' @ tex ''input{deps/lapol_default.sty}'' @ newline @
     tex ''end{mcommenthack}'' @ newline @
     tex ''title{'' @ t @ js ''}'' @ tex ''author{'' @ a @ js ''}'' @
     tex ''date{Compiled on '' @ tex ''today}'' @ tex ''begin{document}'' @ cs @
     tex ''end{document}'')"
proof -
  have names: "latex_name (js ''title'')" "latex_name (js ''author'')" by (simp_all add: latex_name_js)
  have "balanced (tex ''title{'' @ t @ js ''}'')" "balanced (tex ''author{'' @ a @ js ''}'')"
    using balanced_single_curly [OF names(1) assms(2)] balanced_single_curly [OF names(2) assms(3)]
    by (simp_all add: tex_def js_append_assoc)
  from balanced_append [OF latex_preamble balanced_append [OF this(1) balanced_append [OF this(2)
      balanced_append [OF latex_document(1) balanced_append [OF assms(1) latex_document(2)]]]]]
  show ?thesis by (simp only: append_assoc)
qed

lemma run_outputter_latex:
  assumes "latex_outputter p" and rec: "\<And>x. outs.yields c st balanced (rec x)"
  shows "outs.yields c st balanced (run_outputter c rec p n)"
proof -
  note elems = elems_latex [OF rec]
  show ?thesis
  proof (cases p)
    case LatexRootOutputter
    then show ?thesis
      by (auto simp: latex_root_def simp del: js_append
          intro!: outs.yields_bind [OF outs.safe_yields [OF require_safe]]
            outs.yields_bind [OF outs.safe_yields [OF main_store_safe]]
            outs.yields_bind [OF outs.safe_yields [OF js_defined_safe]]
            outs.yields_bind [OF elems] outs.yields_return root_latex)
  next
    case LatexParaOutputter
    then show ?thesis
      by (auto simp: latex_para_def intro!: outs.yields_bind [OF elems] outs.yields_return
          balanced_append balanced_newline)
  next
    case (LatexNoCurlyCommandOutputter t)
    with assms(1) show ?thesis
      by (auto simp: latex_no_curly_def intro!: outs.yields_return balanced_no_curly)
  next
    case (LatexSingleCurlyCommandOutputter t)
    with assms(1) show ?thesis
      by (auto simp: latex_single_curly_def
          intro!: outs.yields_bind [OF elems] outs.yields_return balanced_single_curly)
  next
    case (LatexBlockOutputter t)
    with assms(1) show ?thesis
      by (auto simp: latex_block_def
          intro!: outs.yields_bind [OF elems] outs.yields_return balanced_block)
  qed (use assms(1) in simp_all)
qed

lemma output_latex:
  assumes "latex_output c"
  shows "outs.yields c st balanced (outputLtrfObj fuel c x)"
proof (induction fuel arbitrary: x)
  case 0
  show ?case by (rule outs.yieldsI) simp
next
  case (Suc fuel)
  show ?case
  proof (cases x)
    case (LtrfStr s)
    with assms show ?thesis
      by (auto simp: latex_output_def getDefaultLtrfStrOutputter_def string_default_def
          intro!: outs.yields_return balanced_escape)
  next
    case (Nd n)
    have "outs.yields c st balanced (run_outputter c (outputLtrfObj fuel c) p n)"
      if "outputter_of c n = Inr p" for p
      by (rule run_outputter_latex) (use assms that Suc in \<open>auto simp: latex_output_def\<close>)
    then show ?thesis
      by (auto simp: Nd intro!: outs.yields_bind [OF dispatch_yields])
  qed
qed

text \<open>
  C19: LaTeX output is balanced.  Whatever the document, if the pass returns, the braces in the
  code it returns match, read as TeX reads them: no text can close a group that the outputters
  opened or leave one open.
\<close>

theorem latex_balanced:
  assumes "latex_output c" and "cache_ok c s" and "outputPass fuel c n s = Some (Inr (code, s'))"
  shows "balanced code"
  using outs.yieldsD [where st = "os_storage s" and s = s, OF output_latex [OF assms(1)]] assms(2,3)
  by (auto simp: outputPass_def)

section \<open>Witness\<close>

text \<open>The standard modules with the target latex, and a paragraph with braces in its text.\<close>

definition sample_latex_ctx :: out_ctx where
  "sample_latex_ctx = \<lparr>oc_registry = std_registry [latex], oc_target = latex,
     oc_strings = LatexStringOutputter, oc_lapolFolder = None, oc_paths = sample_libs,
     oc_heEncode = (\<lambda>s. Inr s), oc_user = no_user_outputters\<rparr>"

definition sample_latex_state :: out_state where
  "sample_latex_state = \<lparr>os_lazyNodeOutputters = [], os_files = [],
     os_storage = [(main_name, main_instance)]\<rparr>"

definition sample_latex_para :: ltrf_node where
  "sample_latex_para = LtrfNode (js ''__p'') []
     [LtrfStr (js ''a}''), Nd (LtrfNode (js ''bold'') [] [LtrfStr (js ''b'')])]"

lemma sample_latex_outputter_of:
  "outputter_of sample_latex_ctx n = (case jmap_get latex_table (node_tag n) of
     None \<Rightarrow> Inl (OutputError (NoNodeOutputter latex (node_tag n))) | Some p \<Rightarrow> Inr p)"
  by (simp add: outputter_of_def sample_latex_ctx_def std_latex_retrieve)

lemma sample_latex_output: "latex_output sample_latex_ctx"
proof -
  have "list_all (\<lambda>(t, p). latex_outputter p) latex_table"
    by (simp add: latex_table_def tex_outputter_def latex_name_js)
  then have "latex_outputter p" if "jmap_get latex_table t = Some p" for t p
    using map_of_SomeD [OF that] by (auto simp: list_all_iff)
  then show ?thesis
    by (auto simp: latex_output_def sample_latex_outputter_of split: option.splits)
      (simp add: sample_latex_ctx_def)
qed

lemma sample_latex_retrieve:
  "retreiveNodeOutputterForTag (oc_registry sample_latex_ctx) (oc_target sample_latex_ctx) tag =
    (case jmap_get latex_table tag of
       None \<Rightarrow> Inl (OutputError (NoNodeOutputter latex tag))
     | Some p \<Rightarrow> Inr p)"
  by (simp add: sample_latex_ctx_def std_latex_retrieve)

theorem latex_balanced_witness:
  "\<exists>s'. outputPass 3 sample_latex_ctx sample_latex_para sample_latex_state =
      Some (Inr (newline @ newline @ js ''a'' @ tex ''}'' @ tex ''textbf{b}'' @ newline @ newline, s')) \<and>
    balanced (newline @ newline @ js ''a'' @ tex ''}'' @ tex ''textbf{b}'' @ newline @ newline)"
proof -
  have strings: "oc_strings sample_latex_ctx = LatexStringOutputter"
    by (simp add: sample_latex_ctx_def)
  have escape: "latex_string_default (js ''a}'') = js ''a'' @ tex ''}''"
    "latex_string_default (js ''b'') = js ''b''"
    by (simp_all add: latex_string_concat latex_escape_char_def js_def tex_def backslash_def)
  have "\<exists>s'. outputPass 3 sample_latex_ctx sample_latex_para sample_latex_state =
      Some (Inr (newline @ newline @ js ''a'' @ tex ''}'' @ tex ''textbf{b}'' @ newline @ newline, s'))"
    by (simp add: outputPass_def sample_latex_para_def numeral_3_eq_3 act_bind_def act_simps
        getLtrfNodeOutputter_def sample_latex_retrieve latex_table_def tex_outputter_def
        latex_para_def latex_single_curly_def output_elems_def composeOutput_def
        getDefaultLtrfStrOutputter_def string_default_def strings escape sample_latex_state_def tex_def)
  then obtain s' where run: "outputPass 3 sample_latex_ctx sample_latex_para sample_latex_state =
      Some (Inr (newline @ newline @ js ''a'' @ tex ''}'' @ tex ''textbf{b}'' @ newline @ newline, s'))" ..
  from latex_balanced [OF sample_latex_output _ run] run show ?thesis
    by (auto simp: sample_latex_state_def)
qed

end
