(* ===== verification/Files.thy ===== *)
theory Files
  imports Paths
begin

text \<open>
  The operations on files (\<^verbatim>\<open>internal/utils.ts\<close>) and the concurrent copying of the required
  files at the end of a compilation (\<^verbatim>\<open>internal/compile.ts\<close>).
\<close>

section \<open>The file system\<close>

text \<open>
  What the program calls of node's module \<^verbatim>\<open>fs\<close> and of the package \<^verbatim>\<open>mkdirp\<close>, as functions of
  the state \<open>'w\<close> of the outside world.  A failed operation may have had effects too, so the
  world is returned with the error.
\<close>

type_synonym buffer = "8 word list"

type_synonym ('w, 'a) io = "'w \<Rightarrow> 'a result \<times> 'w"

record 'w file_system =
  fs_access :: "jstr \<Rightarrow> ('w, unit) io"
  fs_readBuffer :: "jstr \<Rightarrow> ('w, buffer) io"
  fs_readText :: "jstr \<Rightarrow> ('w, jstr) io"
  fs_mkdirp :: "jstr \<Rightarrow> ('w, unit) io"
  fs_writeFile :: "jstr \<Rightarrow> jstr \<Rightarrow> ('w, unit) io"
  fs_copyFile :: "jstr \<Rightarrow> jstr \<Rightarrow> ('w, unit) io"

definition io_bind :: "('w, 'a) io \<Rightarrow> ('a \<Rightarrow> ('w, 'b) io) \<Rightarrow> ('w, 'b) io" where
  "io_bind m f = (\<lambda>w. case m w of (Inl e, w') \<Rightarrow> (Inl e, w') | (Inr x, w') \<Rightarrow> f x w')"

definition canAccess :: "'w file_system \<Rightarrow> la_path \<Rightarrow> 'w \<Rightarrow> bool \<times> 'w" where
  "canAccess fs filePath w = (case fs_access fs (lp_fullPath filePath) w of
       (Inr _, w') \<Rightarrow> (True, w')
     | (Inl _, w') \<Rightarrow> (False, w'))"

definition readFile :: "'w file_system \<Rightarrow> la_path \<Rightarrow> ('w, jstr) io" where
  "readFile fs filePath = fs_readText fs (lp_fullPath filePath)"

definition readFileBuffer :: "'w file_system \<Rightarrow> la_path \<Rightarrow> ('w, buffer) io" where
  "readFileBuffer fs filePath = fs_readBuffer fs (lp_fullPath filePath)"

definition writeFile :: "'w file_system \<Rightarrow> la_path \<Rightarrow> jstr \<Rightarrow> ('w, unit) io" where
  "writeFile fs filePath data =
     io_bind (fs_mkdirp fs (parsed_dir (lp_parsed filePath))) (\<lambda>_.
       fs_writeFile fs (lp_fullPath filePath) data)"

definition copyFile :: "'w file_system \<Rightarrow> la_path \<Rightarrow> la_path \<Rightarrow> ('w, unit) io" where
  "copyFile fs fileSource fileDest =
     io_bind (fs_mkdirp fs (parsed_dir (lp_parsed fileDest))) (\<lambda>_.
       fs_copyFile fs (lp_fullPath fileSource) (lp_fullPath fileDest))"

section \<open>Copying concurrently\<close>

text \<open>
  The promises in \<^verbatim>\<open>copyPromises\<close> run concurrently.  Each is a task that first makes the folder
  of its target and then copies; an error \<^verbatim>\<open>EBUSY\<close> is caught, any other one rejects the
  promise.  The state of the whole keeps the rejection that came first, with which
  \<^verbatim>\<open>Promise.all\<close> rejects, while the other tasks run on.
\<close>

datatype copy_phase = ToMakeDir | ToCopy | Copied | Busy | CopyFailed js_error

record copy_task =
  ct_source :: la_path
  ct_target :: la_path
  ct_phase :: copy_phase

record 'w copy_state =
  cp_world :: 'w
  cp_tasks :: "copy_task list"
  cp_rejected :: "js_error option"

definition caught :: "js_error \<Rightarrow> copy_phase" where
  "caught e = (if e = IoError (js ''EBUSY'') then Busy else CopyFailed e)"

fun finished :: "copy_phase \<Rightarrow> bool" where
  "finished ToMakeDir = False"
| "finished ToCopy = False"
| "finished _ = True"

text \<open>The next operation of a task on the world, and the phase it leads to.\<close>

fun task_turn :: "'w file_system \<Rightarrow> la_path \<Rightarrow> la_path \<Rightarrow> copy_phase \<Rightarrow> 'w \<Rightarrow> copy_phase \<times> 'w" where
  "task_turn fs src tgt ToMakeDir w =
     (case fs_mkdirp fs (parsed_dir (lp_parsed tgt)) w of
        (Inl e, w') \<Rightarrow> (caught e, w')
      | (Inr _, w') \<Rightarrow> (ToCopy, w'))"
| "task_turn fs src tgt ToCopy w =
     (case fs_copyFile fs (lp_fullPath src) (lp_fullPath tgt) w of
        (Inl e, w') \<Rightarrow> (caught e, w')
      | (Inr _, w') \<Rightarrow> (Copied, w'))"
| "task_turn fs src tgt phase w = (phase, w)"

definition copy_turn :: "'w file_system \<Rightarrow> nat \<Rightarrow> 'w copy_state \<Rightarrow> 'w copy_state" where
  "copy_turn fs i st =
     (if i < length (cp_tasks st) \<and> \<not> finished (ct_phase (cp_tasks st ! i)) then
        let t = cp_tasks st ! i;
            (phase, w) = task_turn fs (ct_source t) (ct_target t) (ct_phase t) (cp_world st)
        in st\<lparr>cp_world := w, cp_tasks := (cp_tasks st)[i := t\<lparr>ct_phase := phase\<rparr>],
              cp_rejected := (case cp_rejected st of
                  Some e \<Rightarrow> Some e
                | None \<Rightarrow> (case phase of CopyFailed e \<Rightarrow> Some e | _ \<Rightarrow> None))\<rparr>
      else st)"

definition start_copies :: "'w \<Rightarrow> (la_path \<times> la_path) list \<Rightarrow> 'w copy_state" where
  "start_copies w copies = \<lparr>cp_world = w, cp_tasks = map (\<lambda>(src, tgt).
     \<lparr>ct_source = src, ct_target = tgt, ct_phase = ToMakeDir\<rparr>) copies, cp_rejected = None\<rparr>"

text \<open>A schedule lists the tasks in the order in which their operations complete.\<close>

definition run_copies :: "'w file_system \<Rightarrow> nat list \<Rightarrow> 'w copy_state \<Rightarrow> 'w copy_state" where
  "run_copies fs sched st = foldl (\<lambda>st i. copy_turn fs i st) st sched"

text \<open>What \<^verbatim>\<open>Promise.all\<close> has settled with, if it has.\<close>

definition copies_outcome :: "'w copy_state \<Rightarrow> unit result option" where
  "copies_outcome st = (case cp_rejected st of
       Some e \<Rightarrow> Some (Inl e)
     | None \<Rightarrow> if list_all (\<lambda>t. finished (ct_phase t)) (cp_tasks st) then Some (Inr ()) else None)"

text \<open>The same as a step relation: any task that is not finished may take the next turn.\<close>

inductive copies_step :: "'w file_system \<Rightarrow> 'w copy_state \<Rightarrow> 'w copy_state \<Rightarrow> bool" for fs where
  copies_stepI: "i < length (cp_tasks st) \<Longrightarrow> \<not> finished (ct_phase (cp_tasks st ! i)) \<Longrightarrow>
    copies_step fs st (copy_turn fs i st)"

inductive_cases copies_stepE: "copies_step fs st st'"

text \<open>Alone, a task does what \<^verbatim>\<open>copyFile\<close> inside the \<^verbatim>\<open>try\<close> of the code does.\<close>

lemma task_alone:
  "(case task_turn fs src tgt ToMakeDir w of (p, w') \<Rightarrow> task_turn fs src tgt p w') =
   (case copyFile fs src tgt w of (Inl e, w') \<Rightarrow> (caught e, w') | (Inr _, w') \<Rightarrow> (Copied, w'))"
  by (auto simp: copyFile_def io_bind_def caught_def split: prod.splits sum.splits)

lemma copy_turn_sel [simp]:
  "length (cp_tasks (copy_turn fs i st)) = length (cp_tasks st)"
  "cp_tasks (start_copies w copies) =
     map (\<lambda>(src, tgt). \<lparr>ct_source = src, ct_target = tgt, ct_phase = ToMakeDir\<rparr>) copies"
  "cp_world (start_copies w copies) = w" "cp_rejected (start_copies w copies) = None"
  by (simp_all add: copy_turn_def start_copies_def Let_def split: prod.split)

section \<open>Copying always settles\<close>

fun turns_left :: "copy_phase \<Rightarrow> nat" where
  "turns_left ToMakeDir = 2"
| "turns_left ToCopy = 1"
| "turns_left _ = 0"

definition all_turns_left :: "'w copy_state \<Rightarrow> nat" where
  "all_turns_left st = sum_list (map (\<lambda>t. turns_left (ct_phase t)) (cp_tasks st))"

lemma turns_left_caught [simp]: "turns_left (caught e) = 0" "finished (caught e)"
  by (simp_all add: caught_def)

lemma task_turn_progress:
  "\<not> finished p \<Longrightarrow> turns_left (fst (task_turn fs src tgt p w)) < turns_left p"
  by (cases p) (auto split: prod.split sum.split)

lemma copies_step_progress:
  "copies_step fs st st' \<Longrightarrow> all_turns_left st' < all_turns_left st"
proof (erule copies_stepE)
  fix i assume st': "st' = copy_turn fs i st" and i: "i < length (cp_tasks st)"
    and left: "\<not> finished (ct_phase (cp_tasks st ! i))"
  let ?t = "cp_tasks st ! i"
  obtain p w where turn: "task_turn fs (ct_source ?t) (ct_target ?t) (ct_phase ?t) (cp_world st) = (p, w)"
    by fastforce
  with task_turn_progress [OF left, of fs "ct_source ?t" "ct_target ?t" "cp_world st"]
  show "all_turns_left st' < all_turns_left st"
    using i left
    by (auto simp: st' all_turns_left_def copy_turn_def Let_def turn intro!: sum_list_update_less)
qed

lemma copies_steps_bound:
  "(copies_step fs ^^ k) st st' \<Longrightarrow> k + all_turns_left st' \<le> all_turns_left st"
proof (induction k arbitrary: st')
  case (Suc k)
  then obtain st1 where "(copies_step fs ^^ k) st st1" and "copies_step fs st1 st'" by auto
  with Suc.IH [of st1] copies_step_progress [of fs st1 st'] show ?case by simp
qed simp

text \<open>
  C17: copying always settles: after at most two operations for each file no task has anything
  left to do, and as long as \<^verbatim>\<open>Promise.all\<close> has not settled some task can go on, whatever the order in
  which the operations complete.
\<close>

theorem copies_always_settle:
  assumes "(copies_step fs ^^ k) (start_copies w copies) st"
  shows "k \<le> 2 * length copies \<and> (copies_outcome st = None \<longrightarrow> (\<exists>st'. copies_step fs st st'))"
proof
  have "all_turns_left (start_copies w copies) = 2 * length copies"
    by (induction copies) (simp_all add: all_turns_left_def split_beta)
  with copies_steps_bound [OF assms] show "k \<le> 2 * length copies" by simp
  show "copies_outcome st = None \<longrightarrow> (\<exists>st'. copies_step fs st st')"
    by (auto simp: copies_outcome_def list_all_length split: option.splits if_splits
        intro: copies_stepI)
qed

text \<open>A schedule in which every task has two turns settles.\<close>

lemma turn_left:
  "i < length (cp_tasks st) \<Longrightarrow>
   turns_left (ct_phase (cp_tasks (copy_turn fs j st) ! i)) \<le>
     turns_left (ct_phase (cp_tasks st ! i)) - (if i = j then 1 else 0)"
proof -
  assume i: "i < length (cp_tasks st)"
  have fin: "finished p \<Longrightarrow> turns_left p = 0" for p by (cases p) simp_all
  show ?thesis
  proof (cases "i = j")
    case True
    let ?t = "cp_tasks st ! j"
    obtain p w where turn: "task_turn fs (ct_source ?t) (ct_target ?t) (ct_phase ?t) (cp_world st) = (p, w)"
      by fastforce
    with task_turn_progress [of "ct_phase ?t" fs "ct_source ?t" "ct_target ?t" "cp_world st"] i fin
    show ?thesis by (auto simp: True copy_turn_def Let_def turn)
  next
    case False
    with i show ?thesis by (auto simp: copy_turn_def Let_def split: prod.split)
  qed
qed

lemma run_copies_left:
  "i < length (cp_tasks st) \<Longrightarrow>
   turns_left (ct_phase (cp_tasks (run_copies fs sched st) ! i)) \<le>
     turns_left (ct_phase (cp_tasks st ! i)) - count_list sched i"
proof (induction sched arbitrary: st)
  case (Cons j sched)
  from Cons.IH [of "copy_turn fs j st"] Cons.prems turn_left [OF Cons.prems, of fs j]
  show ?case by (auto simp: run_copies_def)
qed (simp add: run_copies_def)

lemma length_run_copies [simp]: "length (cp_tasks (run_copies fs sched st)) = length (cp_tasks st)"
  by (induction sched arbitrary: st) (simp_all add: run_copies_def)

definition fair :: "nat list \<Rightarrow> nat \<Rightarrow> bool" where
  "fair sched n \<longleftrightarrow> list_all (\<lambda>i. 2 \<le> count_list sched i) [0..<n]"

lemma fair_settles:
  assumes "fair sched (length copies)"
  shows "copies_outcome (run_copies fs sched (start_copies w copies)) \<noteq> None"
proof -
  let ?st = "run_copies fs sched (start_copies w copies)"
  have "finished (ct_phase (cp_tasks ?st ! i))" if i: "i < length copies" for i
  proof -
    have "ct_phase (cp_tasks (start_copies w copies) ! i) = ToMakeDir"
      using i by (simp add: split_beta)
    with run_copies_left [of i "start_copies w copies" fs sched] i assms
    have "turns_left (ct_phase (cp_tasks ?st ! i)) = 0"
      by (simp add: fair_def list_all_iff)
    then show ?thesis by (cases "ct_phase (cp_tasks ?st ! i)") simp_all
  qed
  then show ?thesis by (auto simp: copies_outcome_def list_all_length split: option.splits)
qed

section \<open>What copying does\<close>

text \<open>
  The documented behaviour of the file system, in terms of the contents of files: making a folder
  changes no file; writing and copying change no other file than the target, and when they
  succeed, the target holds the encoded data or the content of the source.
\<close>

definition fs_documented ::
  "'w file_system \<Rightarrow> (jstr \<Rightarrow> buffer) \<Rightarrow> ('w \<Rightarrow> jstr \<Rightarrow> buffer option) \<Rightarrow> bool" where
  "fs_documented fs encode view \<longleftrightarrow>
     (\<forall>d w. view (snd (fs_mkdirp fs d w)) = view w) \<and>
     (\<forall>p w. view (snd (fs_readBuffer fs p w)) = view w) \<and>
     (\<forall>p w b. fst (fs_readBuffer fs p w) = Inr b \<longrightarrow> view w p = Some b) \<and>
     (\<forall>p d w q. q \<noteq> p \<longrightarrow> view (snd (fs_writeFile fs p d w)) q = view w q) \<and>
     (\<forall>p d w. fst (fs_writeFile fs p d w) = Inr () \<longrightarrow>
        view (snd (fs_writeFile fs p d w)) p = Some (encode d)) \<and>
     (\<forall>a b w q. q \<noteq> b \<longrightarrow> view (snd (fs_copyFile fs a b w)) q = view w q) \<and>
     (\<forall>a b w. fst (fs_copyFile fs a b w) = Inr () \<longrightarrow>
        view w a \<noteq> None \<and> view (snd (fs_copyFile fs a b w)) b = view w a)"

lemma fs_documentedD:
  assumes "fs_documented fs encode view"
  shows "view (snd (fs_mkdirp fs d w)) = view w"
    and "view (snd (fs_readBuffer fs p w)) = view w"
    and "fst (fs_readBuffer fs p w) = Inr buf \<Longrightarrow> view w p = Some buf"
    and "q \<noteq> p \<Longrightarrow> view (snd (fs_writeFile fs p data w)) q = view w q"
    and "fst (fs_writeFile fs p data w) = Inr () \<Longrightarrow>
      view (snd (fs_writeFile fs p data w)) p = Some (encode data)"
    and "q \<noteq> b \<Longrightarrow> view (snd (fs_copyFile fs a b w)) q = view w q"
    and "fst (fs_copyFile fs a b w) = Inr () \<Longrightarrow>
      view w a \<noteq> None \<and> view (snd (fs_copyFile fs a b w)) b = view w a"
  using assms by (simp_all add: fs_documented_def)

definition target_paths :: "(la_path \<times> la_path) list \<Rightarrow> jstr list" where
  "target_paths copies = map (\<lambda>(src, tgt). lp_fullPath tgt) copies"

text \<open>Different targets, none of which is copied itself.\<close>

definition copies_apart :: "(la_path \<times> la_path) list \<Rightarrow> bool" where
  "copies_apart copies \<longleftrightarrow> distinct (target_paths copies) \<and>
     list_all (\<lambda>(src, tgt). lp_fullPath src \<notin> set (target_paths copies)) copies"

definition task_done :: "('w \<Rightarrow> jstr \<Rightarrow> buffer option) \<Rightarrow> 'w \<Rightarrow> 'w \<Rightarrow> copy_task \<Rightarrow> bool" where
  "task_done view w0 w t \<longleftrightarrow> view w0 (lp_fullPath (ct_source t)) \<noteq> None \<and>
     view w (lp_fullPath (ct_target t)) = view w0 (lp_fullPath (ct_source t))"

definition copies_inv ::
  "('w \<Rightarrow> jstr \<Rightarrow> buffer option) \<Rightarrow> 'w \<Rightarrow> (la_path \<times> la_path) list \<Rightarrow> 'w copy_state \<Rightarrow> bool" where
  "copies_inv view w0 copies st \<longleftrightarrow>
     map (\<lambda>t. (ct_source t, ct_target t)) (cp_tasks st) = copies \<and>
     (\<forall>p. p \<notin> set (target_paths copies) \<longrightarrow> view (cp_world st) p = view w0 p) \<and>
     (\<forall>t \<in> set (cp_tasks st). ct_phase t = Copied \<longrightarrow> task_done view w0 (cp_world st) t) \<and>
     (cp_rejected st = None \<longrightarrow> (\<forall>t \<in> set (cp_tasks st). \<forall>e. ct_phase t \<noteq> CopyFailed e))"

lemma task_turn_view:
  assumes "fs_documented fs encode view" and "task_turn fs src tgt p w = (p', w')"
  shows "q \<noteq> lp_fullPath tgt \<Longrightarrow> view w' q = view w q"
    and "p' = Copied \<Longrightarrow> p \<noteq> Copied \<Longrightarrow> view w (lp_fullPath src) \<noteq> None \<and>
      view w' (lp_fullPath tgt) = view w (lp_fullPath src)"
proof -
  note doc = fs_documentedD [OF assms(1)]
  show "view w' q = view w q" if "q \<noteq> lp_fullPath tgt"
    using assms(2) doc(1) [of "parsed_dir (lp_parsed tgt)" w]
      doc(6) [OF that, of "lp_fullPath src" w]
    by (cases p) (auto split: prod.splits sum.splits)
  show "view w (lp_fullPath src) \<noteq> None \<and> view w' (lp_fullPath tgt) = view w (lp_fullPath src)"
    if "p' = Copied" "p \<noteq> Copied"
    using assms(2) that doc(7) [of "lp_fullPath src" "lp_fullPath tgt" w]
    by (cases p) (auto simp: caught_def split: prod.splits sum.splits if_splits)
qed


lemma copy_turn_inv:
  assumes "fs_documented fs encode view" and "copies_apart copies" and inv: "copies_inv view w0 copies st"
    and "copies_step fs st st'"
  shows "copies_inv view w0 copies st'"
proof -
  from assms(4) obtain i where st': "st' = copy_turn fs i st" and i: "i < length (cp_tasks st)"
    and left: "\<not> finished (ct_phase (cp_tasks st ! i))"
    by (auto elim: copies_stepE)
  let ?ts = "cp_tasks st" and ?t = "cp_tasks st ! i"
  obtain p w where turn: "task_turn fs (ct_source ?t) (ct_target ?t) (ct_phase ?t) (cp_world st) = (p, w)"
    by fastforce
  let ?t' = "?t\<lparr>ct_phase := p\<rparr>"
  have tasks: "cp_tasks st' = ?ts[i := ?t']" and world: "cp_world st' = w"
    and rej: "cp_rejected st' = (case cp_rejected st of Some e \<Rightarrow> Some e
      | None \<Rightarrow> (case p of CopyFailed e \<Rightarrow> Some e | _ \<Rightarrow> None))"
    using i left by (simp_all add: st' copy_turn_def Let_def turn)
  have names: "map (\<lambda>t. (ct_source t, ct_target t)) ?ts = copies"
    using inv by (simp add: copies_inv_def)
  have copy: "copies ! j = (ct_source (?ts ! j), ct_target (?ts ! j))" if "j < length ?ts" for j
    using that by (simp flip: names)
  have len: "length copies = length ?ts" by (simp flip: names)
  have target: "target_paths copies ! j = lp_fullPath (ct_target (?ts ! j))" if "j < length ?ts" for j
    using that len by (simp add: target_paths_def copy split_beta)
  have other: "lp_fullPath (ct_target (?ts ! j)) \<noteq> lp_fullPath (ct_target ?t)"
    if "j < length ?ts" "j \<noteq> i" for j
  proof -
    have "length (target_paths copies) = length ?ts" by (simp add: target_paths_def len)
    then show ?thesis
      using assms(2) that i target [of j] target [of i]
      by (simp add: copies_apart_def distinct_conv_nth) metis
  qed
  have in_targets: "lp_fullPath (ct_target ?t) \<in> set (target_paths copies)"
    using i target [of i] len by (metis length_map nth_mem target_paths_def)
  have source: "view (cp_world st) (lp_fullPath (ct_source ?t)) = view w0 (lp_fullPath (ct_source ?t))"
  proof -
    have "(ct_source ?t, ct_target ?t) \<in> set copies" using copy [OF i] i len by (metis nth_mem)
    then have "lp_fullPath (ct_source ?t) \<notin> set (target_paths copies)"
      using assms(2) by (auto simp: copies_apart_def list_all_iff)
    then show ?thesis using inv by (simp add: copies_inv_def)
  qed
  note turn_view = task_turn_view [OF assms(1) turn]
  have "map (\<lambda>t. (ct_source t, ct_target t)) (cp_tasks st') = copies"
    using names by (simp add: tasks map_update_same)
  moreover have "view w q = view w0 q" if "q \<notin> set (target_paths copies)" for q
    using inv that in_targets turn_view(1) [of q] by (auto simp: copies_inv_def)
  moreover have "task_done view w0 w t" if "t \<in> set (cp_tasks st')" "ct_phase t = Copied" for t
  proof -
    from that(1) obtain j where j: "j < length ?ts" and t: "t = ?ts[i := ?t'] ! j"
      by (auto simp: tasks in_set_conv_nth)
    show ?thesis
    proof (cases "j = i")
      case True
      with t i that(2) have "p = Copied" "t = ?t'" by auto
      moreover have "ct_phase ?t \<noteq> Copied" using left by auto
      ultimately show ?thesis using turn_view(2) source by (auto simp: task_done_def)
    next
      case False
      with t j have "t = ?ts ! j" by simp
      with inv j that(2) have "task_done view w0 (cp_world st) t" by (auto simp: copies_inv_def)
      with turn_view(1) [OF other [OF j False]] \<open>t = ?ts ! j\<close> show ?thesis
        by (simp add: task_done_def)
    qed
  qed
  moreover have "\<forall>e. ct_phase t \<noteq> CopyFailed e" if "cp_rejected st' = None" "t \<in> set (cp_tasks st')" for t
    using that inv set_update_subset_insert [of ?ts i ?t']
    by (auto simp: rej tasks copies_inv_def split: option.splits copy_phase.splits)
  ultimately show ?thesis by (simp add: copies_inv_def world)
qed

lemma copies_inv_start: "copies_inv view w copies (start_copies w copies)"
  by (induction copies) (auto simp: copies_inv_def split_beta)

lemma copies_inv_reach:
  assumes "fs_documented fs encode view" and "copies_apart copies"
    and "(copies_step fs)\<^sup>*\<^sup>* (start_copies w copies) st"
  shows "copies_inv view w copies st"
  using assms(3)
  by (induction rule: rtranclp_induct)
    (auto intro: copies_inv_start copy_turn_inv [OF assms(1,2)])

text \<open>A schedule is a path of the step relation.\<close>

lemma copy_turn_step: "(copies_step fs)\<^sup>*\<^sup>* st (copy_turn fs i st)"
proof (cases "i < length (cp_tasks st) \<and> \<not> finished (ct_phase (cp_tasks st ! i))")
  case True
  then show ?thesis by (blast intro: copies_stepI)
next
  case False
  then show ?thesis by (auto simp: copy_turn_def)
qed

lemma run_copies_steps: "(copies_step fs)\<^sup>*\<^sup>* st (run_copies fs sched st)"
proof (induction sched arbitrary: st)
  case (Cons i sched)
  from copy_turn_step [of fs st i] Cons.IH [of "copy_turn fs i st"] show ?case
    by (simp add: run_copies_def)
qed (simp add: run_copies_def)

lemma copies_inv_result:
  assumes "copies_inv view w copies st"
  shows "(\<forall>p. p \<notin> set (target_paths copies) \<longrightarrow> view (cp_world st) p = view w p) \<and>
    (copies_outcome st = Some (Inr ()) \<longrightarrow> (\<forall>i < length copies.
      ct_phase (cp_tasks st ! i) = Busy \<or>
      (view w (lp_fullPath (fst (copies ! i))) \<noteq> None \<and>
       view (cp_world st) (lp_fullPath (snd (copies ! i))) =
         view w (lp_fullPath (fst (copies ! i))))))"
proof (intro conjI impI allI)
  fix i assume out: "copies_outcome st = Some (Inr ())" and "i < length copies"
  from assms have names: "map (\<lambda>t. (ct_source t, ct_target t)) (cp_tasks st) = copies"
    by (simp add: copies_inv_def)
  with \<open>i < length copies\<close> have i: "i < length (cp_tasks st)" by (metis length_map)
  let ?t = "cp_tasks st ! i"
  have copy: "copies ! i = (ct_source ?t, ct_target ?t)" using i by (simp flip: names)
  have "finished (ct_phase ?t)" and "\<forall>e. ct_phase ?t \<noteq> CopyFailed e"
    using out assms i
    by (auto simp: copies_outcome_def copies_inv_def list_all_length split: option.splits if_splits)
  then consider "ct_phase ?t = Busy" | "ct_phase ?t = Copied" by (cases "ct_phase ?t") auto
  then show "ct_phase ?t = Busy \<or> (view w (lp_fullPath (fst (copies ! i))) \<noteq> None \<and>
      view (cp_world st) (lp_fullPath (snd (copies ! i))) = view w (lp_fullPath (fst (copies ! i))))"
    using assms i by cases (auto simp: copies_inv_def task_done_def copy)
qed (use assms in \<open>simp add: copies_inv_def\<close>)

text \<open>
  C16: when \<^verbatim>\<open>Promise.all\<close> resolves, every file has been copied, its target holding what the
  source held at the start, or the copy was skipped as busy, in whatever order the operations
  completed.  No other file has changed, at any time.
\<close>

theorem copies_correct:
  assumes "fs_documented fs encode view" and "copies_apart copies"
    and "(copies_step fs)\<^sup>*\<^sup>* (start_copies w copies) st"
  shows "(\<forall>p. p \<notin> set (target_paths copies) \<longrightarrow> view (cp_world st) p = view w p) \<and>
    (copies_outcome st = Some (Inr ()) \<longrightarrow> (\<forall>i < length copies.
      ct_phase (cp_tasks st ! i) = Busy \<or>
      (view w (lp_fullPath (fst (copies ! i))) \<noteq> None \<and>
       view (cp_world st) (lp_fullPath (snd (copies ! i))) =
         view w (lp_fullPath (fst (copies ! i))))))"
  using copies_inv_reach [OF assms] by (rule copies_inv_result)

section \<open>A file system\<close>

text \<open>
  A file system in memory, without folders, in which no copy can be made to some busy files.
\<close>

type_synonym memory = "(jstr \<times> buffer) list"

definition memory_encode :: "jstr \<Rightarrow> buffer" where
  "memory_encode s = map ucast s"

definition memory_write :: "jstr \<Rightarrow> buffer \<Rightarrow> memory \<Rightarrow> unit result \<times> memory" where
  "memory_write p b w = (Inr (), jmap_set p b w)"

definition memory_read :: "jstr \<Rightarrow> memory \<Rightarrow> buffer result \<times> memory" where
  "memory_read p w =
     (case jmap_get w p of None \<Rightarrow> Inl (IoError (js ''ENOENT'')) | Some b \<Rightarrow> Inr b, w)"

definition memory_copy ::
  "(jstr \<Rightarrow> bool) \<Rightarrow> jstr \<Rightarrow> jstr \<Rightarrow> memory \<Rightarrow> unit result \<times> memory" where
  "memory_copy busy a b w =
     (if busy b then (Inl (IoError (js ''EBUSY'')), w)
      else case jmap_get w a of
        None \<Rightarrow> (Inl (IoError (js ''ENOENT'')), w)
      | Some c \<Rightarrow> (Inr (), jmap_set b c w))"

definition memory_fs :: "(jstr \<Rightarrow> bool) \<Rightarrow> memory file_system" where
  "memory_fs busy = \<lparr>fs_access = (\<lambda>p w. (if jmap_has w p then Inr () else Inl (IoError (js ''ENOENT'')), w)),
     fs_readBuffer = memory_read,
     fs_readText = (\<lambda>p w. (Inl (IoError (js ''ENOENT'')), w)),
     fs_mkdirp = (\<lambda>d w. (Inr (), w)),
     fs_writeFile = (\<lambda>p d. memory_write p (memory_encode d)),
     fs_copyFile = memory_copy busy\<rparr>"

lemma memory_documented: "fs_documented (memory_fs busy) memory_encode jmap_get"
  by (auto simp: fs_documented_def memory_fs_def memory_write_def memory_read_def memory_copy_def
      jm.get_set split: option.splits)

text \<open>The files whose name ends in a tilde are busy.\<close>

definition backup_name :: "jstr \<Rightarrow> bool" where
  "backup_name p \<longleftrightarrow> p \<noteq> [] \<and> [last p] = js ''~''"

abbreviation sample_fs :: "memory file_system" where
  "sample_fs \<equiv> memory_fs backup_name"

definition memory_path :: "string \<Rightarrow> la_path" where
  "memory_path s = \<lparr>lp_pathKind = None, lp_fullPath = js s,
     lp_parsed = \<lparr>parsed_dir = js ''/'', parsed_name = js s\<rparr>, lp_sep = [slash]\<rparr>"

definition sample_copies :: "(la_path \<times> la_path) list" where
  "sample_copies = [(memory_path ''/a'', memory_path ''/out/a''), (memory_path ''/b'', memory_path ''/out/b~'')]"

definition sample_memory :: memory where
  "sample_memory = [(js ''/a'', [1, 2]), (js ''/b'', [3])]"

text \<open>Two files copied in an interleaved order, one of them busy.\<close>

theorem copies_correct_witness:
  "\<exists>st. (copies_step sample_fs)\<^sup>*\<^sup>* (start_copies sample_memory sample_copies) st \<and>
    copies_outcome st = Some (Inr ()) \<and> jmap_get (cp_world st) (js ''/out/a'') = Some [1, 2]"
proof -
  let ?st = "run_copies sample_fs [1, 0, 1, 0] (start_copies sample_memory sample_copies)"
  have reach: "(copies_step sample_fs)\<^sup>*\<^sup>* (start_copies sample_memory sample_copies) ?st"
    by (rule run_copies_steps)
  have apart: "copies_apart sample_copies"
    by (simp add: copies_apart_def target_paths_def sample_copies_def memory_path_def)
  have outcome: "copies_outcome ?st = Some (Inr ())" and copied: "ct_phase (cp_tasks ?st ! 0) = Copied"
    by code_simp+
  from copies_correct [OF memory_documented apart reach] outcome
  have "ct_phase (cp_tasks ?st ! 0) = Busy \<or> jmap_get (cp_world ?st) (lp_fullPath (snd (sample_copies ! 0))) =
      jmap_get sample_memory (lp_fullPath (fst (sample_copies ! 0)))"
    by (auto simp: sample_copies_def)
  with copied have "jmap_get (cp_world ?st) (js ''/out/a'') = Some [1, 2]"
    by (simp add: sample_copies_def memory_path_def sample_memory_def)
  with reach outcome show ?thesis by blast
qed

theorem copies_always_settle_witness:
  "\<exists>st. (copies_step sample_fs ^^ 4) (start_copies sample_memory sample_copies) st \<and>
    (4::nat) \<le> 2 * length sample_copies"
proof -
  let ?st = "start_copies sample_memory sample_copies"
  let ?run = "\<lambda>is. run_copies sample_fs is ?st"
  have step: "copies_step sample_fs (?run is) (?run (is @ [i]))"
    if "i < length (cp_tasks (?run is))" "\<not> finished (ct_phase (cp_tasks (?run is) ! i))" for "is" i
    using copies_stepI [OF that] by (simp add: run_copies_def)
  have "copies_step sample_fs (?run []) (?run ([] @ [1]))"
    "copies_step sample_fs (?run [1]) (?run ([1] @ [0]))"
    "copies_step sample_fs (?run [1, 0]) (?run ([1, 0] @ [1]))"
    "copies_step sample_fs (?run [1, 0, 1]) (?run ([1, 0, 1] @ [0]))"
    by (rule step; code_simp)+
  then have "(copies_step sample_fs ^^ 4) (?run []) (?run [1, 0, 1, 0])"
    by (simp add: numeral_eq_Suc) blast
  moreover have "?run [] = ?st" by (simp add: run_copies_def)
  ultimately have "(copies_step sample_fs ^^ 4) ?st (?run [1, 0, 1, 0])" by simp
  with copies_always_settle [OF this] show ?thesis by blast
qed

end
