(* ===== verification/EntryPoint.thy ===== *)
theory EntryPoint
  imports Files
begin

text \<open>
  The entry point (\<^verbatim>\<open>main.ts\<close>) that users' code loads first: it points node's module search to the
  compiled files, tells \<^verbatim>\<open>globalInit.ts\<close> where the installation is and starts the native library.
\<close>

section \<open>The state of the process\<close>

text \<open>
  The three flags are variables of the file; \<^verbatim>\<open>process.env\<close> is a map; the folder is the variable
  of \<^verbatim>\<open>globalInit.ts\<close>.  The rest is the outside world.
\<close>

record 'w process_state =
  ps_isNodePathInit :: bool
  ps_isLapolRsInit :: bool
  ps_isLapolFolderInfoInit :: bool
  ps_env :: "jstr jmap"
  ps_lapolFolder :: "la_path option"
  ps_world :: 'w

text \<open>
  What \<^verbatim>\<open>main.ts\<close> uses from outside: \<^verbatim>\<open>_initPaths\<close> of node's module \<^verbatim>\<open>module\<close>, which reads the
  environment, the loading of its three imports, and \<^verbatim>\<open>init\<close> of \<^verbatim>\<open>lapol-rs\<close>.
\<close>

record 'w entry_libs =
  en_initPaths :: "jstr jmap \<Rightarrow> ('w, unit) io"
  en_imports :: "('w, unit) io"
  en_rs_init :: "('w, unit) io"

definition fresh_process :: "jstr jmap \<Rightarrow> 'w \<Rightarrow> 'w process_state" where
  "fresh_process env w = \<lparr>ps_isNodePathInit = False, ps_isLapolRsInit = False,
     ps_isLapolFolderInfoInit = False, ps_env = env, ps_lapolFolder = None, ps_world = w\<rparr>"

definition isLapolGloballyInitialized :: "'w process_state \<Rightarrow> bool" where
  "isLapolGloballyInitialized s \<longleftrightarrow>
     ps_isNodePathInit s \<and> ps_isLapolRsInit s \<and> ps_isLapolFolderInfoInit s"

section \<open>Loading the file\<close>

definition outside :: "('w, unit) io \<Rightarrow> ('w process_state, unit) io" where
  "outside m = (\<lambda>s. case m (ps_world s) of (r, w) \<Rightarrow> (r, s\<lparr>ps_world := w\<rparr>))"

definition io_update :: "('s \<Rightarrow> 's) \<Rightarrow> ('s, unit) io" where
  "io_update f = (\<lambda>s. (Inr (), f s))"

definition setupNodePath :: "'w entry_libs \<Rightarrow> jstr \<Rightarrow> ('w process_state, unit) io" where
  "setupNodePath libs dirname =
     io_bind (io_update (\<lambda>s. s\<lparr>ps_env := jmap_set (js ''NODE_PATH'') (dirname @ js ''/..'') (ps_env s)\<rparr>))
       (\<lambda>_ s. outside (en_initPaths libs (ps_env s)) s)"

definition init_node_path :: "'w entry_libs \<Rightarrow> jstr \<Rightarrow> ('w process_state, unit) io" where
  "init_node_path libs dirname = (\<lambda>s.
     if \<not> ps_isNodePathInit s then
       io_bind (setupNodePath libs dirname) (\<lambda>_. io_update (\<lambda>s. s\<lparr>ps_isNodePathInit := True\<rparr>)) s
     else (Inr (), s))"

definition init_lapol_folder :: "path_libs \<Rightarrow> jstr \<Rightarrow> ('w process_state, unit) io" where
  "init_lapol_folder paths dirname = (\<lambda>s.
     if \<not> ps_isLapolFolderInfoInit s then
       io_bind (io_update (\<lambda>s. s\<lparr>ps_lapolFolder :=
           setLapolFolder (new_LaPath paths (dirname @ js ''/../../..'') None) (ps_lapolFolder s)\<rparr>))
         (\<lambda>_. io_update (\<lambda>s. s\<lparr>ps_isLapolFolderInfoInit := True\<rparr>)) s
     else (Inr (), s))"

definition init_lapol_rs :: "'w entry_libs \<Rightarrow> ('w process_state, unit) io" where
  "init_lapol_rs libs = (\<lambda>s.
     if \<not> ps_isLapolRsInit s then
       io_bind (outside (en_rs_init libs)) (\<lambda>_. io_update (\<lambda>s. s\<lparr>ps_isLapolRsInit := True\<rparr>)) s
     else (Inr (), s))"

text \<open>The statements of the file; the imports run where they stand, after the first of them.\<close>

definition load_main :: "'w entry_libs \<Rightarrow> path_libs \<Rightarrow> jstr \<Rightarrow> ('w process_state, unit) io" where
  "load_main libs paths dirname =
     io_bind (init_node_path libs dirname) (\<lambda>_.
     io_bind (outside (en_imports libs)) (\<lambda>_.
     io_bind (init_lapol_folder paths dirname) (\<lambda>_.
     init_lapol_rs libs)))"

lemmas entry_defs = load_main_def init_node_path_def setupNodePath_def init_lapol_folder_def
  init_lapol_rs_def io_bind_def io_update_def outside_def

text \<open>The whole state after the file has been loaded, apart from the outside world.\<close>

definition initialised_process :: "path_libs \<Rightarrow> jstr \<Rightarrow> jstr jmap \<Rightarrow> 'w \<Rightarrow> 'w process_state" where
  "initialised_process paths dirname env w = \<lparr>ps_isNodePathInit = True, ps_isLapolRsInit = True,
     ps_isLapolFolderInfoInit = True, ps_env = jmap_set (js ''NODE_PATH'') (dirname @ js ''/..'') env,
     ps_lapolFolder = Some (new_LaPath paths (dirname @ js ''/../../..'') None), ps_world = w\<rparr>"

lemma load_main_cases:
  assumes "load_main libs paths dirname (fresh_process env w) = (r, s)"
  shows "case r of
      Inl e \<Rightarrow> \<not> isLapolGloballyInitialized s
    | Inr _ \<Rightarrow> \<exists>w'. s = initialised_process paths dirname env w'"
proof -
  let ?env = "jmap_set (js ''NODE_PATH'') (dirname @ js ''/..'') env"
  obtain r1 w1 where init: "en_initPaths libs ?env w = (r1, w1)" by fastforce
  obtain r2 w2 where imp: "en_imports libs w1 = (r2, w2)" by fastforce
  obtain r3 w3 where rs: "en_rs_init libs w2 = (r3, w3)" by fastforce
  have "r = Inr () \<Longrightarrow> s = initialised_process paths dirname env w3"
    and "r \<noteq> Inr () \<Longrightarrow> \<not> ps_isLapolRsInit s"
    using assms init imp rs
    by (cases r1; cases r2; cases r3; simp add: entry_defs fresh_process_def initialised_process_def
        setLapolFolder_def; fastforce)+
  then show ?thesis by (cases r) (simp_all add: isLapolGloballyInitialized_def, blast)
qed

text \<open>Running the statements again only loads the imports again.\<close>

lemma load_main_again:
  "load_main libs paths dirname (initialised_process p d env w) =
    outside (en_imports libs) (initialised_process p d env w)"
  by (cases "en_imports libs w"; cases "fst (en_imports libs w)")
    (simp_all add: entry_defs initialised_process_def)

section \<open>Where the installation is\<close>

lemma join_slash_append:
  "ps \<noteq> [] \<Longrightarrow> qs \<noteq> [] \<Longrightarrow> join_slash (ps @ qs) = join_slash ps @ slash # join_slash qs"
  by (induction ps rule: join_slash.induct) (auto simp: neq_Nil_conv)

lemma normalize_plain_append:
  "\<forall>p \<in> set ps. plain_part p \<Longrightarrow>
   normalize_parts climb (ps @ qs) acc = normalize_parts climb qs (rev ps @ acc)"
  by (induction ps arbitrary: acc) (auto simp: plain_part_def)

text \<open>Three steps up from a folder that lies at least three levels deep.\<close>

lemma three_levels_up:
  assumes "\<forall>p \<in> set (base @ [a, b, c]). plain_part p"
  shows "posix_resolve cwd ((slash # join_slash (base @ [a, b, c])) @ js ''/../../..'') =
    slash # join_slash base"
proof -
  let ?up = "[dot, dot]" and ?ps = "base @ [a, b, c]"
  have up: "js ''/../../..'' = slash # join_slash [?up, ?up, ?up]"
    by (simp add: js_def slash_def dot_def)
  have join: "(slash # join_slash ?ps) @ js ''/../../..'' =
      slash # join_slash (?ps @ [?up, ?up, ?up])"
    by (simp only: up append_Cons) (subst join_slash_append, simp_all)
  have plain: "\<forall>p \<in> set (?ps @ [?up, ?up, ?up]). slash \<notin> set p"
    using assms by (auto simp: plain_part_def slash_def dot_def)
  have "split_slash (join_slash (?ps @ [?up, ?up, ?up])) [] = ?ps @ [?up, ?up, ?up]"
    using split_join_slash [of "hd (?ps @ [?up, ?up, ?up])" "tl (?ps @ [?up, ?up, ?up])"] plain
    by (cases base) auto
  moreover have "normalize_parts False ([] # ?ps @ [?up, ?up, ?up]) [] = base"
    using normalize_plain_append [OF assms, of False "[?up, ?up, ?up]" "[]"] assms
    by (auto simp: plain_part_def)
  ultimately show ?thesis
    unfolding join by (simp add: posix_resolve_def is_absolute_def normalizeString_def)
qed

text \<open>
  C35: once \<^verbatim>\<open>main.ts\<close> is loaded without an error, everything is initialised, the folder of the
  installation is the one three levels above the compiled file, and users' modules find the compiled files in the
  folder above it; if the loading throws, the process does not count as initialised.  Running the
  statements again changes neither.
\<close>

theorem main_initialises:
  assumes "load_main libs paths dirname (fresh_process env w) = (r, s)"
    and "native_lib paths = posix cwd" and "dirname = slash # join_slash (base @ [a, b, c])"
    and "\<forall>p \<in> set (base @ [a, b, c]). plain_part p"
  shows "(isLapolGloballyInitialized s \<longleftrightarrow> r = Inr ()) \<and>
    (r = Inr () \<longrightarrow>
      map_sum id lp_fullPath (getLapolFolder (ps_lapolFolder s)) = Inr (slash # join_slash base) \<and>
      jmap_get (ps_env s) (js ''NODE_PATH'') = Some (dirname @ js ''/..'') \<and>
      (\<exists>w'. snd (load_main libs paths dirname' s) = s\<lparr>ps_world := w'\<rparr>))"
proof (cases r)
  case (Inl e)
  with load_main_cases [OF assms(1)] show ?thesis by simp
next
  case (Inr u)
  with load_main_cases [OF assms(1)] obtain w' where s: "s = initialised_process paths dirname env w'" by auto
  have "lp_fullPath (new_LaPath paths (dirname @ js ''/../../..'') None) = slash # join_slash base"
    using three_levels_up [OF assms(4), of cwd] assms(2,3)
    by (simp add: new_LaPath_def getNodePathLib_def posix_def Let_def)
  moreover have "\<exists>w''. snd (load_main libs paths dirname' s) = s\<lparr>ps_world := w''\<rparr>"
    by (simp add: s load_main_again) (auto simp: outside_def split: prod.split)
  ultimately show ?thesis
    using Inr by (simp add: s initialised_process_def isLapolGloballyInitialized_def getLapolFolder_def jm.get_set)
qed

text \<open>The compiled file in \<^verbatim>\<open>/usr/lapol/lapol-core/build/lapol\<close>, in a process where nothing fails.\<close>

definition quiet_libs :: "unit entry_libs" where
  "quiet_libs = \<lparr>en_initPaths = (\<lambda>env w. (Inr (), w)), en_imports = (\<lambda>w. (Inr (), w)),
     en_rs_init = (\<lambda>w. (Inr (), w))\<rparr>"

theorem main_initialises_witness:
  "\<exists>s. load_main quiet_libs sample_libs (js ''/usr/lapol/lapol-core/build/lapol'') (fresh_process [] ()) =
      (Inr (), s) \<and> isLapolGloballyInitialized s \<and>
    map_sum id lp_fullPath (getLapolFolder (ps_lapolFolder s)) = Inr (js ''/usr/lapol'')"
proof -
  let ?dir = "js ''/usr/lapol/lapol-core/build/lapol''"
  let ?base = "[js ''usr'', js ''lapol'']" and ?a = "js ''lapol-core''" and ?b = "js ''build''" and ?c = "js ''lapol''"
  obtain r s where run: "load_main quiet_libs sample_libs ?dir (fresh_process [] ()) = (r, s)" by fastforce
  then have r: "r = Inr ()"
    by (simp add: entry_defs fresh_process_def quiet_libs_def)
  have dir: "?dir = slash # join_slash (?base @ [?a, ?b, ?c])"
    and plain: "\<forall>p \<in> set (?base @ [?a, ?b, ?c]). plain_part p"
    and base: "slash # join_slash ?base = js ''/usr/lapol''"
    by (simp_all add: js_def slash_def plain_part_def dot_def)
  from main_initialises [OF run _ dir plain, of "js ''/''"] run r base show ?thesis
    by (auto simp: sample_libs_def)
qed

end
