(* ===== verification/Compile.thy ===== *)
theory Compile
  imports Evaluation Processing Output StdModules Files
begin

text \<open>
  The compilation of a file (\<^verbatim>\<open>internal/compile.ts\<close>) and \<^verbatim>\<open>LapolCompiler.render\<close>: reading and
  parsing the source, the three passes, writing the code and copying what it requires.
\<close>

section \<open>One compilation\<close>

record compile_input =
  ci_inputFilePath :: la_path
  ci_outputFolder :: la_path
  ci_outRelativePath :: jstr
  ci_outputFilePath :: la_path
  ci_targetLanguage :: jstr

text \<open>The field \<^verbatim>\<open>dbgTimingInfo\<close>, a string of times for the console, is left out.\<close>

record compile_output =
  co_dbgInputText :: buffer
  co_dbgParsed :: ast_node
  co_dbgEvaluated :: ltrf_obj
  co_dbgProcessed :: ltrf_node
  co_dbgOutputted :: jstr

text \<open>
  What a compilation uses from outside: the file system, the parser of the package \<^verbatim>\<open>lapol-rs\<close>,
  which gets the path of the file for its messages, the code of users' modules, the path
  libraries, the folder of the installation and the encoder of the package \<^verbatim>\<open>he\<close>.
\<close>

record 'w host =
  ho_fs :: "'w file_system"
  ho_parse_file :: "jstr \<Rightarrow> buffer \<Rightarrow> ast_node result"
  ho_user :: user_code
  ho_outputters :: user_outputters
  ho_paths :: path_libs
  ho_lapolFolder :: "la_path option"
  ho_heEncode :: "jstr \<Rightarrow> jstr result"

definition isAstRootNode :: "ast_node \<Rightarrow> bool" where
  "isAstRootNode n = (case n of AstRootNode _ _ \<Rightarrow> True | _ \<Rightarrow> False)"

text \<open>
  The passes as steps on the store of namespaces, which all compilations share; the evaluation
  returns the storage of the file with the tree.
\<close>

definition evaluate_step ::
  "'w host \<Rightarrow> registry \<Rightarrow> ast_node \<Rightarrow> (ns_heap, ltrf_obj \<times> module_storage) act" where
  "evaluate_step H reg parsed = (\<lambda>h.
     case evaluatePass (ho_user H) reg h (make_FileContext reg) parsed of
       None \<Rightarrow> None
     | Some (Inl e) \<Rightarrow> Some (Inl e)
     | Some (Inr (evaluated, s)) \<Rightarrow> Some (Inr ((evaluated, ev_storage s), ev_heap s)))"

definition check_node :: "ltrf_obj \<Rightarrow> ltrf_node result" where
  "check_node x = (case x of Nd n \<Rightarrow> Inr n | LtrfStr _ \<Rightarrow> Inl AssertionError)"

definition output_ctx :: "'w host \<Rightarrow> registry \<Rightarrow> jstr \<Rightarrow> string_provider \<Rightarrow> out_ctx" where
  "output_ctx H reg target provider = \<lparr>oc_registry = reg, oc_target = target,
     oc_strings = provider, oc_lapolFolder = ho_lapolFolder H, oc_paths = ho_paths H,
     oc_heEncode = ho_heEncode H, oc_user = ho_outputters H\<rparr>"

definition output_step ::
  "nat \<Rightarrow> out_ctx \<Rightarrow> node_outputter jmap \<Rightarrow> module_storage \<Rightarrow> ltrf_node \<Rightarrow>
   (ns_heap, jstr \<times> required_files) act" where
  "output_step fuel c cache storage processed = (\<lambda>h.
     case outputPass fuel c processed
         \<lparr>os_lazyNodeOutputters = cache, os_files = [], os_storage = storage\<rparr> of
       None \<Rightarrow> None
     | Some (Inl e) \<Rightarrow> Some (Inl e)
     | Some (Inr (code, s)) \<Rightarrow> Some (Inr ((code, os_files s), h)))"

text \<open>
  From the text of a file to its code, and the files to copy: the part of \<^verbatim>\<open>compile\<close> between
  its first two \<^verbatim>\<open>await\<close>s, which runs without interruption.  \<open>fuel\<close> bounds the depth of the
  output pass.
\<close>

definition compile_text ::
  "'w host \<Rightarrow> nat \<Rightarrow> registry \<Rightarrow> compile_input \<Rightarrow> buffer \<Rightarrow>
   (ns_heap, compile_output \<times> required_files) act" where
  "compile_text H fuel reg c textBuf =
     act_bind (act_lift (ho_parse_file H (lp_fullPath (ci_inputFilePath c)) textBuf)) (\<lambda>parsed.
     act_bind (act_lift (assertR (isAstRootNode parsed))) (\<lambda>_.
     act_bind (evaluate_step H reg parsed) (\<lambda>(evaluated, storage).
     act_bind (act_lift (check_node evaluated)) (\<lambda>evaluatedNode.
     act_bind (act_lift (processPass evaluatedNode)) (\<lambda>processed.
     act_bind (act_lift (makeOutputDispatcher reg (ci_targetLanguage c))) (\<lambda>(cache, provider).
     act_bind (output_step fuel (output_ctx H reg (ci_targetLanguage c) provider) cache storage
         processed) (\<lambda>(code, files).
     act_return (\<lparr>co_dbgInputText = textBuf, co_dbgParsed = parsed, co_dbgEvaluated = evaluated,
       co_dbgProcessed = processed, co_dbgOutputted = code\<rparr>, files))))))))"

text \<open>The copies that a compilation starts, in the order of the map.\<close>

definition copies_of :: "path_libs \<Rightarrow> la_path \<Rightarrow> required_files \<Rightarrow> (la_path \<times> la_path) list" where
  "copies_of libs outputFolder files = map (\<lambda>(tgtDepFileRelPath, srcDepFile).
     (srcDepFile, new_LaPath libs
        (lp_fullPath outputFolder @ lp_sep outputFolder @ tgtDepFileRelPath) None)) files"

text \<open>
  \<^verbatim>\<open>compile\<close>, with the store of namespaces and the world after it.  The promise rejects with the
  error, or resolves with the output.  \<open>None\<close> is a compilation that has not settled: the output
  pass needs more than \<open>fuel\<close>, or the schedule of the copies ends before \<^verbatim>\<open>Promise.all\<close> has
  settled.
\<close>

definition compile ::
  "'w host \<Rightarrow> nat \<Rightarrow> nat list \<Rightarrow> registry \<Rightarrow> compile_input \<Rightarrow> ns_heap \<Rightarrow> 'w \<Rightarrow>
   (compile_output result \<times> ns_heap \<times> 'w) option" where
  "compile H fuel sched reg c h w =
     (case readFileBuffer (ho_fs H) (ci_inputFilePath c) w of
        (Inl e, w1) \<Rightarrow> Some (Inl e, h, w1)
      | (Inr textBuf, w1) \<Rightarrow>
          (case compile_text H fuel reg c textBuf h of
             None \<Rightarrow> None
           | Some (Inl e) \<Rightarrow> Some (Inl e, h, w1)
           | Some (Inr ((output, files), h')) \<Rightarrow>
               (case writeFile (ho_fs H) (ci_outputFilePath c) (co_dbgOutputted output) w1 of
                  (Inl e, w2) \<Rightarrow> Some (Inl e, h', w2)
                | (Inr _, w2) \<Rightarrow>
                    let st = run_copies (ho_fs H) sched
                          (start_copies w2 (copies_of (ho_paths H) (ci_outputFolder c) files))
                    in case copies_outcome st of
                         None \<Rightarrow> None
                       | Some (Inl e) \<Rightarrow> Some (Inl e, h', cp_world st)
                       | Some (Inr _) \<Rightarrow> Some (Inr output, h', cp_world st))))"

definition compile_input_for :: "path_libs \<Rightarrow> la_path \<Rightarrow> la_path \<Rightarrow> jstr \<Rightarrow> jstr \<Rightarrow> compile_input" where
  "compile_input_for libs filePath outFolder outRelativePath target =
     \<lparr>ci_inputFilePath = filePath, ci_outputFolder = outFolder, ci_outRelativePath = outRelativePath,
      ci_outputFilePath =
        new_LaPath libs (lp_fullPath outFolder @ lp_sep outFolder @ outRelativePath) None,
      ci_targetLanguage = target\<rparr>"

definition render ::
  "'w host \<Rightarrow> nat \<Rightarrow> nat list \<Rightarrow> registry \<Rightarrow> la_path \<Rightarrow> la_path \<Rightarrow> jstr \<Rightarrow> jstr \<Rightarrow> ns_heap \<Rightarrow> 'w \<Rightarrow>
   (unit result \<times> ns_heap \<times> 'w) option" where
  "render H fuel sched reg filePath outFolder outRelativePath target h w =
     (case compile H fuel sched reg
         (compile_input_for (ho_paths H) filePath outFolder outRelativePath target) h w of
        None \<Rightarrow> None
      | Some (Inl e, h', w') \<Rightarrow> Some (Inl e, h', w')
      | Some (Inr _, h', w') \<Rightarrow> Some (Inr (), h', w'))"

text \<open>\<^verbatim>\<open>LapolCompiler.render\<close>.\<close>

definition compiler_render ::
  "'w host \<Rightarrow> nat \<Rightarrow> nat list \<Rightarrow> lapol_compiler \<Rightarrow> la_path \<Rightarrow> jstr \<Rightarrow> jstr \<Rightarrow> ns_heap \<Rightarrow> 'w \<Rightarrow>
   (unit result \<times> ns_heap \<times> 'w) option" where
  "compiler_render H fuel sched cc file outRelativePath target h w =
     render H fuel sched (lc_registry cc) file (lc_outputFolder cc) outRelativePath target h w"

section \<open>What a compilation runs\<close>

lemma evaluate_step_Inr:
  "evaluate_step H reg parsed h = Some (Inr (r, h')) \<longleftrightarrow>
    (\<exists>s. evaluatePass (ho_user H) reg h (make_FileContext reg) parsed = Some (Inr (fst r, s)) \<and>
      snd r = ev_storage s \<and> h' = ev_heap s)"
  by (cases r) (auto simp: evaluate_step_def split: option.splits sum.splits)

lemma output_step_Inr:
  "output_step fuel c cache storage processed h = Some (Inr (r, h')) \<longleftrightarrow>
    (\<exists>s. outputPass fuel c processed
        \<lparr>os_lazyNodeOutputters = cache, os_files = [], os_storage = storage\<rparr> = Some (Inr (fst r, s)) \<and>
      snd r = os_files s \<and> h' = h)"
  by (cases r) (auto simp: output_step_def split: option.splits sum.splits)

lemma check_node_Inr: "check_node x = Inr n \<longleftrightarrow> x = Nd n"
  by (cases x) (auto simp: check_node_def)

lemma isAstRootNode_iff: "isAstRootNode n \<longleftrightarrow> (\<exists>ns m. n = AstRootNode ns m)"
  by (cases n) (simp_all add: isAstRootNode_def)

lemma compile_text_Inr:
  "compile_text H fuel reg c textBuf h = Some (Inr ((output, files), h')) \<longleftrightarrow>
    (\<exists>ns m n s cache provider os.
      ho_parse_file H (lp_fullPath (ci_inputFilePath c)) textBuf = Inr (AstRootNode ns m) \<and>
      evaluatePass (ho_user H) reg h (make_FileContext reg) (AstRootNode ns m) = Some (Inr (Nd n, s)) \<and>
      processPass n = Inr (co_dbgProcessed output) \<and>
      makeOutputDispatcher reg (ci_targetLanguage c) = Inr (cache, provider) \<and>
      outputPass fuel (output_ctx H reg (ci_targetLanguage c) provider) (co_dbgProcessed output)
        \<lparr>os_lazyNodeOutputters = cache, os_files = [], os_storage = ev_storage s\<rparr> =
        Some (Inr (co_dbgOutputted output, os)) \<and>
      files = os_files os \<and> h' = ev_heap s \<and> co_dbgInputText output = textBuf \<and>
      co_dbgParsed output = AstRootNode ns m \<and> co_dbgEvaluated output = Nd n)"
  by (cases "output")
    (auto simp: compile_text_def act_Inr_iffs evaluate_step_Inr output_step_Inr check_node_Inr
      isAstRootNode_iff split_beta)

lemma evaluate_step_heap:
  assumes "user_code_returns (ho_user H)" and "heap_ok h" and "registry_ok reg (length h)"
    and "evaluatePass (ho_user H) reg h storage parsed = Some (Inr (x, s))"
  shows "heap_ok (ev_heap s) \<and> length (ev_heap s) = Suc (length h) \<and> take (length h) (ev_heap s) = h"
  using evaluatePass_heap [OF assms(1-3), of storage parsed] assms(4) by simp

lemma compile_InrE:
  assumes "compile H fuel sched reg c h w = Some (Inr out, h', w')"
  obtains w1 files w2 where
    "readFileBuffer (ho_fs H) (ci_inputFilePath c) w = (Inr (co_dbgInputText out), w1)"
    and "compile_text H fuel reg c (co_dbgInputText out) h = Some (Inr ((out, files), h'))"
    and "writeFile (ho_fs H) (ci_outputFilePath c) (co_dbgOutputted out) w1 = (Inr (), w2)"
    and "copies_outcome (run_copies (ho_fs H) sched
      (start_copies w2 (copies_of (ho_paths H) (ci_outputFolder c) files))) = Some (Inr ())"
    and "w' = cp_world (run_copies (ho_fs H) sched
      (start_copies w2 (copies_of (ho_paths H) (ci_outputFolder c) files)))"
proof -
  from assms obtain buf w1 where read: "readFileBuffer (ho_fs H) (ci_inputFilePath c) w = (Inr buf, w1)"
    by (auto simp: compile_def split: prod.splits sum.splits)
  from assms obtain out1 files h1 where
    compiled: "compile_text H fuel reg c buf h = Some (Inr ((out1, files), h1))"
    by (simp add: compile_def read split: option.splits sum.splits prod.splits)
  from assms obtain w2 where
    "write": "writeFile (ho_fs H) (ci_outputFilePath c) (co_dbgOutputted out1) w1 = (Inr (), w2)"
    by (simp add: compile_def read compiled split: sum.splits prod.splits)
  have "co_dbgInputText out1 = buf" using compiled by (auto simp: compile_text_Inr)
  with assms read compiled "write" that show ?thesis
    by (auto simp: compile_def Let_def split: option.splits sum.splits)
qed

lemma compile_heap:
  assumes "compile H fuel sched reg c h w = Some (r, h', w')"
  shows "h' = h \<or> (\<exists>buf x. compile_text H fuel reg c buf h = Some (Inr (x, h')))"
  using assms by (auto simp: compile_def Let_def split: prod.splits sum.splits option.splits)

lemma writeFile_view:
  assumes "fs_documented fs encode view" and "writeFile fs p data w = (Inr (), w')"
  shows "view w' (lp_fullPath p) = Some (encode data)"
    and "q \<noteq> lp_fullPath p \<Longrightarrow> view w' q = view w q"
proof -
  note doc = fs_documentedD [OF assms(1)]
  from assms(2) obtain w1 where mk: "w1 = snd (fs_mkdirp fs (parsed_dir (lp_parsed p)) w)"
    and wr: "fs_writeFile fs (lp_fullPath p) data w1 = (Inr (), w')"
    by (auto simp: writeFile_def io_bind_def split: prod.splits sum.splits)
  from doc(5) [of "lp_fullPath p" data w1] wr show "view w' (lp_fullPath p) = Some (encode data)" by simp
  from doc(1) [of "parsed_dir (lp_parsed p)" w] doc(4) [of q "lp_fullPath p" data w1] wr mk
  show "view w' q = view w q" if "q \<noteq> lp_fullPath p" using that by simp
qed

section \<open>What is on disk afterwards\<close>

text \<open>
  C2: when a compilation resolves, the output file holds exactly the code that the passes made
  of the source file as it was on disk, and no other file has changed but the targets of the required
  files.  Each of these holds what its source holds, unless its copy has been skipped because the file
  system refused it as busy.  This is provided that the targets are different files and that none of them is
  itself the source of a copy or the output file.
\<close>

theorem compile_writes_output:
  assumes "fs_documented (ho_fs H) encode view"
    and "compile H fuel sched reg c h w = Some (Inr out, h', w')"
  shows "\<exists>w1 w2 files. let copies = copies_of (ho_paths H) (ci_outputFolder c) files;
      file = lp_fullPath (ci_outputFilePath c);
      code = Some (encode (co_dbgOutputted out));
      st = run_copies (ho_fs H) sched (start_copies w2 copies) in
    readFileBuffer (ho_fs H) (ci_inputFilePath c) w = (Inr (co_dbgInputText out), w1) \<and>
    view w (lp_fullPath (ci_inputFilePath c)) = Some (co_dbgInputText out) \<and>
    compile_text H fuel reg c (co_dbgInputText out) h = Some (Inr ((out, files), h')) \<and>
    writeFile (ho_fs H) (ci_outputFilePath c) (co_dbgOutputted out) w1 = (Inr (), w2) \<and>
    w' = cp_world st \<and>
    (copies_apart copies \<and> file \<notin> set (target_paths copies) \<longrightarrow>
      view w' file = code \<and>
      (\<forall>i < length copies. case copies ! i of (src, tgt) \<Rightarrow> ct_phase (cp_tasks st ! i) = Busy \<or>
        (if lp_fullPath src = file then view w' (lp_fullPath tgt) = code
         else view w (lp_fullPath src) \<noteq> None \<and> view w' (lp_fullPath tgt) = view w (lp_fullPath src))) \<and>
      (\<forall>p. p \<noteq> file \<and> p \<notin> set (target_paths copies) \<longrightarrow> view w' p = view w p))"
proof -
  let ?file = "lp_fullPath (ci_outputFilePath c)" and ?code = "Some (encode (co_dbgOutputted out))"
  from assms(2) obtain w1 files w2 where
    read: "readFileBuffer (ho_fs H) (ci_inputFilePath c) w = (Inr (co_dbgInputText out), w1)"
    and compiled: "compile_text H fuel reg c (co_dbgInputText out) h = Some (Inr ((out, files), h'))"
    and "write": "writeFile (ho_fs H) (ci_outputFilePath c) (co_dbgOutputted out) w1 = (Inr (), w2)"
    and copied: "copies_outcome (run_copies (ho_fs H) sched
      (start_copies w2 (copies_of (ho_paths H) (ci_outputFolder c) files))) = Some (Inr ())"
    and w': "w' = cp_world (run_copies (ho_fs H) sched
      (start_copies w2 (copies_of (ho_paths H) (ci_outputFolder c) files)))"
    by (rule compile_InrE)
  let ?copies = "copies_of (ho_paths H) (ci_outputFolder c) files"
  let ?st = "run_copies (ho_fs H) sched (start_copies w2 ?copies)"
  note doc = fs_documentedD [OF assms(1)]
  have input: "view w (lp_fullPath (ci_inputFilePath c)) = Some (co_dbgInputText out)"
    using doc(3) [of "lp_fullPath (ci_inputFilePath c)" w] read by (simp add: readFileBuffer_def)
  have w1: "view w1 = view w"
    using doc(2) [of "lp_fullPath (ci_inputFilePath c)" w] read by (simp add: readFileBuffer_def)
  have written: "view w2 q = (if q = ?file then ?code else view w q)" for q
    using writeFile_view(1) [OF assms(1) "write"] writeFile_view(2) [OF assms(1) "write", of q] w1
    by auto
  have "view w' ?file = ?code \<and>
      (\<forall>i < length ?copies. case ?copies ! i of (src, tgt) \<Rightarrow> ct_phase (cp_tasks ?st ! i) = Busy \<or>
        (if lp_fullPath src = ?file then view w' (lp_fullPath tgt) = ?code
         else view w (lp_fullPath src) \<noteq> None \<and> view w' (lp_fullPath tgt) = view w (lp_fullPath src))) \<and>
      (\<forall>p. p \<noteq> ?file \<and> p \<notin> set (target_paths ?copies) \<longrightarrow> view w' p = view w p)"
    if apart: "copies_apart ?copies" and outside: "?file \<notin> set (target_paths ?copies)"
  proof -
    note result = copies_inv_result [OF copies_inv_reach [OF assms(1) apart run_copies_steps]]
    from result [of sched w2] copied have each: "ct_phase (cp_tasks ?st ! i) = Busy \<or>
        (view w2 (lp_fullPath (fst (?copies ! i))) \<noteq> None \<and>
         view w' (lp_fullPath (snd (?copies ! i))) = view w2 (lp_fullPath (fst (?copies ! i))))"
      if "i < length ?copies" for i
      using that unfolding w' by blast
    from result [of sched w2] have "view w' p = view w2 p" if "p \<notin> set (target_paths ?copies)" for p
      using that unfolding w' by blast
    then have "view w' ?file = ?code"
      and "\<forall>p. p \<noteq> ?file \<and> p \<notin> set (target_paths ?copies) \<longrightarrow> view w' p = view w p"
      using outside by (simp_all add: written)
    moreover have "case ?copies ! i of (src, tgt) \<Rightarrow> ct_phase (cp_tasks ?st ! i) = Busy \<or>
        (if lp_fullPath src = ?file then view w' (lp_fullPath tgt) = ?code
         else view w (lp_fullPath src) \<noteq> None \<and> view w' (lp_fullPath tgt) = view w (lp_fullPath src))"
      if "i < length ?copies" for i
      using each [OF that] by (cases "?copies ! i") (auto simp: written)
    ultimately show ?thesis by blast
  qed
  with read input compiled "write" show ?thesis
    by (intro exI [of _ w1] exI [of _ w2] exI [of _ files]) (simp add: Let_def w')
qed

section \<open>Rendering many files\<close>

lemma registry_ok_mono: "registry_ok reg n \<Longrightarrow> n \<le> m \<Longrightarrow> registry_ok reg m"
  by (auto simp: registry_ok_def)

lemma compile_text_heap:
  assumes "user_code_returns (ho_user H)" and "heap_ok h" and "registry_ok reg (length h)"
    and "compile_text H fuel reg c buf h = Some (Inr (x, h'))"
  shows "heap_ok h' \<and> length h \<le> length h' \<and> take (length h) h' = h"
proof -
  obtain out files where x: "x = (out, files)" by (cases x)
  from assms(4) obtain ns m n s where "evaluatePass (ho_user H) reg h (make_FileContext reg)
      (AstRootNode ns m) = Some (Inr (Nd n, s))" and "h' = ev_heap s"
    by (auto simp: x compile_text_Inr)
  with evaluatePass_heap [OF assms(1-3), of "make_FileContext reg" "AstRootNode ns m"] show ?thesis
    by simp
qed

lemma compile_keeps_heap:
  assumes "user_code_returns (ho_user H)" and "heap_ok h" and "registry_ok reg (length h)"
    and "compile H fuel sched reg c h w = Some (r, h', w')"
  shows "heap_ok h' \<and> length h \<le> length h' \<and> take (length h) h' = h"
  using compile_heap [OF assms(4)] assms(2) by (auto dest: compile_text_heap [OF assms(1-3)])

text \<open>
  The life of a compiler: it renders files, one after the other, to any targets, and between two
  renderings anything may happen to the world.
\<close>

inductive compiler_step :: "'w host \<Rightarrow> lapol_compiler \<Rightarrow> ns_heap \<times> 'w \<Rightarrow> ns_heap \<times> 'w \<Rightarrow> bool"
  for H cc where
  step_render: "compiler_render H fuel sched cc file outRelativePath target h w = Some (r, h', w') \<Longrightarrow>
    compiler_step H cc (h, w) (h', w')"
| step_world: "compiler_step H cc (h, w) (h, w')"

inductive_cases compiler_stepE: "compiler_step H cc s s'"

lemma compiler_step_heap:
  assumes "user_code_returns (ho_user H)" and "compiler_step H cc (h, w) (h', w')"
    and "heap_ok h" and "registry_ok (lc_registry cc) (length h)"
  shows "heap_ok h' \<and> length h \<le> length h' \<and> take (length h) h' = h"
  using assms(2)
proof (rule compiler_stepE)
  fix fuel sched input outRelativePath target h0 w0 r h1 w1
  assume "(h, w) = (h0, w0)" "(h', w') = (h1, w1)"
    "compiler_render H fuel sched cc input outRelativePath target h0 w0 = Some (r, h1, w1)"
  then obtain r' where "compile H fuel sched (lc_registry cc)
      (compile_input_for (ho_paths H) input (lc_outputFolder cc) outRelativePath target) h w =
      Some (r', h', w')"
    by (auto simp: compiler_render_def render_def split: option.splits prod.splits sum.splits)
  then show ?thesis by (rule compile_keeps_heap [OF assms(1,3,4)])
qed (use assms(3) in auto)

lemma compiler_steps_heap:
  assumes "user_code_returns (ho_user H)" and "heap_ok h" and "build b h = (Inr cc, s)"
    and "(compiler_step H cc)\<^sup>*\<^sup>* (ls_heap s, w) (h', w')"
  shows "heap_ok (ls_heap s) \<and> registry_ok (lc_registry cc) (length (ls_heap s)) \<and> heap_ok h' \<and>
    registry_ok (lc_registry cc) (length h') \<and> length (ls_heap s) \<le> length h' \<and>
    take (length (ls_heap s)) h' = ls_heap s"
proof -
  from assms(3) have "lc_registry cc = ls_registry s"
    by (auto simp: build_eq Let_def split: option.splits)
  with build_inv [OF assms(2,3)] have start: "heap_ok (ls_heap s)"
      "registry_ok (lc_registry cc) (length (ls_heap s))"
    by (auto simp: load_inv_def modules_inv_def registry_ok_def list_all_iff)
  have "heap_ok (fst x) \<and> length (ls_heap s) \<le> length (fst x) \<and>
      take (length (ls_heap s)) (fst x) = ls_heap s"
    if "(compiler_step H cc)\<^sup>*\<^sup>* (ls_heap s, w) x" for x
    using that
  proof (induction rule: rtranclp_induct)
    case (step x y)
    obtain h1 w1 h2 w2 where xy: "x = (h1, w1)" "y = (h2, w2)" by (cases x, cases y) auto
    from step.IH start(2) have "registry_ok (lc_registry cc) (length h1)"
      by (auto simp: xy intro: registry_ok_mono)
    with compiler_step_heap [OF assms(1), of cc h1 w1 h2 w2] step xy
    have "heap_ok h2 \<and> length h1 \<le> length h2 \<and> take (length h1) h2 = h1" by simp
    moreover from this step.IH have "take (length (ls_heap s)) h2 = take (length (ls_heap s)) h1"
      by (metis min.absorb1 take_take xy(1) fst_conv)
    ultimately show ?case using step.IH by (simp add: xy)
  qed (use start in simp)
  from this [OF assms(4)] start show ?thesis by (auto intro: registry_ok_mono)
qed

end
