(* ===== verification/History.thy ===== *)
theory History
  imports Compile
begin

text \<open>
  What a rendering does depends on the loaded modules, the file and the disk, not on the files
  that the compiler rendered before: two runs of the evaluator, on stores that agree on the
  modules but have their roots at different addresses, go the same way.
\<close>

section \<open>Two runs\<close>

text \<open>
  Two computations agree under a relation of their states if, started in related states, both
  never return, both throw the same, or both return the same in related states.
\<close>

definition agree :: "('s \<Rightarrow> 't \<Rightarrow> bool) \<Rightarrow> ('s, 'a) act \<Rightarrow> ('t, 'a) act \<Rightarrow> bool" where
  "agree R m m' \<longleftrightarrow> (\<forall>s t. R s t \<longrightarrow> rel_option (rel_sum (=) (rel_prod (=) R)) (m s) (m' t))"

lemma agreeD:
  "agree R m m' \<Longrightarrow> R s t \<Longrightarrow> rel_option (rel_sum (=) (rel_prod (=) R)) (m s) (m' t)"
  by (simp add: agree_def)

lemma agree_return: "agree R (act_return x) (act_return x)"
  by (simp add: agree_def act_simps)

lemma agree_throw: "agree R (act_throw e) (act_throw e)"
  by (simp add: agree_def act_simps)

lemma agree_lift: "agree R (act_lift r) (act_lift r)"
  by (cases r) (simp_all add: agree_return agree_throw)

lemma agree_update: "(\<And>s t. R s t \<Longrightarrow> R (f s) (g t)) \<Longrightarrow> agree R (act_update f) (act_update g)"
  by (simp add: agree_def act_simps)

text \<open>In the continuations the value may be assumed to be one that the first run can return.\<close>

lemma agree_bind_if:
  assumes "agree R m m'"
    and "\<And>s t x s'. R s t \<Longrightarrow> m s = Some (Inr (x, s')) \<Longrightarrow> agree R (f x) (g x)"
  shows "agree R (act_bind m f) (act_bind m' g)"
  unfolding agree_def
proof (intro allI impI)
  fix s t assume st: "R s t"
  show "rel_option (rel_sum (=) (rel_prod (=) R)) (act_bind m f s) (act_bind m' g t)"
    using agreeD [OF assms(1) st]
  proof (cases rule: option.rel_cases)
    case None
    then show ?thesis by (simp add: act_bind_def)
  next
    case (Some x y)
    from this(3) show ?thesis
    proof (cases rule: rel_sum.cases)
      case (1 e e')
      with Some show ?thesis by (simp add: act_bind_def)
    next
      case (2 p q)
      then obtain v s' t' where "p = (v, s')" "q = (v, t')" and "R s' t'" by (cases p, cases q) auto
      with Some 2 agreeD [OF assms(2) [OF st]] show ?thesis by (simp add: act_bind_def)
    qed
  qed
qed

lemma agree_bind:
  "agree R m m' \<Longrightarrow> (\<And>x. agree R (f x) (g x)) \<Longrightarrow> agree R (act_bind m f) (act_bind m' g)"
  by (rule agree_bind_if)

section \<open>Stores that agree on the modules\<close>

text \<open>
  The namespaces below \<open>n\<close> are the modules'; they refer to each other only.  The roots \<open>r\<close> and \<open>r'\<close>
  are equal and refer to modules only.  What else the stores hold does not matter.
\<close>

definition twin_heaps :: "nat \<Rightarrow> ns_addr \<Rightarrow> ns_addr \<Rightarrow> ns_heap \<Rightarrow> ns_heap \<Rightarrow> bool" where
  "twin_heaps n r r' h h' \<longleftrightarrow> n \<le> r \<and> n \<le> r' \<and> r < length h \<and> r' < length h' \<and>
     (\<forall>a < n. h ! a = h' ! a \<and> ns_ok n (h ! a)) \<and> h ! r = h' ! r' \<and> ns_ok n (h ! r)"

definition twin_addr :: "nat \<Rightarrow> ns_addr \<Rightarrow> ns_addr \<Rightarrow> ns_addr \<Rightarrow> ns_addr \<Rightarrow> bool" where
  "twin_addr n r r' a b \<longleftrightarrow> (a = b \<and> a < n) \<or> (a = r \<and> b = r')"

lemma twin_ns:
  assumes "twin_heaps n r r' h h'" and "twin_addr n r r' a b"
  shows "a < length h" and "b < length h'" and "h ! a = h' ! b" and "ns_ok n (h' ! b)"
  using assms by (auto simp: twin_heaps_def twin_addr_def)

lemma twin_addr_simps [simp]: "twin_addr n r r' r r'" "a < n \<Longrightarrow> twin_addr n r r' a a"
  by (simp_all add: twin_addr_def)

lemma ns_ok_child: "ns_ok n s \<Longrightarrow> jmap_get (ns_children s) k = Some e \<Longrightarrow> entry_ok n e"
  by (auto simp: ns_ok_def dest!: map_of_SomeD)

lemma path_step_below:
  "ns_ok n s \<Longrightarrow> path_step s sub = Some (EntryNs l) \<Longrightarrow> l < n"
  using ns_ok_child [of n s sub "EntryNs l"]
  by (auto simp: path_step_def ns_ok_def entry_ok_def split: if_splits)

lemma twin_lookup:
  "twin_heaps n r r' h h' \<Longrightarrow> twin_addr n r r' a b \<Longrightarrow> ns_lookup h a i = ns_lookup h' b i"
  "twin_heaps n r r' h h' \<Longrightarrow> twin_addr n r r' a b \<Longrightarrow> ns_lookupItem h a i = ns_lookupItem h' b i"
proof (induction h a i and h a i arbitrary: b and b rule: ns_lookup_ns_lookupItem.induct)
  case (1 h a i)
  note ns = twin_ns [OF "1.prems"]
  show ?case
  proof (cases "id_path i")
    case Nil
    with ns show ?thesis by (simp add: ns_lookup_Nil)
  next
    case (Cons sub rest)
    show ?thesis
    proof (cases "(ns_isRoot (h ! a) \<or> \<not> id_absolute i) \<and> (\<exists>l. path_step (h ! a) sub = Some (EntryNs l))")
      case True
      then obtain l where l: "path_step (h ! a) sub = Some (EntryNs l)" by blast
      with ns(3,4) have "l < n" by (simp add: path_step_below)
      then have "ns_lookupItem h l \<lparr>id_absolute = id_absolute i, id_path = rest, id_name = id_name i\<rparr> =
          ns_lookupItem h' l \<lparr>id_absolute = id_absolute i, id_path = rest, id_name = id_name i\<rparr>"
        using "1.IH" [of "h ! a" sub rest "EntryNs l" l l] "1.prems"(1) ns(1) True Cons l
        by (simp add: path_step_def ns_deref_eq)
      with True l Cons ns show ?thesis by (simp add: ns_lookup_Cons)
    next
      case False
      with Cons ns show ?thesis
        by (auto simp: ns_lookup_Cons split: option.split ns_entry.split)
    qed
  qed
next
  case (2 h a i)
  note ns = twin_ns [OF "2.prems"]
  show ?case
    unfolding ns_lookupItem_eq [OF ns(1)] ns_lookupItem_eq [OF ns(2)] "2.IH" [OF "2.prems"] ns(3) ..
qed

text \<open>A lookup answers with an entry that refers to modules only.\<close>

lemma twin_lookup_entry:
  assumes "twin_heaps n r r' h h'" and "twin_addr n r r' a b" and "ns_lookup h a i = Inr (Some e)"
  shows "entry_ok n e"
proof (cases "id_path i")
  case Nil
  with assms(3) twin_ns [OF assms(1,2)] show ?thesis
    by (auto simp: ns_lookup_Nil split: if_splits intro: ns_ok_child)
next
  case Cons
  with lookup_item_only [OF twin_ns(1) [OF assms(1,2)] _ assms(3)] show ?thesis
    by (auto simp: entry_ok_def)
qed

lemma twin_names:
  assumes "twin_heaps n r r' h h'"
  shows "lookup_name h r s = lookup_name h' r' s" and "lookup_item_name h r s = lookup_item_name h' r' s"
    and "lookupCommand h r s = lookupCommand h' r' s"
    and "lookup_name h r s = Inr (Some e) \<Longrightarrow> entry_ok n e"
  using twin_lookup [OF assms, of r r'] twin_lookup_entry [OF assms, of r r']
  by (auto simp: lookup_name_def lookup_item_name_def lookupCommand_def bindR_eq_Inr_iff)

section \<open>Changes of the root\<close>

lemma twin_children_set:
  assumes "twin_heaps n r r' h h'" and "entry_ok n e" and "\<not> jmap_has (ns_children (h ! r)) k"
    and "k \<noteq> SUPER_IDENTIFIER"
  shows "rel_sum (=) (twin_heaps n r r') (children_set h r k e) (children_set h' r' k e)"
  using assms ns_ok_add [of n "h ! r" k e]
  by (auto simp: children_set_def ns_deref_eq twin_heaps_def)

lemma twin_addUsing:
  assumes "twin_heaps n r r' h h'" and "entry_ok n e"
  shows "rel_sum (=) (twin_heaps n r r') (addUsing h r k e) (addUsing h' r' k e)"
proof -
  note ns = twin_ns [OF assms(1), of r r', simplified]
  have "(case e of EntryNs c \<Rightarrow> bindR (ns_deref h c) (\<lambda>cn. assertR (ns_parent cn \<noteq> None)) | _ \<Rightarrow> Inr ()) =
      (case e of EntryNs c \<Rightarrow> bindR (ns_deref h' c) (\<lambda>cn. assertR (ns_parent cn \<noteq> None)) | _ \<Rightarrow> Inr ())"
    (is "?chk h = ?chk h'")
    using assms by (auto simp: twin_heaps_def entry_ok_def ns_deref_eq split: ns_entry.split)
  then show ?thesis
    using ns twin_children_set [OF assms, of k]
    by (cases "?chk h'"; cases "jmap_has (ns_children (h' ! r')) k"; cases "k = SUPER_IDENTIFIER")
      (simp_all add: addUsing_def ns_deref_eq assertR_def)
qed

lemma twin_rootAdd:
  assumes "twin_heaps n r r' h h'" and "a < n"
  shows "rel_sum (=) (twin_heaps n r r') (rootAddChildNamespace h r k a) (rootAddChildNamespace h' r' k a)"
  using twin_ns [OF assms(1), of r r', simplified] twin_children_set [OF assms(1), of "EntryNs a" k] assms(2)
  by (cases "jmap_has (ns_children (h' ! r')) k"; cases "k = SUPER_IDENTIFIER")
    (simp_all add: rootAddChildNamespace_def ns_deref_eq assertR_def entry_ok_def)

lemma twin_foldR:
  assumes "R s t" and "\<And>x s t. x \<in> set xs \<Longrightarrow> R s t \<Longrightarrow> rel_sum (=) R (f s x) (g t x)"
  shows "rel_sum (=) R (foldR f s xs) (foldR g t xs)"
  using assms
proof (induction xs arbitrary: s t)
  case (Cons x xs)
  from Cons.prems(2) [of x s t] Cons.prems(1) have "rel_sum (=) R (f s x) (g t x)" by simp
  then show ?case
    by (cases rule: rel_sum.cases) (use Cons in auto)
qed simp

section \<open>Evaluation\<close>

definition twin :: "nat \<Rightarrow> eval_ctx \<Rightarrow> eval_ctx \<Rightarrow> eval_state \<Rightarrow> eval_state \<Rightarrow> bool" where
  "twin n c c' s t \<longleftrightarrow> twin_heaps n (ctx_root c) (ctx_root c') (ev_heap s) (ev_heap t) \<and>
     ev_loadedModules s = ev_loadedModules t \<and> ev_storage s = ev_storage t \<and>
     ev_console s = ev_console t"

definition twin_ctx :: "nat \<Rightarrow> eval_ctx \<Rightarrow> eval_ctx \<Rightarrow> bool" where
  "twin_ctx n c c' \<longleftrightarrow> ctx_registry c = ctx_registry c' \<and> ctx_user c = ctx_user c' \<and>
     registry_ok (ctx_registry c') n"

lemma agree_on_heap:
  assumes "\<And>h h'. twin_heaps n (ctx_root c) (ctx_root c') h h' \<Longrightarrow>
    rel_sum (=) (twin_heaps n (ctx_root c) (ctx_root c')) (f h) (g h')"
  shows "agree (twin n c c') (on_heap f) (on_heap g)"
  unfolding agree_def
proof (intro allI impI)
  fix s t assume st: "twin n c c' s t"
  then have "rel_sum (=) (twin_heaps n (ctx_root c) (ctx_root c')) (f (ev_heap s)) (g (ev_heap t))"
    by (intro assms) (simp add: twin_def)
  then show "rel_option (rel_sum (=) (rel_prod (=) (twin n c c'))) (on_heap f s) (on_heap g t)"
    by (cases rule: rel_sum.cases) (use st in \<open>auto simp: on_heap_def twin_def\<close>)
qed

lemma agree_ask_heap:
  assumes "\<And>h h'. twin_heaps n (ctx_root c) (ctx_root c') h h' \<Longrightarrow> f h = g h'"
  shows "agree (twin n c c') (ask_heap f) (ask_heap g)"
  using assms by (auto simp: agree_def ask_heap_def twin_def split: sum.split)

lemma agree_on_storage: "agree (twin n c c') (on_storage m) (on_storage m)"
  by (auto simp: agree_def on_storage_def twin_def split: option.split sum.split)

lemmas agree_intros = agree_return agree_throw agree_lift agree_on_storage

lemma agree_require:
  assumes "twin_ctx n c c'"
  shows "agree (twin n c c') (call_require c a) (call_require c' a)"
proof -
  have load: "agree (twin n c c') (env_loadModule c m as) (env_loadModule c' m as)"
    if "drawer_get (reg_modules (ctx_registry c')) k = Some m" for k m as
  proof -
    have "mod_namespace m < n" using assms that by (auto simp: twin_ctx_def dest: registry_get_ok)
    then show ?thesis
      unfolding env_loadModule_def
      by (auto intro!: agree_bind agree_update agree_on_heap twin_rootAdd simp: twin_def)
  qed
  show ?thesis
    using assms unfolding call_require_def Let_def twin_ctx_def
    by (auto intro!: agree_bind [OF agree_lift] agree_bind [OF load] agree_intros
        split: option.split ltrf_obj_of.split)
qed

lemma ask_name_entry:
  assumes "twin n c c' s t" and "ask_heap (\<lambda>h. lookup_name h (ctx_root c) f) s = Some (Inr (Some e, s'))"
  shows "entry_ok n e"
  using assms twin_names(4) by (auto simp: ask_heap_Inr twin_def)

lemma agree_using: "agree (twin n c c') (call_using c a) (call_using c' a)"
proof -
  have add: "agree (twin n c c') (act_bind (act_lift (require_defined UsingNotFound target0))
      (\<lambda>target. act_bind (on_heap (\<lambda>h. addUsing h (ctx_root c) as target)) (\<lambda>_. act_return [])))
    (act_bind (act_lift (require_defined UsingNotFound target0))
      (\<lambda>target. act_bind (on_heap (\<lambda>h. addUsing h (ctx_root c') as target)) (\<lambda>_. act_return ([] :: ltrf_obj list))))"
    if "\<And>e. target0 = Some e \<Longrightarrow> entry_ok n e" for target0 as
    using that
    by (cases target0) (auto simp: require_defined_def
        intro!: agree_throw agree_bind [OF agree_on_heap] agree_return twin_addUsing)
  show ?thesis
    unfolding call_using_def split_def
    by (rule agree_bind [OF agree_lift], rule agree_bind_if [OF agree_ask_heap])
      (auto intro: twin_names(1) add dest: ask_name_entry)
qed

lemma agree_using_all: "agree (twin n c c') (call_using_all c a) (call_using_all c' a)"
proof -
  have loop: "agree (twin n c c')
     (\<lambda>s. case using_all_loop (ctx_root c) t p (ev_heap s) 0 of
            None \<Rightarrow> None
          | Some (Inl e) \<Rightarrow> Some (Inl e)
          | Some (Inr h) \<Rightarrow> Some (Inr ([] :: ltrf_obj list, s\<lparr>ev_heap := h\<rparr>)))
     (\<lambda>s. case using_all_loop (ctx_root c') t p (ev_heap s) 0 of
            None \<Rightarrow> None
          | Some (Inl e) \<Rightarrow> Some (Inl e)
          | Some (Inr h) \<Rightarrow> Some (Inr ([], s\<lparr>ev_heap := h\<rparr>)))" if t: "t < n" for t p
    unfolding agree_def
  proof (intro allI impI)
    fix s s' assume st: "twin n c c' s s'"
    let ?h = "ev_heap s" and ?h' = "ev_heap s'"
    let ?f = "\<lambda>r h kv. addUsing h r (p @ fst kv) (snd kv)"
    from st have twins: "twin_heaps n (ctx_root c) (ctx_root c') ?h ?h'" by (simp add: twin_def)
    then have bounds: "t \<noteq> ctx_root c" "t \<noteq> ctx_root c'" "t < length ?h" "t < length ?h'"
      and same: "?h ! t = ?h' ! t" and ok: "ns_ok n (?h' ! t)"
      using t by (auto simp: twin_heaps_def)
    have "rel_sum (=) (twin_heaps n (ctx_root c) (ctx_root c'))
        (foldR (?f (ctx_root c)) ?h (ns_children (?h' ! t)))
        (foldR (?f (ctx_root c')) ?h' (ns_children (?h' ! t)))"
      using ok by (intro twin_foldR [where R = "twin_heaps n (ctx_root c) (ctx_root c')"] twins
          twin_addUsing) (auto simp: ns_ok_def)
    then show "rel_option (rel_sum (=) (rel_prod (=) (twin n c c')))
        (case using_all_loop (ctx_root c) t p ?h 0 of None \<Rightarrow> None | Some (Inl e) \<Rightarrow> Some (Inl e)
          | Some (Inr h) \<Rightarrow> Some (Inr ([], s\<lparr>ev_heap := h\<rparr>)))
        (case using_all_loop (ctx_root c') t p ?h' 0 of None \<Rightarrow> None | Some (Inl e) \<Rightarrow> Some (Inl e)
          | Some (Inr h) \<Rightarrow> Some (Inr ([], s'\<lparr>ev_heap := h\<rparr>)))"
      by (cases rule: rel_sum.cases)
        (use st in \<open>auto simp: using_all_loop_fold bounds same twin_def\<close>)
  qed
  have below: "t < n" if "twin n c c' s s'"
    "ask_heap (\<lambda>h. lookup_name h (ctx_root c) f) s = Some (Inr (Some (EntryNs t), s1))" for s s' f t s1
    using ask_name_entry [OF that] by (simp add: entry_ok_def)
  show ?thesis
    unfolding call_using_all_def split_def
    by (rule agree_bind [OF agree_lift], rule agree_bind_if [OF agree_ask_heap])
      (auto intro!: twin_names(1) agree_throw loop below split: option.split ns_entry.split)
qed

lemma agree_call:
  assumes "twin_ctx n c c'"
  shows "agree (twin n c c') (call_command c cmd a) (call_command c' cmd a)"
  using assms agree_require [OF assms] agree_using agree_using_all
  by (cases cmd) (auto simp: twin_ctx_def intro: agree_on_storage)

lemma agree_evaluation:
  "twin_ctx n c c' \<Longrightarrow> agree (twin n c c') (evaluateNode c m) (evaluateNode c' m)"
  "twin_ctx n c c' \<Longrightarrow> agree (twin n c c') (evaluateCommandNode c name sq cu) (evaluateCommandNode c' name sq cu)"
  "twin_ctx n c c' \<Longrightarrow> agree (twin n c c') (evaluateSquareArgs c sqs v kv) (evaluateSquareArgs c' sqs v kv)"
  "twin_ctx n c c' \<Longrightarrow> agree (twin n c c') (evaluateSquareEntry c e) (evaluateSquareEntry c' e)"
  "twin_ctx n c c' \<Longrightarrow> agree (twin n c c') (evaluateCurlyArgs c cus) (evaluateCurlyArgs c' cus)"
  "twin_ctx n c c' \<Longrightarrow> agree (twin n c c') (evaluateNodes c ns) (evaluateNodes c' ns)"
proof (induction c m and c name sq cu and c sqs v kv and c e and c cus and c ns
    rule: evaluateNode_evaluateCommandNode_evaluateSquareArgs_evaluateSquareEntry_evaluateCurlyArgs_evaluateNodes.induct)
  case (4 c name sq cu)
  have squares: "agree (twin n c c')
      (case sq of None \<Rightarrow> act_return ([], []) | Some sqs \<Rightarrow> evaluateSquareArgs c sqs [] [])
      (case sq of None \<Rightarrow> act_return ([], []) | Some sqs \<Rightarrow> evaluateSquareArgs c' sqs [] [])"
    if "argumentEvaluation cmd = Eager" for cmd
    using 4 that by (cases sq) (auto intro: agree_return)
  show ?case
    unfolding evaluateCommandNode.simps
    by (rule agree_bind [OF agree_ask_heap])
      (use 4 squares agree_call in \<open>auto intro!: agree_throw agree_bind twin_names(3)\<close>)
next
  case (7 c key val xs rest v kv)
  then show ?case by (auto intro!: agree_bind agree_throw split: option.splits)
next
  case (14 c name sq cu m)
  then show ?case by (auto intro!: agree_bind agree_intros split: list.splits)
qed (auto simp: evaluateTextNode_def intro!: agree_bind agree_intros)

section \<open>Whole compilations\<close>

definition same_modules :: "nat \<Rightarrow> ns_heap \<Rightarrow> ns_heap \<Rightarrow> bool" where
  "same_modules n h h' \<longleftrightarrow> n \<le> length h \<and> n \<le> length h' \<and> (\<forall>a < n. h ! a = h' ! a \<and> ns_ok n (h ! a))"

lemma twin_new_root:
  "same_modules n h h' \<Longrightarrow> new_RootNamespace h = (r, h1) \<Longrightarrow> new_RootNamespace h' = (r', h1') \<Longrightarrow>
   twin_heaps n r r' h1 h1'"
proof -
  have "ns_ok n \<lparr>ns_name = js ''__root__'', ns_isRoot = True, ns_parent = None, ns_children = []\<rparr>"
    by (simp add: ns_ok_def jmap_keys_def)
  moreover assume "same_modules n h h'" "new_RootNamespace h = (r, h1)" "new_RootNamespace h' = (r', h1')"
  ultimately show ?thesis
    by (auto simp: new_RootNamespace_def same_modules_def twin_heaps_def nth_append)
qed

lemma twin_same: "twin_heaps n r r' h h' \<Longrightarrow> same_modules n h h'"
  unfolding twin_heaps_def same_modules_def by (elim conjE, intro conjI) (linarith, linarith, assumption)

lemma twin_addUsingFromCore:
  assumes "twin_heaps n r r' h h'"
  shows "rel_sum (=) (twin_heaps n r r') (addUsingFromCore r h x) (addUsingFromCore r' h' x)"
proof (cases "lookup_item_name h' r' (STD_CORE_MOD @ [colon] @ x)")
  case (Inr item)
  have "entry_ok n (case item of None \<Rightarrow> EntryUndefined | Some c \<Rightarrow> EntryItem c)"
    by (simp add: entry_ok_def split: option.split)
  from twin_addUsing [OF assms this] Inr show ?thesis
    by (simp add: addUsingFromCore_def twin_names(2) [OF assms])
qed (simp add: addUsingFromCore_def twin_names(2) [OF assms])

lemma twin_environment:
  assumes "same_modules n h h'" and "registry_ok reg n"
  shows "rel_sum (=) (\<lambda>(c, s) (c', t). twin_ctx n c c' \<and> twin n c c' s t)
    (makeEnvironmentWithStdCoreSetup u reg h st) (makeEnvironmentWithStdCoreSetup u reg h' st)"
proof -
  obtain r h1 where new: "new_RootNamespace h = (r, h1)" by fastforce
  obtain r' h1' where new': "new_RootNamespace h' = (r', h1')" by fastforce
  note twins = twin_new_root [OF assms(1) new new']
  show ?thesis
  proof (cases "drawer_get (reg_modules reg) STD_CORE_MOD")
    case None
    then show ?thesis by (simp add: makeEnvironmentWithStdCoreSetup_def new new')
  next
    case (Some m)
    then have "mod_namespace m < n" using assms(2) by (blast dest: registry_get_ok)
    with twins have "rel_sum (=) (twin_heaps n r r') (rootAddChildNamespace h1 r (mod_identifier m) (mod_namespace m))
        (rootAddChildNamespace h1' r' (mod_identifier m) (mod_namespace m))"
      by (rule twin_rootAdd)
    then have "rel_sum (=) (twin_heaps n r r')
        (bindR (rootAddChildNamespace h1 r (mod_identifier m) (mod_namespace m))
          (\<lambda>h2. foldR (addUsingFromCore r) h2 DEFAULT_USE_FROM_CORE))
        (bindR (rootAddChildNamespace h1' r' (mod_identifier m) (mod_namespace m))
          (\<lambda>h2. foldR (addUsingFromCore r') h2 DEFAULT_USE_FROM_CORE))"
      by (cases rule: rel_sum.cases) (auto intro!: twin_foldR twin_addUsingFromCore simp del: foldR.simps)
    then show ?thesis
      unfolding makeEnvironmentWithStdCoreSetup_def new new' Some Let_def prod.case option.case
        bindR_assoc [symmetric]
      by (cases rule: rel_sum.cases) (use assms(2) in \<open>auto simp: twin_def twin_ctx_def\<close>)
  qed
qed

lemma agree_evaluate_step:
  assumes "registry_ok reg n"
  shows "agree (same_modules n) (evaluate_step H reg parsed) (evaluate_step H reg parsed)"
  unfolding agree_def
proof (intro allI impI)
  fix h h' assume "same_modules n h h'"
  let ?run = "\<lambda>c. act_bind (evaluateRootNode c parsed) (\<lambda>out. case out of
              [x] \<Rightarrow> act_return x
            | _ \<Rightarrow> act_throw (EvalError RootMustReturnSingle))"
  have root: "agree (twin n c c') (?run c) (?run c')" if "twin_ctx n c c'" for c c'
    unfolding evaluateRootNode_def
    by (cases parsed) (auto intro!: agree_bind agree_intros agree_update agree_evaluation(6) that
        simp: twin_def split: list.split)
  have step: "evaluate_step H reg parsed h = (case makeEnvironmentWithStdCoreSetup (ho_user H) reg h
        (make_FileContext reg) of
        Inl e \<Rightarrow> Some (Inl e)
      | Inr (c, s) \<Rightarrow> map_option (map_sum id (\<lambda>(x, s). ((x, ev_storage s), ev_heap s))) (?run c s))" for h
    by (auto simp: evaluate_step_def evaluatePass_def split: sum.split option.split)
  from twin_environment [OF \<open>same_modules n h h'\<close> assms, of "ho_user H" "make_FileContext reg"]
  show "rel_option (rel_sum (=) (rel_prod (=) (same_modules n))) (evaluate_step H reg parsed h)
      (evaluate_step H reg parsed h')"
    unfolding step
  proof (cases rule: rel_sum.cases)
    case (2 p q)
    obtain c s c' t where pq: "p = (c, s)" "q = (c', t)" by (cases p, cases q) auto
    with 2 agreeD [OF root] have "rel_option (rel_sum (=) (rel_prod (=) (twin n c c'))) (?run c s) (?run c' t)"
      by simp
    then have "rel_option (rel_sum (=) (rel_prod (=) (same_modules n)))
      (map_option (map_sum id (\<lambda>(x, s). ((x, ev_storage s), ev_heap s))) (?run c s))
      (map_option (map_sum id (\<lambda>(x, s). ((x, ev_storage s), ev_heap s))) (?run c' t))"
      by (cases "?run c s"; cases "?run c' t") (auto simp: rel_sum.simps twin_def intro: twin_same)
    with 2 pq show "rel_option (rel_sum (=) (rel_prod (=) (same_modules n)))
       (case makeEnvironmentWithStdCoreSetup (ho_user H) reg h (make_FileContext reg) of
        Inl e \<Rightarrow> Some (Inl e)
      | Inr (c, s) \<Rightarrow> map_option (map_sum id (\<lambda>(x, s). ((x, ev_storage s), ev_heap s))) (?run c s))
       (case makeEnvironmentWithStdCoreSetup (ho_user H) reg h' (make_FileContext reg) of
        Inl e \<Rightarrow> Some (Inl e)
      | Inr (c, s) \<Rightarrow> map_option (map_sum id (\<lambda>(x, s). ((x, ev_storage s), ev_heap s))) (?run c s))"
      by simp
  qed simp
qed

lemma agree_compile_text:
  assumes "registry_ok reg n"
  shows "agree (same_modules n) (compile_text H fuel reg c buf) (compile_text H fuel reg c buf)"
proof -
  have out: "agree (same_modules n) (output_step fuel oc cache st r) (output_step fuel oc cache st r)"
    for oc cache st r
    by (auto simp: agree_def output_step_def split: option.split sum.split)
  show ?thesis
    unfolding compile_text_def split_def
    by (intro agree_bind agree_lift agree_return agree_evaluate_step [OF assms] out)
qed

text \<open>The result and the world after a compilation.\<close>

definition effect :: "(compile_output result \<times> ns_heap \<times> 'w) option \<Rightarrow> (compile_output result \<times> 'w) option" where
  "effect x = map_option (\<lambda>(r, h, w). (r, w)) x"

lemma compile_same_modules:
  assumes "registry_ok reg n" and "same_modules n h h'"
  shows "effect (compile H fuel sched reg c h w) = effect (compile H fuel sched reg c h' w)"
proof -
  have run: "rel_option (rel_sum (=) (rel_prod (=) (same_modules n)))
      (compile_text H fuel reg c buf h) (compile_text H fuel reg c buf h')" for buf
    by (rule agreeD [OF agree_compile_text [OF assms(1)] assms(2)])
  obtain r w1 where read: "readFileBuffer (ho_fs H) (ci_inputFilePath c) w = (r, w1)" by fastforce
  show ?thesis
  proof (cases r)
    case (Inl e)
    then show ?thesis by (simp add: compile_def read effect_def)
  next
    case (Inr buf)
    from run [of buf] show ?thesis
      by (cases "compile_text H fuel reg c buf h"; cases "compile_text H fuel reg c buf h'")
        (auto simp: compile_def read Inr rel_sum.simps effect_def Let_def split: prod.split sum.split option.split)
  qed
qed

text \<open>
  C5: the history of a compiler cannot be observed: whatever it has rendered before, with success
  or not, compiling a file on a given disk gives the same result and leaves the same disk as with
  the compiler as it was built.
\<close>

theorem rendering_independent_of_history:
  assumes "user_code_returns (ho_user H)" and "heap_ok h" and "build b h = (Inr cc, s)"
    and "(compiler_step H cc)\<^sup>*\<^sup>* (ls_heap s, w) (h', w')"
  shows "effect (compile H fuel sched (lc_registry cc) c h' w1) =
    effect (compile H fuel sched (lc_registry cc) c (ls_heap s) w1)"
proof (rule compile_same_modules)
  note kept = compiler_steps_heap [OF assms]
  show "registry_ok (lc_registry cc) (length (ls_heap s))" using kept by simp
  have "h' ! a = ls_heap s ! a" if "a < length (ls_heap s)" for a
    using kept that by (metis nth_take)
  then show "same_modules (length (ls_heap s)) h' (ls_heap s)"
    using kept heap_ok_nth [of "ls_heap s"] by (auto simp: same_modules_def)
qed

end
