(* ===== verification/Overlap.thy ===== *)
theory Overlap
  imports History
begin

text \<open>
  Renderings that overlap in time (\<^verbatim>\<open>internal/compile.ts\<close> between its \<^verbatim>\<open>await\<close>s): the compilations
  that one compiler has started share the store of namespaces and the disk, and the event loop
  interleaves their operations in any order.
\<close>

section \<open>A compilation as a job\<close>

text \<open>
  Where a compilation stands: before the reading of its source; with the text that was read, its
  three passes to be run; with the code, before the two operations of \<^verbatim>\<open>writeFile\<close>; with its copies
  under way.  \<open>WriteFailed\<close> keeps apart the failure after which the output file may be spoiled.
\<close>

datatype job_phase =
    Reading
  | Evaluating buffer
  | MakingFolder compile_output required_files
  | Writing compile_output required_files
  | Copying compile_output "copy_task list" "js_error option"
  | JobFailed js_error
  | WriteFailed compile_output required_files js_error

text \<open>
  One turn: the next operation on the outside world that completes, or the part of \<^verbatim>\<open>compile\<close>
  between its first two \<^verbatim>\<open>await\<close>s, which nothing interrupts.  When copying, \<open>k\<close> is the task whose
  operation completes.  \<open>None\<close>: no such turn.
\<close>

fun job_turn ::
  "'w host \<Rightarrow> nat \<Rightarrow> registry \<Rightarrow> compile_input \<Rightarrow> nat \<Rightarrow> job_phase \<Rightarrow> ns_heap \<Rightarrow> 'w \<Rightarrow>
   (job_phase \<times> ns_heap \<times> 'w) option" where
  "job_turn H fuel reg c k Reading h w =
     (case readFileBuffer (ho_fs H) (ci_inputFilePath c) w of
        (Inl e, w') \<Rightarrow> Some (JobFailed e, h, w')
      | (Inr textBuf, w') \<Rightarrow> Some (Evaluating textBuf, h, w'))"
| "job_turn H fuel reg c k (Evaluating textBuf) h w =
     (case compile_text H fuel reg c textBuf h of
        None \<Rightarrow> None
      | Some (Inl e) \<Rightarrow> Some (JobFailed e, h, w)
      | Some (Inr ((out, files), h')) \<Rightarrow> Some (MakingFolder out files, h', w))"
| "job_turn H fuel reg c k (MakingFolder out files) h w =
     (case fs_mkdirp (ho_fs H) (parsed_dir (lp_parsed (ci_outputFilePath c))) w of
        (Inl e, w') \<Rightarrow> Some (JobFailed e, h, w')
      | (Inr _, w') \<Rightarrow> Some (Writing out files, h, w'))"
| "job_turn H fuel reg c k (Writing out files) h w =
     (case fs_writeFile (ho_fs H) (lp_fullPath (ci_outputFilePath c)) (co_dbgOutputted out) w of
        (Inl e, w') \<Rightarrow> Some (WriteFailed out files e, h, w')
      | (Inr _, w') \<Rightarrow>
          let st = start_copies w' (copies_of (ho_paths H) (ci_outputFolder c) files)
          in Some (Copying out (cp_tasks st) (cp_rejected st), h, w'))"
| "job_turn H fuel reg c k (Copying out ts rej) h w =
     (if k < length ts \<and> \<not> finished (ct_phase (ts ! k)) then
        let st = copy_turn (ho_fs H) k \<lparr>cp_world = w, cp_tasks = ts, cp_rejected = rej\<rparr>
        in Some (Copying out (cp_tasks st) (cp_rejected st), h, cp_world st)
      else None)"
| "job_turn H fuel reg c k (JobFailed e) h w = None"
| "job_turn H fuel reg c k (WriteFailed out files e) h w = None"

text \<open>What the promise of \<^verbatim>\<open>compile\<close> has settled with, if it has.\<close>

fun job_outcome :: "job_phase \<Rightarrow> compile_output result option" where
  "job_outcome (JobFailed e) = Some (Inl e)"
| "job_outcome (WriteFailed out files e) = Some (Inl e)"
| "job_outcome (Copying out ts rej) =
     map_option (map_sum id (\<lambda>_. out)) (copies_outcome \<lparr>cp_world = (), cp_tasks = ts, cp_rejected = rej\<rparr>)"
| "job_outcome _ = None"

section \<open>A job alone\<close>

definition job_run ::
  "'w host \<Rightarrow> nat \<Rightarrow> registry \<Rightarrow> compile_input \<Rightarrow> nat list \<Rightarrow> job_phase \<times> ns_heap \<times> 'w \<Rightarrow>
   job_phase \<times> ns_heap \<times> 'w" where
  "job_run H fuel reg c ks s0 = foldl (\<lambda>s k. case s of (p, h, w) \<Rightarrow>
     (case job_turn H fuel reg c k p h w of None \<Rightarrow> s | Some s' \<Rightarrow> s')) s0 ks"

lemma job_run_simps [simp]:
  "job_run H fuel reg c [] s = s"
  "job_run H fuel reg c (k # ks) (p, h, w) = job_run H fuel reg c ks
     (case job_turn H fuel reg c k p h w of None \<Rightarrow> (p, h, w) | Some s \<Rightarrow> s)"
  by (simp_all add: job_run_def)

lemma job_run_failed [simp]:
  "job_run H fuel reg c ks (JobFailed e, h, w) = (JobFailed e, h, w)"
  "job_run H fuel reg c ks (WriteFailed out files e, h, w) = (WriteFailed out files e, h, w)"
  by (induction ks) simp_all

lemma job_run_stuck:
  "compile_text H fuel reg c buf h = None \<Longrightarrow>
   job_run H fuel reg c ks (Evaluating buf, h, w) = (Evaluating buf, h, w)"
  by (induction ks) simp_all

lemma job_run_copies:
  "job_run H fuel reg c ks (Copying out (cp_tasks st) (cp_rejected st), h, cp_world st) =
    (Copying out (cp_tasks (run_copies (ho_fs H) ks st)) (cp_rejected (run_copies (ho_fs H) ks st)), h,
      cp_world (run_copies (ho_fs H) ks st))"
proof (induction ks arbitrary: st)
  case (Cons k ks)
  have eq: "\<lparr>cp_world = cp_world st, cp_tasks = cp_tasks st, cp_rejected = cp_rejected st\<rparr> = st"
    by simp
  show ?case
  proof (cases "k < length (cp_tasks st) \<and> \<not> finished (ct_phase (cp_tasks st ! k))")
    case True
    then show ?thesis
      using Cons.IH [of "copy_turn (ho_fs H) k st"] by (simp add: run_copies_def Let_def eq)
  next
    case False
    then have "copy_turn (ho_fs H) k st = st" by (auto simp: copy_turn_def)
    with False Cons.IH [of st] show ?thesis by (auto simp: run_copies_def)
  qed
qed (simp add: run_copies_def)

lemma copies_outcome_world:
  "copies_outcome \<lparr>cp_world = (), cp_tasks = cp_tasks st, cp_rejected = cp_rejected st\<rparr> = copies_outcome st"
  by (simp add: copies_outcome_def)

text \<open>
  A job that runs alone is a compilation: four turns, and then those of a schedule of the
  copies, do what \<^verbatim>\<open>compile\<close> does, with the same result, store and world.
\<close>

lemma job_alone_is_compile:
  "compile H fuel sched reg c h w =
    (case job_run H fuel reg c (replicate 4 0 @ sched) (Reading, h, w) of
       (p, h', w') \<Rightarrow> map_option (\<lambda>r. (r, h', w')) (job_outcome p))"
proof -
  obtain r w1 where read: "readFileBuffer (ho_fs H) (ci_inputFilePath c) w = (r, w1)" by fastforce
  show ?thesis
  proof (cases r)
    case (Inl e)
    then show ?thesis by (simp add: compile_def read numeral_eq_Suc)
  next
    case (Inr buf)
    show ?thesis
    proof (cases "compile_text H fuel reg c buf h")
      case None
      with Inr show ?thesis by (simp add: compile_def read numeral_eq_Suc job_run_stuck)
    next
      case (Some x)
      show ?thesis
      proof (cases x)
        case (Inl e)
        with \<open>r = Inr buf\<close> Some show ?thesis by (simp add: compile_def read numeral_eq_Suc)
      next
        case x: (Inr y)
        obtain out files h1 where y: "y = ((out, files), h1)" by (cases y) auto
        obtain r2 w2 where mk: "fs_mkdirp (ho_fs H) (parsed_dir (lp_parsed (ci_outputFilePath c))) w1 = (r2, w2)"
          by fastforce
        obtain r3 w3 where wr: "fs_writeFile (ho_fs H) (lp_fullPath (ci_outputFilePath c))
            (co_dbgOutputted out) w2 = (r3, w3)" by fastforce
        let ?st = "start_copies w3 (copies_of (ho_paths H) (ci_outputFolder c) files)"
        have "job_run H fuel reg c sched (Copying out (cp_tasks ?st) (cp_rejected ?st), h1, w3) =
          (Copying out (cp_tasks (run_copies (ho_fs H) sched ?st))
            (cp_rejected (run_copies (ho_fs H) sched ?st)), h1, cp_world (run_copies (ho_fs H) sched ?st))"
          using job_run_copies [of H fuel reg c sched out ?st h1] by simp
        with \<open>r = Inr buf\<close> Some x y mk wr show ?thesis
          by (cases r2; cases r3)
            (auto simp: compile_def read numeral_eq_Suc writeFile_def io_bind_def Let_def
              copies_outcome_world simp del: copy_turn_sel(2,4) split: option.split sum.split)
      qed
    qed
  qed
qed

section \<open>Interleaving\<close>

record compile_job =
  jb_input :: compile_input
  jb_phase :: job_phase

record 'w overlap =
  ol_heap :: ns_heap
  ol_world :: 'w
  ol_jobs :: "compile_job list"

definition start_jobs :: "ns_heap \<Rightarrow> 'w \<Rightarrow> compile_input list \<Rightarrow> 'w overlap" where
  "start_jobs h w cs = \<lparr>ol_heap = h, ol_world = w,
     ol_jobs = map (\<lambda>c. \<lparr>jb_input = c, jb_phase = Reading\<rparr>) cs\<rparr>"

text \<open>
  Any job may take the next turn.  A job that has not had its first turn is one that has not
  been started, so the jobs of a run need not start together.
\<close>

inductive overlap_step :: "'w host \<Rightarrow> nat \<Rightarrow> registry \<Rightarrow> 'w overlap \<Rightarrow> 'w overlap \<Rightarrow> bool"
  for H fuel reg where
  overlap_turn: "i < length (ol_jobs st) \<Longrightarrow>
    job_turn H fuel reg (jb_input (ol_jobs st ! i)) k (jb_phase (ol_jobs st ! i)) (ol_heap st) (ol_world st) =
      Some (p, h, w) \<Longrightarrow>
    overlap_step H fuel reg st \<lparr>ol_heap = h, ol_world = w,
      ol_jobs = (ol_jobs st)[i := (ol_jobs st ! i)\<lparr>jb_phase := p\<rparr>]\<rparr>"

inductive_cases overlap_stepE: "overlap_step H fuel reg st st'"

lemma start_jobs_sel [simp]:
  "ol_heap (start_jobs h w cs) = h" "ol_world (start_jobs h w cs) = w"
  "length (ol_jobs (start_jobs h w cs)) = length cs"
  "i < length cs \<Longrightarrow> ol_jobs (start_jobs h w cs) ! i = \<lparr>jb_input = cs ! i, jb_phase = Reading\<rparr>"
  by (simp_all add: start_jobs_def)

lemma overlap_inputs:
  "(overlap_step H fuel reg)\<^sup>*\<^sup>* (start_jobs h w cs) st \<Longrightarrow> map jb_input (ol_jobs st) = cs"
proof (induction rule: rtranclp_induct)
  case (step st st')
  from step(2) show ?case
    by (rule overlap_stepE) (use step.IH in \<open>simp add: map_update_same\<close>)
qed (simp add: start_jobs_def comp_def)

text \<open>A schedule of turns: pairs of a job and, while it copies, one of its tasks.\<close>

definition overlap_turns ::
  "'w host \<Rightarrow> nat \<Rightarrow> registry \<Rightarrow> (nat \<times> nat) list \<Rightarrow> 'w overlap \<Rightarrow> 'w overlap" where
  "overlap_turns H fuel reg sched st0 = foldl (\<lambda>st (i, k).
     if i < length (ol_jobs st) then
       (case job_turn H fuel reg (jb_input (ol_jobs st ! i)) k (jb_phase (ol_jobs st ! i))
           (ol_heap st) (ol_world st) of
          None \<Rightarrow> st
        | Some (p, h, w) \<Rightarrow> \<lparr>ol_heap = h, ol_world = w,
            ol_jobs = (ol_jobs st)[i := (ol_jobs st ! i)\<lparr>jb_phase := p\<rparr>]\<rparr>)
     else st) st0 sched"

lemma overlap_turns_steps: "(overlap_step H fuel reg)\<^sup>*\<^sup>* st (overlap_turns H fuel reg sched st)"
proof (induction sched rule: rev_induct)
  case (snoc ik sched)
  obtain i k where ik: "ik = (i, k)" by fastforce
  let ?st = "overlap_turns H fuel reg sched st"
  have "?st = overlap_turns H fuel reg (sched @ [ik]) st \<or>
      overlap_step H fuel reg ?st (overlap_turns H fuel reg (sched @ [ik]) st)"
    by (auto simp: overlap_turns_def ik split: option.split intro: overlap_turn)
  with snoc show ?case by (auto intro: rtranclp.rtrancl_into_rtrancl)
qed (simp add: overlap_turns_def)

lemma overlap_turns_append:
  "overlap_turns H fuel reg (xs @ ys) st = overlap_turns H fuel reg ys (overlap_turns H fuel reg xs st)"
  by (simp add: overlap_turns_def)

section \<open>The shared namespaces\<close>

text \<open>The store of the loaded modules, below new roots that other compilations have added.\<close>

definition modules_kept :: "registry \<Rightarrow> ns_heap \<Rightarrow> ns_heap \<Rightarrow> bool" where
  "modules_kept reg h0 h \<longleftrightarrow> heap_ok h0 \<and> heap_ok h \<and> registry_ok reg (length h0) \<and>
     length h0 \<le> length h \<and> take (length h0) h = h0"

lemma modules_kept_same: "modules_kept reg h0 h \<Longrightarrow> same_modules (length h0) h h0"
proof -
  assume kept: "modules_kept reg h0 h"
  then have "h ! a = h0 ! a" if "a < length h0" for a
    using that by (metis modules_kept_def nth_take)
  with kept heap_ok_nth [of h0] show "same_modules (length h0) h h0"
    by (auto simp: modules_kept_def same_modules_def)
qed

lemma compile_text_modules:
  assumes "user_code_returns (ho_user H)" and "modules_kept reg h0 h"
    and "compile_text H fuel reg c buf h = Some (Inr (x, h'))"
  shows "modules_kept reg h0 h'"
proof -
  from assms(2) have h: "heap_ok h" "registry_ok reg (length h)"
    by (auto simp: modules_kept_def intro: registry_ok_mono)
  from compile_text_heap [OF assms(1) h assms(3)] assms(2) show ?thesis
    by (auto simp: modules_kept_def) (metis min.absorb1 take_take)
qed

text \<open>The code of a job does not depend on the roots of the others.\<close>

lemma compile_text_alone:
  assumes "modules_kept reg h0 h"
  shows "rel_option (rel_sum (=) (rel_prod (=) (same_modules (length h0))))
    (compile_text H fuel reg c buf h) (compile_text H fuel reg c buf h0)"
proof (rule agreeD [OF agree_compile_text modules_kept_same [OF assms]])
  show "registry_ok reg (length h0)" using assms by (simp add: modules_kept_def)
qed

lemma compile_text_alone_Inr:
  assumes "modules_kept reg h0 h" and "compile_text H fuel reg c buf h = Some (Inr (x, h'))"
  shows "\<exists>h''. compile_text H fuel reg c buf h0 = Some (Inr (x, h''))"
  using compile_text_alone [OF assms(1), of H fuel c buf] assms(2)
  by (auto simp: option.rel_sel rel_sum.simps)

text \<open>What a job holds is what its compilation alone makes of the text it has read.\<close>

definition makes ::
  "'w host \<Rightarrow> nat \<Rightarrow> registry \<Rightarrow> ns_heap \<Rightarrow> compile_input \<Rightarrow> compile_output \<Rightarrow> required_files \<Rightarrow> bool" where
  "makes H fuel reg h0 c out files \<longleftrightarrow>
     (\<exists>h. compile_text H fuel reg c (co_dbgInputText out) h0 = Some (Inr ((out, files), h)))"

definition copies_for :: "'w host \<Rightarrow> compile_input \<Rightarrow> required_files \<Rightarrow> (la_path \<times> la_path) list" where
  "copies_for H c files = copies_of (ho_paths H) (ci_outputFolder c) files"

fun phase_made :: "'w host \<Rightarrow> nat \<Rightarrow> registry \<Rightarrow> ns_heap \<Rightarrow> compile_input \<Rightarrow> job_phase \<Rightarrow> bool" where
  "phase_made H fuel reg h0 c (MakingFolder out files) = makes H fuel reg h0 c out files"
| "phase_made H fuel reg h0 c (Writing out files) = makes H fuel reg h0 c out files"
| "phase_made H fuel reg h0 c (WriteFailed out files e) = makes H fuel reg h0 c out files"
| "phase_made H fuel reg h0 c (Copying out ts rej) = (\<exists>files. makes H fuel reg h0 c out files \<and>
     map (\<lambda>t. (ct_source t, ct_target t)) ts = copies_for H c files)"
| "phase_made H fuel reg h0 c _ = True"

lemma copy_turn_names:
  "map (\<lambda>t. (ct_source t, ct_target t)) (cp_tasks (copy_turn fs k st)) =
   map (\<lambda>t. (ct_source t, ct_target t)) (cp_tasks st)"
  by (auto simp: copy_turn_def Let_def map_update_same split: prod.split)

lemma start_copies_names:
  "map (\<lambda>t. (ct_source t, ct_target t)) (cp_tasks (start_copies w copies)) = copies"
  by (induction copies) auto

lemma job_turn_made:
  assumes "user_code_returns (ho_user H)" and "modules_kept reg h0 h"
    and "phase_made H fuel reg h0 c p" and "job_turn H fuel reg c k p h w = Some (p', h', w')"
  shows "modules_kept reg h0 h' \<and> phase_made H fuel reg h0 c p'"
proof (cases p)
  case (Evaluating buf)
  with assms(4) consider e where "p' = JobFailed e" "h' = h"
    | out files where "compile_text H fuel reg c buf h = Some (Inr ((out, files), h'))"
        "p' = MakingFolder out files"
    by (auto split: option.splits sum.splits)
  then show ?thesis
  proof cases
    case (2 out files)
    from 2(1) have "co_dbgInputText out = buf" by (auto simp: compile_text_Inr)
    with 2 compile_text_alone_Inr [OF assms(2) 2(1)] compile_text_modules [OF assms(1,2) 2(1)]
    show ?thesis by (simp add: makes_def)
  qed (use assms(2) in simp)
next
  case (Copying out ts rej)
  then show ?thesis
    using assms(2-4) by (auto simp: Let_def copy_turn_names split: if_splits)
next
  case (Writing out files)
  then show ?thesis
    using assms(2-4) by (auto simp: Let_def start_copies_names copies_for_def
        simp del: copy_turn_sel(2) split: prod.splits sum.splits)
qed (use assms(2-4) in \<open>auto split: prod.splits sum.splits\<close>)

lemma overlap_made:
  assumes "user_code_returns (ho_user H)" and "heap_ok h0" and "registry_ok reg (length h0)"
    and "(overlap_step H fuel reg)\<^sup>*\<^sup>* (start_jobs h0 w cs) st"
  shows "modules_kept reg h0 (ol_heap st) \<and>
    (\<forall>i < length (ol_jobs st). phase_made H fuel reg h0 (jb_input (ol_jobs st ! i)) (jb_phase (ol_jobs st ! i)))"
  using assms(4)
proof (induction rule: rtranclp_induct)
  case (step st st')
  from step(2) show ?case
  proof (rule overlap_stepE)
    fix i k p h w assume st': "st' = \<lparr>ol_heap = h, ol_world = w,
        ol_jobs = (ol_jobs st)[i := (ol_jobs st ! i)\<lparr>jb_phase := p\<rparr>]\<rparr>"
      and i: "i < length (ol_jobs st)"
      and turn: "job_turn H fuel reg (jb_input (ol_jobs st ! i)) k (jb_phase (ol_jobs st ! i))
        (ol_heap st) (ol_world st) = Some (p, h, w)"
    from job_turn_made [OF assms(1) _ _ turn] step.IH i show ?thesis
      by (auto simp: st' nth_list_update)
  qed
qed (use assms(2,3) in \<open>simp add: modules_kept_def\<close>)

text \<open>The code that a job holds, once its passes are done.\<close>

fun job_output :: "job_phase \<Rightarrow> compile_output option" where
  "job_output (MakingFolder out files) = Some out"
| "job_output (Writing out files) = Some out"
| "job_output (Copying out ts rej) = Some out"
| "job_output _ = None"

text \<open>
  C7: renderings that overlap do not disturb each other: whatever the order of their turns, the
  code that a job outputs is the one that its compilation makes, alone and with the compiler as it
  was built, of the text it has read; and the loaded modules stay as they were.
\<close>

theorem overlapping_code_as_alone:
  assumes "user_code_returns (ho_user H)" and "heap_ok h" and "build b h = (Inr cc, s)"
    and "(overlap_step H fuel (lc_registry cc))\<^sup>*\<^sup>* (start_jobs (ls_heap s) w cs) st"
    and "i < length cs" and "job_output (jb_phase (ol_jobs st ! i)) = Some out"
  shows "(\<exists>files h'. compile_text H fuel (lc_registry cc) (cs ! i) (co_dbgInputText out) (ls_heap s) =
      Some (Inr ((out, files), h'))) \<and>
    take (length (ls_heap s)) (ol_heap st) = ls_heap s"
proof -
  note kept = compiler_steps_heap [OF assms(1-3) rtranclp.rtrancl_refl]
  have made: "modules_kept (lc_registry cc) (ls_heap s) (ol_heap st)"
    "\<And>i. i < length (ol_jobs st) \<Longrightarrow>
      phase_made H fuel (lc_registry cc) (ls_heap s) (jb_input (ol_jobs st ! i)) (jb_phase (ol_jobs st ! i))"
    using overlap_made [OF assms(1) _ _ assms(4)] kept by auto
  from overlap_inputs [OF assms(4)] assms(5)
  have "i < length (ol_jobs st)" and "jb_input (ol_jobs st ! i) = cs ! i" by auto
  with made(2) [of i] assms(6)
  have "\<exists>files. makes H fuel (lc_registry cc) (ls_heap s) (cs ! i) out files"
    by (cases "jb_phase (ol_jobs st ! i)") auto
  with made(1) show ?thesis by (auto simp: makes_def modules_kept_def)
qed

end
