(* ===== verification/OverlapDisk.thy ===== *)
theory OverlapDisk
  imports Overlap
begin

text \<open>
  Renderings that overlap, on the disk that they share (\<^verbatim>\<open>internal/compile.ts\<close>): what they write when
  they agree on it, and that they all settle.
\<close>

section \<open>The shared disk\<close>

text \<open>
  What a compilation will write, if its source stays as it is on the disk: its code to the
  output file, and to the target of each copy what the source of the copy holds.
\<close>

abbreviation output_path :: "compile_input \<Rightarrow> jstr" where
  "output_path c \<equiv> lp_fullPath (ci_outputFilePath c)"

abbreviation input_path :: "compile_input \<Rightarrow> jstr" where
  "input_path c \<equiv> lp_fullPath (ci_inputFilePath c)"

definition plan_of ::
  "'w host \<Rightarrow> nat \<Rightarrow> registry \<Rightarrow> ns_heap \<Rightarrow> (jstr \<Rightarrow> buffer option) \<Rightarrow> compile_input \<Rightarrow>
   (compile_output \<times> required_files) option" where
  "plan_of H fuel reg h0 disk c = (case disk (input_path c) of
       None \<Rightarrow> None
     | Some buf \<Rightarrow> (case compile_text H fuel reg c buf h0 of
           Some (Inr (x, _)) \<Rightarrow> Some x
         | _ \<Rightarrow> None))"

definition writes_of ::
  "'w host \<Rightarrow> (jstr \<Rightarrow> buffer) \<Rightarrow> (jstr \<Rightarrow> buffer option) \<Rightarrow> compile_input \<Rightarrow>
   compile_output \<times> required_files \<Rightarrow> (jstr \<times> buffer option) list" where
  "writes_of H encode disk c plan = (case plan of (out, files) \<Rightarrow>
     (output_path c, Some (encode (co_dbgOutputted out))) #
     map (\<lambda>(src, tgt). (lp_fullPath tgt, disk (lp_fullPath src))) (copies_for H c files))"

definition sources_of :: "'w host \<Rightarrow> compile_input \<Rightarrow> compile_output \<times> required_files \<Rightarrow> jstr list" where
  "sources_of H c plan = map (\<lambda>(src, tgt). lp_fullPath src) (copies_for H c (snd plan))"

fun planned :: "('p \<Rightarrow> 'a list) \<Rightarrow> 'p option \<Rightarrow> 'a list" where
  "planned f None = []"
| "planned f (Some plan) = f plan"

definition all_writes ::
  "'w host \<Rightarrow> nat \<Rightarrow> registry \<Rightarrow> (jstr \<Rightarrow> buffer) \<Rightarrow> ns_heap \<Rightarrow> (jstr \<Rightarrow> buffer option) \<Rightarrow>
   compile_input list \<Rightarrow> (jstr \<times> buffer option) list" where
  "all_writes H fuel reg encode h0 disk cs = concat (map (\<lambda>c.
     planned (writes_of H encode disk c) (plan_of H fuel reg h0 disk c)) cs)"

definition all_reads ::
  "'w host \<Rightarrow> nat \<Rightarrow> registry \<Rightarrow> ns_heap \<Rightarrow> (jstr \<Rightarrow> buffer option) \<Rightarrow> compile_input list \<Rightarrow> jstr list" where
  "all_reads H fuel reg h0 disk cs = concat (map (\<lambda>c.
     input_path c # planned (sources_of H c) (plan_of H fuel reg h0 disk c)) cs)"

text \<open>
  The condition that the comment on \<^verbatim>\<open>EBUSY\<close> in \<^verbatim>\<open>compile\<close> names: distinct contents are never
  written to the same file.  And no file that is read is written.
\<close>

definition harmonious :: "(jstr \<times> buffer option) list \<Rightarrow> jstr list \<Rightarrow> bool" where
  "harmonious ws rs \<longleftrightarrow> list_all (\<lambda>(p, x). list_all (\<lambda>(q, y). p = q \<longrightarrow> x = y) ws) ws \<and>
     list_all (\<lambda>p. p \<notin> set (map fst ws)) rs"

lemma harmonious_unique:
  "harmonious ws rs \<Longrightarrow> (p, x) \<in> set ws \<Longrightarrow> (p, y) \<in> set ws \<Longrightarrow> x = y"
  unfolding harmonious_def list_all_iff by blast

lemma all_writes_plan:
  "c \<in> set cs \<Longrightarrow> plan_of H fuel reg h0 disk c = Some plan \<Longrightarrow>
   set (writes_of H encode disk c plan) \<subseteq> set (all_writes H fuel reg encode h0 disk cs)"
  by (auto simp: all_writes_def intro!: bexI [of _ c])

lemma all_reads_plan:
  "c \<in> set cs \<Longrightarrow> input_path c \<in> set (all_reads H fuel reg h0 disk cs)"
  "c \<in> set cs \<Longrightarrow> plan_of H fuel reg h0 disk c = Some plan \<Longrightarrow>
   set (sources_of H c plan) \<subseteq> set (all_reads H fuel reg h0 disk cs)"
  by (auto simp: all_reads_def intro!: bexI [of _ c])

text \<open>A copy that is refused as busy has changed nothing.\<close>

definition busy_harmless :: "'w file_system \<Rightarrow> ('w \<Rightarrow> jstr \<Rightarrow> buffer option) \<Rightarrow> bool" where
  "busy_harmless fs view \<longleftrightarrow> (\<forall>a b w. fst (fs_copyFile fs a b w) = Inl (IoError (js ''EBUSY'')) \<longrightarrow>
     view (snd (fs_copyFile fs a b w)) = view w)"

text \<open>
  The files that a job has written, and those in which a write or a copy of it has failed, whose
  contents are not known.  The parameter \<open>b\<close> counts a copy that was refused as busy among these.
\<close>

fun spoils :: "bool \<Rightarrow> copy_phase \<Rightarrow> bool" where
  "spoils b (CopyFailed e) = True"
| "spoils b Busy = b"
| "spoils b _ = False"

lemma spoils_finished: "spoils b p \<Longrightarrow> finished p"
  by (cases p) simp_all

fun job_done :: "compile_input \<Rightarrow> job_phase \<Rightarrow> jstr set" where
  "job_done c (Copying out ts rej) =
     insert (output_path c) {q. \<exists>t \<in> set ts. q = lp_fullPath (ct_target t) \<and> ct_phase t = Copied}"
| "job_done c _ = {}"

fun job_spoiled :: "bool \<Rightarrow> compile_input \<Rightarrow> job_phase \<Rightarrow> jstr set" where
  "job_spoiled b c (WriteFailed out files e) = {output_path c}"
| "job_spoiled b c (Copying out ts rej) =
     {q. \<exists>t \<in> set ts. q = lp_fullPath (ct_target t) \<and> spoils b (ct_phase t)}"
| "job_spoiled b c _ = {}"

text \<open>What the text that a job has read says about the disk.\<close>

fun phase_read :: "(jstr \<Rightarrow> buffer option) \<Rightarrow> compile_input \<Rightarrow> job_phase \<Rightarrow> bool" where
  "phase_read disk c (Evaluating buf) \<longleftrightarrow> disk (input_path c) = Some buf"
| "phase_read disk c (MakingFolder out files) \<longleftrightarrow> disk (input_path c) = Some (co_dbgInputText out)"
| "phase_read disk c (Writing out files) \<longleftrightarrow> disk (input_path c) = Some (co_dbgInputText out)"
| "phase_read disk c (WriteFailed out files e) \<longleftrightarrow> disk (input_path c) = Some (co_dbgInputText out)"
| "phase_read disk c (Copying out ts rej) \<longleftrightarrow> disk (input_path c) = Some (co_dbgInputText out)"
| "phase_read disk c _ \<longleftrightarrow> True"

lemma makes_plan:
  "makes H fuel reg h0 c out files \<Longrightarrow> disk (input_path c) = Some (co_dbgInputText out) \<Longrightarrow>
   plan_of H fuel reg h0 disk c = Some (out, files)"
  by (auto simp: makes_def plan_of_def)

lemma makes_text:
  "compile_text H fuel reg c buf h = Some (Inr ((out, files), h')) \<Longrightarrow> co_dbgInputText out = buf"
  by (auto simp: compile_text_Inr)

text \<open>One turn: what it changes on disk is one of the planned writes, or spoils a file.\<close>

definition turn_ok ::
  "bool \<Rightarrow> (jstr \<times> buffer option) set \<Rightarrow> ('w \<Rightarrow> jstr \<Rightarrow> buffer option) \<Rightarrow> compile_input \<Rightarrow> job_phase \<Rightarrow> 'w \<Rightarrow>
   job_phase \<Rightarrow> 'w \<Rightarrow> bool" where
  "turn_ok b W view c p w p' w' \<longleftrightarrow> job_done c p \<subseteq> job_done c p' \<and> job_spoiled b c p \<subseteq> job_spoiled b c p' \<and>
     (\<forall>q. q \<in> job_spoiled b c p' \<or> (q \<in> job_done c p' \<and> (q, view w' q) \<in> W) \<or>
       (view w' q = view w q \<and> (q \<in> job_done c p' \<longleftrightarrow> q \<in> job_done c p)))"

lemma copying_turn_ok:
  assumes doc: "fs_documented fs encode view" and busy: "b \<or> busy_harmless fs view"
    and k: "k < length ts" "\<not> finished (ct_phase (ts ! k))"
    and planned: "(lp_fullPath (ct_target (ts ! k)), view w (lp_fullPath (ct_source (ts ! k)))) \<in> W"
    and st: "st = copy_turn fs k \<lparr>cp_world = w, cp_tasks = ts, cp_rejected = rej\<rparr>"
  shows "turn_ok b W view c (Copying out ts rej) w (Copying out (cp_tasks st) (cp_rejected st)) (cp_world st)"
proof -
  let ?t = "ts ! k" and ?tgt = "lp_fullPath (ct_target (ts ! k))"
  obtain p w' where turn: "task_turn fs (ct_source ?t) (ct_target ?t) (ct_phase ?t) w = (p, w')"
    by fastforce
  have tasks: "cp_tasks st = ts[k := ?t\<lparr>ct_phase := p\<rparr>]" and world: "cp_world st = w'"
    using k by (simp_all add: st copy_turn_def Let_def turn)
  have after: "(\<exists>t \<in> set (cp_tasks st). Q t) \<longleftrightarrow>
      (\<exists>j < length ts. j \<noteq> k \<and> Q (ts ! j)) \<or> Q (?t\<lparr>ct_phase := p\<rparr>)" for Q
    unfolding tasks by (rule bex_set_update [OF k(1)])
  have before: "(\<exists>t \<in> set ts. Q t) \<longleftrightarrow> (\<exists>j < length ts. j \<noteq> k \<and> Q (ts ! j)) \<or> Q ?t" for Q
    by (rule bex_set_nth [OF k(1)])
  have did: "job_done c (Copying out (cp_tasks st) (cp_rejected st)) =
      job_done c (Copying out ts rej) \<union> (if p = Copied then {?tgt} else {})"
    using k(2) by (auto simp: set_eq_iff after before)
  have spoiled: "job_spoiled b c (Copying out (cp_tasks st) (cp_rejected st)) =
      job_spoiled b c (Copying out ts rej) \<union> (if spoils b p then {?tgt} else {})"
    using k(2) by (auto simp: set_eq_iff after before dest: spoils_finished)
  note views = task_turn_view [OF doc turn]
  have quiet: "view w' = view w" if "p \<noteq> Copied" "\<not> spoils b p"
  proof (cases "ct_phase ?t")
    case ToMakeDir
    with turn have "w' = snd (fs_mkdirp fs (parsed_dir (lp_parsed (ct_target ?t))) w)"
      by (auto split: prod.splits sum.splits)
    then show ?thesis by (simp add: fs_documentedD(1) [OF doc])
  next
    case ToCopy
    obtain r w1 where run: "fs_copyFile fs (lp_fullPath (ct_source ?t)) ?tgt w = (r, w1)" by fastforce
    with ToCopy turn that have "r = Inl (IoError (js ''EBUSY''))" and "w1 = w'"
      by (auto simp: caught_def split: sum.splits if_splits)
    moreover from ToCopy turn run this have "p = Busy" by (simp add: caught_def)
    ultimately show ?thesis
      using run busy that(2) unfolding busy_harmless_def by (metis fst_conv snd_conv spoils.simps(2))
  qed (use k(2) in auto)
  have unfinished: "ct_phase ?t \<noteq> Copied" using k(2) by auto
  have copied: "(?tgt, view w' ?tgt) \<in> W" if "p = Copied"
    using views(2) [OF that unfinished] planned by simp
  have elsewhere: "q = ?tgt" if "view w' q \<noteq> view w q" for q using views(1) that by blast
  show ?thesis
    unfolding turn_ok_def did spoiled world
    by (cases p) (use copied quiet in \<open>auto dest!: elsewhere\<close>)
qed

lemma job_turn_ok:
  assumes doc: "fs_documented (ho_fs H) encode view" and busy: "b \<or> busy_harmless (ho_fs H) view"
    and made: "phase_made H fuel reg h0 c p" and read: "phase_read disk c p"
    and writes: "\<And>plan. plan_of H fuel reg h0 disk c = Some plan \<Longrightarrow> set (writes_of H encode disk c plan) \<subseteq> W"
    and input: "view w (input_path c) = disk (input_path c)"
    and sources: "\<And>plan q. plan_of H fuel reg h0 disk c = Some plan \<Longrightarrow> q \<in> set (sources_of H c plan) \<Longrightarrow>
      view w q = disk q"
    and turn: "job_turn H fuel reg c k p h w = Some (p', h', w')"
  shows "phase_read disk c p' \<and> turn_ok b W view c p w p' w'"
proof (cases p)
  case Reading
  note doc = fs_documentedD(2,3) [OF doc, of "input_path c" w]
  from turn Reading doc input show ?thesis
    by (auto simp: readFileBuffer_def turn_ok_def split: prod.splits sum.splits)
next
  case (Evaluating buf)
  with turn read show ?thesis
    by (auto simp: turn_ok_def makes_text split: option.splits sum.splits)
next
  case (MakingFolder out files)
  note doc = fs_documentedD(1) [OF doc, of "parsed_dir (lp_parsed (ci_outputFilePath c))" w]
  from turn MakingFolder doc read show ?thesis
    by (auto simp: turn_ok_def split: prod.splits sum.splits)
next
  case (Writing out files)
  let ?code = "co_dbgOutputted out"
  obtain r w1 where wr: "fs_writeFile (ho_fs H) (output_path c) ?code w = (r, w1)" by fastforce
  have elsewhere: "q = output_path c" if "view w1 q \<noteq> view w q" for q
    using fs_documentedD(4) [OF doc, of q "output_path c" ?code w] that wr by auto
  have plan: "plan_of H fuel reg h0 disk c = Some (out, files)"
    using made read Writing by (auto intro: makes_plan)
  show ?thesis
  proof (cases r)
    case (Inl e)
    with turn Writing wr have "p' = WriteFailed out files e" and "w' = w1" by auto
    with Writing read show ?thesis by (auto simp: turn_ok_def dest!: elsewhere)
  next
    case (Inr u)
    have "(output_path c, view w1 (output_path c)) \<in> W"
      using writes [OF plan] fs_documentedD(5) [OF doc, of "output_path c" ?code w] wr Inr
      by (auto simp: writes_of_def)
    moreover have "job_done c (Copying out (cp_tasks (start_copies w1 copies)) None) = {output_path c}"
      and "job_spoiled b c (Copying out (cp_tasks (start_copies w1 copies)) None) = {}" for copies
      by (auto simp: split_beta)
    moreover from turn Writing wr Inr obtain copies where "w' = w1"
      and "p' = Copying out (cp_tasks (start_copies w1 copies)) None"
      by (auto simp: Let_def simp del: copy_turn_sel(2))
    ultimately show ?thesis
      using Writing read by (auto simp: turn_ok_def simp del: copy_turn_sel(2) job_done.simps(1)
          job_spoiled.simps(2) dest!: elsewhere)
  qed
next
  case (Copying out ts rej)
  with made obtain files where makes: "makes H fuel reg h0 c out files"
    and names: "map (\<lambda>t. (ct_source t, ct_target t)) ts = copies_for H c files" by auto
  from makes read Copying have plan: "plan_of H fuel reg h0 disk c = Some (out, files)"
    by (auto intro: makes_plan)
  let ?st = "copy_turn (ho_fs H) k \<lparr>cp_world = w, cp_tasks = ts, cp_rejected = rej\<rparr>"
  from turn Copying have k: "k < length ts" "\<not> finished (ct_phase (ts ! k))"
    and p': "p' = Copying out (cp_tasks ?st) (cp_rejected ?st)" and w': "w' = cp_world ?st"
    by (auto simp: Let_def split: if_splits)
  have copy: "(ct_source (ts ! k), ct_target (ts ! k)) \<in> set (copies_for H c files)"
    using k(1) by (auto simp flip: names)
  then have "lp_fullPath (ct_source (ts ! k)) \<in> set (sources_of H c (out, files))"
    by (force simp: sources_of_def)
  with sources [OF plan] copy writes [OF plan]
  have "(lp_fullPath (ct_target (ts ! k)), view w (lp_fullPath (ct_source (ts ! k)))) \<in> W"
    by (force simp: writes_of_def)
  from copying_turn_ok [where rej = rej and c = c and out = out, OF doc busy k this refl] read show ?thesis
    by (simp add: Copying p' w')
qed (use turn in auto)

section \<open>The disk after any number of turns\<close>

definition all_done :: "'w overlap \<Rightarrow> jstr set" where
  "all_done st = (\<Union>j \<in> set (ol_jobs st). job_done (jb_input j) (jb_phase j))"

definition all_spoiled :: "bool \<Rightarrow> 'w overlap \<Rightarrow> jstr set" where
  "all_spoiled b st = (\<Union>j \<in> set (ol_jobs st). job_spoiled b (jb_input j) (jb_phase j))"

text \<open>
  Every file is spoiled, or it has been written and holds one of the planned contents, or it is
  as it was.
\<close>

definition disk_inv ::
  "bool \<Rightarrow> (jstr \<times> buffer option) set \<Rightarrow> (jstr \<Rightarrow> buffer option) \<Rightarrow> ('w \<Rightarrow> jstr \<Rightarrow> buffer option) \<Rightarrow> 'w overlap \<Rightarrow> bool"
  where
  "disk_inv b W disk view st \<longleftrightarrow> (\<forall>q. q \<in> all_spoiled b st \<or>
     (q \<in> all_done st \<and> (q, view (ol_world st) q) \<in> W) \<or>
     (q \<notin> all_done st \<and> view (ol_world st) q = disk q))"

lemma all_done_split:
  "i < length (ol_jobs st) \<Longrightarrow> q \<in> all_done st \<longleftrightarrow>
    (\<exists>j < length (ol_jobs st). j \<noteq> i \<and> q \<in> job_done (jb_input (ol_jobs st ! j)) (jb_phase (ol_jobs st ! j))) \<or>
    q \<in> job_done (jb_input (ol_jobs st ! i)) (jb_phase (ol_jobs st ! i))"
  using bex_set_nth [of i "ol_jobs st" "\<lambda>j. q \<in> job_done (jb_input j) (jb_phase j)"]
  by (simp add: all_done_def)

lemma all_spoiled_split:
  "i < length (ol_jobs st) \<Longrightarrow> q \<in> all_spoiled b st \<longleftrightarrow>
    (\<exists>j < length (ol_jobs st). j \<noteq> i \<and> q \<in> job_spoiled b (jb_input (ol_jobs st ! j)) (jb_phase (ol_jobs st ! j))) \<or>
    q \<in> job_spoiled b (jb_input (ol_jobs st ! i)) (jb_phase (ol_jobs st ! i))"
  using bex_set_nth [of i "ol_jobs st" "\<lambda>j. q \<in> job_spoiled b (jb_input j) (jb_phase j)"]
  by (simp add: all_spoiled_def)

lemma disk_inv_turn:
  assumes inv: "disk_inv b W disk view st" and i: "i < length (ol_jobs st)"
    and turn: "turn_ok b W view (jb_input (ol_jobs st ! i)) (jb_phase (ol_jobs st ! i)) (ol_world st) p w"
  shows "disk_inv b W disk view \<lparr>ol_heap = h, ol_world = w,
    ol_jobs = (ol_jobs st)[i := (ol_jobs st ! i)\<lparr>jb_phase := p\<rparr>]\<rparr>" (is "disk_inv b _ _ _ ?st'")
proof -
  have i': "i < length (ol_jobs ?st')" using i by simp
  let ?c = "jb_input (ol_jobs st ! i)" and ?p = "jb_phase (ol_jobs st ! i)"
  have did: "q \<in> all_done ?st' \<longleftrightarrow> (\<exists>j < length (ol_jobs st). j \<noteq> i \<and>
      q \<in> job_done (jb_input (ol_jobs st ! j)) (jb_phase (ol_jobs st ! j))) \<or> q \<in> job_done ?c p" for q
    using i by (simp add: all_done_split [OF i'] cong: conj_cong)
  have spoiled: "q \<in> all_spoiled b ?st' \<longleftrightarrow> (\<exists>j < length (ol_jobs st). j \<noteq> i \<and>
      q \<in> job_spoiled b (jb_input (ol_jobs st ! j)) (jb_phase (ol_jobs st ! j))) \<or> q \<in> job_spoiled b ?c p" for q
    using i by (simp add: all_spoiled_split [OF i'] cong: conj_cong)
  have "q \<in> all_spoiled b ?st' \<or> (q \<in> all_done ?st' \<and> (q, view w q) \<in> W) \<or>
      (q \<notin> all_done ?st' \<and> view w q = disk q)" for q
  proof -
    from turn consider "q \<in> job_spoiled b ?c p" | "q \<in> job_done ?c p" "(q, view w q) \<in> W"
      | "view w q = view (ol_world st) q" "q \<in> job_done ?c p \<longleftrightarrow> q \<in> job_done ?c ?p"
      by (auto simp: turn_ok_def)
    then show ?thesis
    proof cases
      case 3
      then have "q \<in> all_done ?st' \<longleftrightarrow> q \<in> all_done st" by (simp add: did all_done_split [OF i])
      moreover have "q \<in> all_spoiled b st \<Longrightarrow> q \<in> all_spoiled b ?st'"
        using turn by (auto simp: spoiled all_spoiled_split [OF i] turn_ok_def)
      ultimately show ?thesis using inv 3(1) by (auto simp: disk_inv_def)
    qed (simp_all add: did spoiled)
  qed
  then show ?thesis by (simp add: disk_inv_def)
qed

lemma disk_inv_start: "disk_inv b W (view w) view (start_jobs h w cs)"
  by (auto simp: disk_inv_def all_done_def all_spoiled_def start_jobs_def)

text \<open>What has been written or spoiled was planned.\<close>

lemma writes_of_paths:
  "fst ` set (writes_of H encode disk c (out, files)) =
    insert (output_path c) ((\<lambda>(src, tgt). lp_fullPath tgt) ` set (copies_for H c files))"
  by (simp add: writes_of_def image_image split_def)

lemma job_touches_plan:
  assumes "phase_made H fuel reg h0 c p" and "phase_read disk c p" and "q \<in> job_done c p \<union> job_spoiled b c p"
  shows "\<exists>plan. plan_of H fuel reg h0 disk c = Some plan \<and> q \<in> fst ` set (writes_of H encode disk c plan)"
proof (cases p)
  case (Copying out ts rej)
  with assms(1) obtain files where makes: "makes H fuel reg h0 c out files"
    and names: "map (\<lambda>t. (ct_source t, ct_target t)) ts = copies_for H c files" by auto
  from makes assms(2) Copying have "plan_of H fuel reg h0 disk c = Some (out, files)"
    by (auto intro: makes_plan)
  moreover have "q \<in> fst ` set (writes_of H encode disk c (out, files))"
    using assms(3) Copying by (auto simp: writes_of_paths simp flip: names)
  ultimately show ?thesis by blast
next
  case (WriteFailed out files e)
  with assms have "plan_of H fuel reg h0 disk c = Some (out, files)" by (auto intro: makes_plan)
  with assms(3) WriteFailed show ?thesis by (auto simp: writes_of_paths)
qed (use assms(3) in auto)

definition job_ok ::
  "'w host \<Rightarrow> nat \<Rightarrow> registry \<Rightarrow> ns_heap \<Rightarrow> (jstr \<Rightarrow> buffer option) \<Rightarrow> compile_job \<Rightarrow> bool" where
  "job_ok H fuel reg h0 disk j \<longleftrightarrow> phase_made H fuel reg h0 (jb_input j) (jb_phase j) \<and>
     phase_read disk (jb_input j) (jb_phase j)"

text \<open>A file that no job plans to write is not touched, so none that some job reads.\<close>

lemma untouched_unplanned:
  assumes "disk_inv b W disk view st" and "\<forall>j \<in> set (ol_jobs st). job_ok H fuel reg h0 disk j"
    and "q \<notin> fst ` set (all_writes H fuel reg encode h0 disk (map jb_input (ol_jobs st)))"
  shows "view (ol_world st) q = disk q"
proof -
  have "q \<in> fst ` set (all_writes H fuel reg encode h0 disk (map jb_input (ol_jobs st)))"
    if q: "q \<in> all_done st \<union> all_spoiled b st"
  proof -
    from q obtain j where j: "j \<in> set (ol_jobs st)"
      and "q \<in> job_done (jb_input j) (jb_phase j) \<union> job_spoiled b (jb_input j) (jb_phase j)"
      by (auto simp: all_done_def all_spoiled_def)
    moreover from assms(2) j have "phase_made H fuel reg h0 (jb_input j) (jb_phase j)"
      and "phase_read disk (jb_input j) (jb_phase j)" by (simp_all add: job_ok_def)
    ultimately obtain plan where "plan_of H fuel reg h0 disk (jb_input j) = Some plan"
      and "q \<in> fst ` set (writes_of H encode disk (jb_input j) plan)"
      using job_touches_plan by blast
    with j all_writes_plan [of "jb_input j" "map jb_input (ol_jobs st)" H fuel reg h0 disk plan encode]
    show ?thesis by auto
  qed
  with assms(1,3) show ?thesis by (auto simp: disk_inv_def)
qed

lemma overlap_disk:
  assumes "user_code_returns (ho_user H)" and "heap_ok h0" and "registry_ok reg (length h0)"
    and "fs_documented (ho_fs H) encode view" and "b \<or> busy_harmless (ho_fs H) view"
    and harmony: "harmonious (all_writes H fuel reg encode h0 (view w) cs) (all_reads H fuel reg h0 (view w) cs)"
    and "(overlap_step H fuel reg)\<^sup>*\<^sup>* (start_jobs h0 w cs) st"
  shows "disk_inv b (set (all_writes H fuel reg encode h0 (view w) cs)) (view w) view st \<and>
    (\<forall>j \<in> set (ol_jobs st). job_ok H fuel reg h0 (view w) j)"
  using assms(7)
proof (induction rule: rtranclp_induct)
  case base
  show ?case by (auto simp: disk_inv_start) (auto simp: start_jobs_def job_ok_def)
next
  case (step st st')
  let ?W = "all_writes H fuel reg encode h0 (view w) cs" and ?R = "all_reads H fuel reg h0 (view w) cs"
  note inputs = overlap_inputs [OF step(1)]
  from step.IH have inv: "disk_inv b (set ?W) (view w) view st"
    and ok: "\<forall>j \<in> set (ol_jobs st). job_ok H fuel reg h0 (view w) j" by auto
  have made: "modules_kept reg h0 (ol_heap st)" using overlap_made [OF assms(1-3) step(1)] by simp
  have untouched: "view (ol_world st) q = view w q" if "q \<in> set ?R" for q
    using untouched_unplanned [OF inv ok, unfolded inputs, of q encode] harmony that
    by (auto simp: harmonious_def list_all_iff)
  from step(2) show ?case
  proof (rule overlap_stepE)
    fix i k p h w' assume st': "st' = \<lparr>ol_heap = h, ol_world = w',
        ol_jobs = (ol_jobs st)[i := (ol_jobs st ! i)\<lparr>jb_phase := p\<rparr>]\<rparr>"
      and i: "i < length (ol_jobs st)"
      and turn: "job_turn H fuel reg (jb_input (ol_jobs st ! i)) k (jb_phase (ol_jobs st ! i))
        (ol_heap st) (ol_world st) = Some (p, h, w')"
    let ?j = "ol_jobs st ! i"
    have c: "jb_input ?j \<in> set cs" using i inputs by auto
    have j: "job_ok H fuel reg h0 (view w) ?j" using ok i by simp
    have turned: "phase_read (view w) (jb_input ?j) p \<and>
        turn_ok b (set ?W) view (jb_input ?j) (jb_phase ?j) (ol_world st) p w'"
    proof (rule job_turn_ok [OF assms(4,5) _ _ _ _ _ turn, where ?h0.0 = h0])
      show "set (writes_of H encode (view w) (jb_input ?j) plan) \<subseteq> set ?W"
        if "plan_of H fuel reg h0 (view w) (jb_input ?j) = Some plan" for plan
        using all_writes_plan [OF c that] .
      show "view (ol_world st) (input_path (jb_input ?j)) = view w (input_path (jb_input ?j))"
        by (rule untouched) (rule all_reads_plan(1) [OF c])
      show "view (ol_world st) q = view w q"
        if "plan_of H fuel reg h0 (view w) (jb_input ?j) = Some plan"
          "q \<in> set (sources_of H (jb_input ?j) plan)" for plan q
        using untouched all_reads_plan(2) [OF c that(1)] that(2) by blast
    qed (use j in \<open>simp_all add: job_ok_def\<close>)
    have "phase_made H fuel reg h0 (jb_input ?j) p"
      using job_turn_made [OF assms(1) made _ turn] j by (simp add: job_ok_def)
    with turned have "job_ok H fuel reg h0 (view w) (?j\<lparr>jb_phase := p\<rparr>)" by (simp add: job_ok_def)
    with ok i have "\<forall>j \<in> set (ol_jobs st'). job_ok H fuel reg h0 (view w) j"
      by (auto simp: st' dest!: set_update_subset_insert [THEN subsetD])
    with disk_inv_turn [OF inv i] turned show ?thesis by (simp add: st')
  qed
qed

section \<open>The disk when all renderings have resolved\<close>

text \<open>
  Every rendering has resolved.  A copy that was skipped because the file system answered that its target is busy did not
  matter: it changed nothing, and another copy to the same target has been made.
\<close>

definition all_resolved :: "'w file_system \<Rightarrow> ('w \<Rightarrow> jstr \<Rightarrow> buffer option) \<Rightarrow> 'w overlap \<Rightarrow> bool" where
  "all_resolved fs view st \<longleftrightarrow> list_all (\<lambda>j. case jb_phase j of
       Copying out ts rej \<Rightarrow> list_all (\<lambda>t. ct_phase t = Copied \<or>
         ct_phase t = Busy \<and> busy_harmless fs view \<and> lp_fullPath (ct_target t) \<in> all_done st) ts
     | _ \<Rightarrow> False) (ol_jobs st)"

lemma resolved_job:
  assumes "all_resolved fs view st" and "j \<in> set (ol_jobs st)"
  obtains out ts rej where "jb_phase j = Copying out ts rej"
    and "\<And>t. t \<in> set ts \<Longrightarrow> ct_phase t = Copied \<or>
      ct_phase t = Busy \<and> busy_harmless fs view \<and> lp_fullPath (ct_target t) \<in> all_done st"
  using assms by (cases "jb_phase j") (auto simp: all_resolved_def list_all_iff)

lemma resolved_done:
  assumes "all_resolved fs view st" and "j \<in> set (ol_jobs st)" and "jb_phase j = Copying out ts rej"
    and "t \<in> set ts"
  shows "lp_fullPath (ct_target t) \<in> all_done st"
proof -
  from assms(1,2) obtain out' ts' rej' where phase: "jb_phase j = Copying out' ts' rej'"
    and each: "\<And>t. t \<in> set ts' \<Longrightarrow> ct_phase t = Copied \<or>
      ct_phase t = Busy \<and> busy_harmless fs view \<and> lp_fullPath (ct_target t) \<in> all_done st"
    by (rule resolved_job) blast
  from phase assms(3) have same: "Copying out' ts' rej' = Copying out ts rej" by simp
  with assms(4) have t: "t \<in> set ts'" by simp
  show ?thesis
  proof (cases "ct_phase t = Copied")
    case True
    with t phase have "lp_fullPath (ct_target t) \<in> job_done (jb_input j) (jb_phase j)" by auto
    with assms(2) show ?thesis by (auto simp: all_done_def)
  qed (use each [OF t] in simp)
qed

lemma resolved_unspoiled:
  assumes "all_resolved fs view st"
  shows "all_spoiled (\<not> busy_harmless fs view) st = {}"
proof -
  have "job_spoiled (\<not> busy_harmless fs view) (jb_input j) (jb_phase j) = {}" if "j \<in> set (ol_jobs st)" for j
    using assms that
  proof (rule resolved_job)
    fix out ts rej
    assume phase: "jb_phase j = Copying out ts rej" and each: "\<And>t. t \<in> set ts \<Longrightarrow> ct_phase t = Copied \<or>
      ct_phase t = Busy \<and> busy_harmless fs view \<and> lp_fullPath (ct_target t) \<in> all_done st"
    have "\<not> spoils (\<not> busy_harmless fs view) (ct_phase t)" if "t \<in> set ts" for t
      using each [OF that] by (cases "ct_phase t") simp_all
    then show ?thesis by (auto simp: phase)
  qed
  then show ?thesis by (simp add: all_spoiled_def)
qed

text \<open>Then every planned write has been made, and nothing else.\<close>

lemma resolved_disk:
  assumes "user_code_returns (ho_user H)" and "heap_ok h0" and "registry_ok reg (length h0)"
    and "fs_documented (ho_fs H) encode view"
    and harmony: "harmonious (all_writes H fuel reg encode h0 (view w) cs) (all_reads H fuel reg h0 (view w) cs)"
    and reach: "(overlap_step H fuel reg)\<^sup>*\<^sup>* (start_jobs h0 w cs) st"
    and resolved: "all_resolved (ho_fs H) view st"
  shows "c \<in> set cs \<Longrightarrow> \<exists>plan. plan_of H fuel reg h0 (view w) c = Some plan"
    and "(q, x) \<in> set (all_writes H fuel reg encode h0 (view w) cs) \<Longrightarrow> view (ol_world st) q = x"
    and "q \<notin> fst ` set (all_writes H fuel reg encode h0 (view w) cs) \<Longrightarrow> view (ol_world st) q = view w q"
proof -
  let ?W = "all_writes H fuel reg encode h0 (view w) cs" and ?b = "\<not> busy_harmless (ho_fs H) view"
  note inputs = overlap_inputs [OF reach]
  from overlap_disk [OF assms(1-4) _ harmony reach, of ?b]
  have inv: "disk_inv ?b (set ?W) (view w) view st"
    and ok: "\<forall>j \<in> set (ol_jobs st). job_ok H fuel reg h0 (view w) j" by auto
  have job: "\<exists>j out ts rej files. j \<in> set (ol_jobs st) \<and> jb_input j = c \<and> jb_phase j = Copying out ts rej \<and>
      plan_of H fuel reg h0 (view w) c = Some (out, files) \<and>
      map (\<lambda>t. (ct_source t, ct_target t)) ts = copies_for H c files" if "c \<in> set cs" for c
  proof -
    from that obtain j where j: "j \<in> set (ol_jobs st)" "jb_input j = c" by (auto simp flip: inputs)
    from resolved j(1) obtain out ts rej where phase: "jb_phase j = Copying out ts rej" by (rule resolved_job)
    from ok j(1) have "phase_made H fuel reg h0 (jb_input j) (jb_phase j)"
      and "phase_read (view w) (jb_input j) (jb_phase j)" by (simp_all add: job_ok_def)
    then obtain files where "makes H fuel reg h0 c out files"
      and "map (\<lambda>t. (ct_source t, ct_target t)) ts = copies_for H c files"
      and "view w (input_path c) = Some (co_dbgInputText out)"
      unfolding j(2) phase by auto
    with j phase show ?thesis by (blast intro: makes_plan)
  qed
  then show "c \<in> set cs \<Longrightarrow> \<exists>plan. plan_of H fuel reg h0 (view w) c = Some plan" by blast
  show "view (ol_world st) q = view w q" if "q \<notin> fst ` set ?W"
    using untouched_unplanned [OF inv ok, unfolded inputs, OF that] .
  show "view (ol_world st) q = x" if W: "(q, x) \<in> set ?W"
  proof -
    from W obtain c plan where c: "c \<in> set cs" and plan: "plan_of H fuel reg h0 (view w) c = Some plan"
      and q: "(q, x) \<in> set (writes_of H encode (view w) c plan)"
    proof -
      from W obtain c where "c \<in> set cs"
        and q: "(q, x) \<in> set (planned (writes_of H encode (view w) c) (plan_of H fuel reg h0 (view w) c))"
        by (auto simp: all_writes_def)
      with that show thesis by (cases "plan_of H fuel reg h0 (view w) c") auto
    qed
    from job [OF c] obtain j out ts rej files where j: "j \<in> set (ol_jobs st)" "jb_input j = c"
      and phase: "jb_phase j = Copying out ts rej"
      and own: "plan_of H fuel reg h0 (view w) c = Some (out, files)"
      and names: "map (\<lambda>t. (ct_source t, ct_target t)) ts = copies_for H c files"
      by blast
    from own plan have files: "plan = (out, files)" by simp
    have "q \<in> all_done st"
    proof (cases "q = output_path c")
      case True
      then have "q \<in> job_done (jb_input j) (jb_phase j)" by (simp add: j(2) phase)
      with j(1) show ?thesis by (auto simp: all_done_def)
    next
      case False
      with q files obtain t where "t \<in> set ts" "q = lp_fullPath (ct_target t)"
        by (auto simp: writes_of_def simp flip: names)
      with resolved_done [OF resolved j(1) phase] show ?thesis by simp
    qed
    with inv resolved_unspoiled [OF resolved] have "(q, view (ol_world st) q) \<in> set ?W"
      by (auto simp: disk_inv_def)
    with harmonious_unique [OF harmony W] show ?thesis by blast
  qed
qed

section \<open>One rendering after the other\<close>

text \<open>
  The renderings with schedules for their copies, each of which starts when the one before has
  ended.  A job that runs alone is \<^verbatim>\<open>compile\<close> (\<open>job_alone_is_compile\<close>).
\<close>

fun one_by_one ::
  "'w host \<Rightarrow> nat \<Rightarrow> registry \<Rightarrow> (compile_input \<times> nat list) list \<Rightarrow> ns_heap \<Rightarrow> 'w \<Rightarrow> 'w overlap" where
  "one_by_one H fuel reg [] h w = \<lparr>ol_heap = h, ol_world = w, ol_jobs = []\<rparr>"
| "one_by_one H fuel reg ((c, sched) # runs) h w =
     (case job_run H fuel reg c (replicate 4 0 @ sched) (Reading, h, w) of (p, h', w') \<Rightarrow>
        let st = one_by_one H fuel reg runs h' w'
        in st\<lparr>ol_jobs := \<lparr>jb_input = c, jb_phase = p\<rparr> # ol_jobs st\<rparr>)"

lemma job_run_steps:
  "job_run H fuel reg c ks (p, h, w) = (p', h', w') \<Longrightarrow>
   (overlap_step H fuel reg)\<^sup>*\<^sup>*
     \<lparr>ol_heap = h, ol_world = w, ol_jobs = before @ \<lparr>jb_input = c, jb_phase = p\<rparr> # us\<rparr>
     \<lparr>ol_heap = h', ol_world = w', ol_jobs = before @ \<lparr>jb_input = c, jb_phase = p'\<rparr> # us\<rparr>"
proof (induction ks arbitrary: p h w)
  case (Cons k ks)
  let ?st = "\<lparr>ol_heap = h, ol_world = w, ol_jobs = before @ \<lparr>jb_input = c, jb_phase = p\<rparr> # us\<rparr>"
  show ?case
  proof (cases "job_turn H fuel reg c k p h w")
    case None
    with Cons show ?thesis by simp
  next
    case (Some x)
    obtain p1 h1 w1 where x: "x = (p1, h1, w1)" by (cases x)
    with overlap_turn [of "length before" ?st H fuel reg k p1 h1 w1] Some
    have "overlap_step H fuel reg ?st
      \<lparr>ol_heap = h1, ol_world = w1, ol_jobs = before @ \<lparr>jb_input = c, jb_phase = p1\<rparr> # us\<rparr>" by simp
    with Cons.IH [of p1 h1 w1] Cons.prems Some x show ?thesis
      by (simp add: converse_rtranclp_into_rtranclp)
  qed
qed simp

text \<open>It is one of the ways in which the renderings can overlap.\<close>

lemma one_by_one_steps:
  "(overlap_step H fuel reg)\<^sup>*\<^sup>*
     \<lparr>ol_heap = h, ol_world = w, ol_jobs = before @ map (\<lambda>(c, _). \<lparr>jb_input = c, jb_phase = Reading\<rparr>) runs\<rparr>
     (let st = one_by_one H fuel reg runs h w in st\<lparr>ol_jobs := before @ ol_jobs st\<rparr>)"
proof (induction runs arbitrary: h w before)
  case (Cons run runs)
  obtain c sched where run: "run = (c, sched)" by fastforce
  obtain p h' w' where alone: "job_run H fuel reg c (replicate 4 0 @ sched) (Reading, h, w) = (p, h', w')"
    by (metis prod_cases3)
  note job_run_steps [OF alone, of before "map (\<lambda>(c, _). \<lparr>jb_input = c, jb_phase = Reading\<rparr>) runs"]
  moreover note Cons.IH [of h' w' "before @ [\<lparr>jb_input = c, jb_phase = p\<rparr>]"]
  ultimately show ?case by (simp add: run alone Let_def)
qed simp

lemma start_jobs_zip:
  assumes "length scheds = length cs"
  shows "start_jobs h w cs = \<lparr>ol_heap = h, ol_world = w,
    ol_jobs = map (\<lambda>(c, _). \<lparr>jb_input = c, jb_phase = Reading\<rparr>) (zip cs scheds)\<rparr>"
proof -
  have "map (\<lambda>c. \<lparr>jb_input = c, jb_phase = Reading\<rparr>) (map fst (zip cs scheds)) =
      map (\<lambda>(c, _). \<lparr>jb_input = c, jb_phase = Reading\<rparr>) (zip cs scheds)"
    by (simp add: split_def comp_def)
  with assms show ?thesis by (simp add: start_jobs_def)
qed

text \<open>
  C6: renderings that overlap leave the disk as they would one after the other, in every order of their
  turns, as long as distinct contents are never written to the same file and no file that is read
  is written.  When all of them have resolved (and for every copy that was refused as busy another one has been
  made to the same file, and the refusal changed nothing), each output file holds the code of its
  rendering, each required file has the content that its source had at the start, and no other file has changed.
  Any sequence of the same renderings that resolves in this sense leaves the same files.
\<close>

theorem overlapping_renderings_on_disk:
  assumes "user_code_returns (ho_user H)" and "heap_ok h" and "build b h = (Inr cc, s)"
    and "fs_documented (ho_fs H) encode view"
    and "harmonious (all_writes H fuel (lc_registry cc) encode (ls_heap s) (view w) cs)
      (all_reads H fuel (lc_registry cc) (ls_heap s) (view w) cs)"
    and "(overlap_step H fuel (lc_registry cc))\<^sup>*\<^sup>* (start_jobs (ls_heap s) w cs) st"
    and "all_resolved (ho_fs H) view st"
  shows "(\<forall>c \<in> set cs. \<exists>out files. plan_of H fuel (lc_registry cc) (ls_heap s) (view w) c = Some (out, files) \<and>
      view (ol_world st) (output_path c) = Some (encode (co_dbgOutputted out)) \<and>
      (\<forall>(src, tgt) \<in> set (copies_for H c files).
        view (ol_world st) (lp_fullPath tgt) = view w (lp_fullPath src))) \<and>
    (\<forall>q. q \<notin> fst ` set (all_writes H fuel (lc_registry cc) encode (ls_heap s) (view w) cs) \<longrightarrow>
      view (ol_world st) q = view w q) \<and>
    (\<forall>scheds. length scheds = length cs \<longrightarrow>
      all_resolved (ho_fs H) view (one_by_one H fuel (lc_registry cc) (zip cs scheds) (ls_heap s) w) \<longrightarrow>
      view (ol_world (one_by_one H fuel (lc_registry cc) (zip cs scheds) (ls_heap s) w)) = view (ol_world st))"
proof (intro conjI allI impI ballI)
  let ?reg = "lc_registry cc" and ?h = "ls_heap s"
  let ?W = "all_writes H fuel ?reg encode ?h (view w) cs"
  note kept = compiler_steps_heap [OF assms(1-3) rtranclp.rtrancl_refl]
  note disk = resolved_disk [OF assms(1) _ _ assms(4,5)]
  note overlapped = disk [OF _ _ assms(6,7)]
  show "view (ol_world st) q = view w q" if "q \<notin> fst ` set ?W" for q
    using overlapped(3) that kept by blast
  show "\<exists>out files. plan_of H fuel ?reg ?h (view w) c = Some (out, files) \<and>
      view (ol_world st) (output_path c) = Some (encode (co_dbgOutputted out)) \<and>
      (\<forall>(src, tgt) \<in> set (copies_for H c files).
        view (ol_world st) (lp_fullPath tgt) = view w (lp_fullPath src))" if c: "c \<in> set cs" for c
  proof -
    from overlapped(1) [OF _ _ c] kept obtain plan where "plan_of H fuel ?reg ?h (view w) c = Some plan"
      by blast
    moreover obtain out files where "plan = (out, files)" by fastforce
    ultimately have plan: "plan_of H fuel ?reg ?h (view w) c = Some (out, files)" by simp
    have "view (ol_world st) q = x" if "(q, x) \<in> set (writes_of H encode (view w) c (out, files))" for q x
      using overlapped(2) that all_writes_plan [OF c plan, of encode] kept by blast
    note written = this
    have "view (ol_world st) (output_path c) = Some (encode (co_dbgOutputted out))"
      by (rule written) (simp add: writes_of_def)
    moreover have "view (ol_world st) (lp_fullPath tgt) = view w (lp_fullPath src)"
      if "(src, tgt) \<in> set (copies_for H c files)" for src tgt
      by (rule written) (use that in \<open>force simp: writes_of_def\<close>)
    ultimately show ?thesis using plan by blast
  qed
  fix scheds :: "nat list list"
  let ?sq = "one_by_one H fuel ?reg (zip cs scheds) ?h w"
  assume len: "length scheds = length cs" and resolved: "all_resolved (ho_fs H) view ?sq"
  from start_jobs_zip [OF len, of ?h w] one_by_one_steps [of H fuel ?reg ?h w "[]" "zip cs scheds"]
  have "(overlap_step H fuel ?reg)\<^sup>*\<^sup>* (start_jobs ?h w cs) ?sq"
    by (simp add: Let_def)
  note alone = disk [OF _ _ this resolved]
  show "view (ol_world ?sq) = view (ol_world st)"
  proof
    fix q
    show "view (ol_world ?sq) q = view (ol_world st) q"
    proof (cases "q \<in> fst ` set ?W")
      case True
      then obtain x where "(q, x) \<in> set ?W" by force
      with alone(2) overlapped(2) kept show ?thesis by metis
    next
      case False
      with alone(3) overlapped(3) kept show ?thesis by metis
    qed
  qed
qed

section \<open>All renderings settle\<close>

fun job_stage :: "job_phase \<Rightarrow> nat" where
  "job_stage Reading = 4"
| "job_stage (Evaluating buf) = 3"
| "job_stage (MakingFolder out files) = 2"
| "job_stage (Writing out files) = 1"
| "job_stage _ = 0"

fun job_copies_left :: "job_phase \<Rightarrow> nat" where
  "job_copies_left (Copying out ts rej) = sum_list (map (\<lambda>t. turns_left (ct_phase t)) ts)"
| "job_copies_left _ = 0"

lemma job_turn_progress:
  assumes "job_turn H fuel reg c k p h w = Some (p', h', w')"
  shows "job_stage p' < job_stage p \<or> (job_stage p' = job_stage p \<and> job_copies_left p' < job_copies_left p)"
proof (cases p)
  case (Copying out ts rej)
  let ?st = "\<lparr>cp_world = w, cp_tasks = ts, cp_rejected = rej\<rparr>"
  from assms Copying have "copies_step (ho_fs H) ?st (copy_turn (ho_fs H) k ?st)"
    and p': "p' = Copying out (cp_tasks (copy_turn (ho_fs H) k ?st)) (cp_rejected (copy_turn (ho_fs H) k ?st))"
    by (auto simp: Let_def intro!: copies_stepI split: if_splits)
  from copies_step_progress [OF this(1)] show ?thesis by (simp add: Copying p' all_turns_left_def)
qed (use assms in \<open>auto simp: Let_def split: prod.splits sum.splits option.splits\<close>)

definition stages_left :: "'w overlap \<Rightarrow> nat" where
  "stages_left st = sum_list (map (\<lambda>j. job_stage (jb_phase j)) (ol_jobs st))"

definition copies_left :: "'w overlap \<Rightarrow> nat" where
  "copies_left st = sum_list (map (\<lambda>j. job_copies_left (jb_phase j)) (ol_jobs st))"

lemma overlap_step_progress:
  assumes "overlap_step H fuel reg st st'"
  shows "stages_left st' < stages_left st \<or> (stages_left st' = stages_left st \<and> copies_left st' < copies_left st)"
  using assms
proof (rule overlap_stepE)
  fix i k p h w assume st': "st' = \<lparr>ol_heap = h, ol_world = w,
      ol_jobs = (ol_jobs st)[i := (ol_jobs st ! i)\<lparr>jb_phase := p\<rparr>]\<rparr>"
    and i: "i < length (ol_jobs st)"
    and turn: "job_turn H fuel reg (jb_input (ol_jobs st ! i)) k (jb_phase (ol_jobs st ! i))
      (ol_heap st) (ol_world st) = Some (p, h, w)"
  let ?j = "(ol_jobs st ! i)\<lparr>jb_phase := p\<rparr>"
  from job_turn_progress [OF turn] show ?thesis
    using sum_list_update_less [OF i, of "\<lambda>j. job_stage (jb_phase j)" ?j]
      sum_list_update_same [of "\<lambda>j. job_stage (jb_phase j)" ?j "ol_jobs st" i]
      sum_list_update_less [OF i, of "\<lambda>j. job_copies_left (jb_phase j)" ?j]
    by (auto simp: st' stages_left_def copies_left_def)
qed

lemma overlap_wf: "wf {(st', st). overlap_step H fuel reg st st'}"
  by (rule wf_subset [OF wf_inv_image [OF wf_lex_prod [OF wf_less_than wf_less_than]],
        of _ "\<lambda>st. (stages_left st, copies_left st)"])
    (auto dest: overlap_step_progress)

lemma job_can_turn:
  assumes "job_outcome p = None" and "\<And>buf. p = Evaluating buf \<Longrightarrow> compile_text H fuel reg c buf h \<noteq> None"
  shows "\<exists>k x. job_turn H fuel reg c k p h w = Some x"
proof (cases p)
  case (Evaluating buf)
  with assms(2) [of buf] show ?thesis by (auto split: sum.split)
next
  case (Copying out ts rej)
  with assms(1) obtain k where "k < length ts" and "\<not> finished (ct_phase (ts ! k))"
    by (auto simp: copies_outcome_def list_all_length split: option.splits if_splits)
  then show ?thesis by (auto simp: Copying Let_def)
qed (use assms(1) in \<open>auto simp: Let_def split: prod.split sum.split\<close>)

text \<open>
  C8: renderings that overlap all settle, if each of them would alone: no run goes on for ever, and at any
  time each rendering that has not settled can take a turn, whatever the others do.
\<close>

theorem overlapping_renderings_settle:
  assumes "user_code_returns (ho_user H)" and "heap_ok h" and "build b h = (Inr cc, s)"
    and "\<forall>c \<in> set cs. \<forall>buf. compile_text H fuel (lc_registry cc) c buf (ls_heap s) \<noteq> None"
    and "(overlap_step H fuel (lc_registry cc))\<^sup>*\<^sup>* (start_jobs (ls_heap s) w cs) st"
  shows "wf {(st', st). overlap_step H fuel (lc_registry cc) (st :: 'w overlap) st'} \<and>
    (\<forall>i < length cs. job_outcome (jb_phase (ol_jobs st ! i)) = None \<longrightarrow>
      (\<exists>k x. job_turn H fuel (lc_registry cc) (cs ! i) k (jb_phase (ol_jobs st ! i))
        (ol_heap st) (ol_world st) = Some x))"
proof (intro conjI allI impI overlap_wf)
  note kept = compiler_steps_heap [OF assms(1-3) rtranclp.rtrancl_refl]
  have made: "modules_kept (lc_registry cc) (ls_heap s) (ol_heap st)"
    using overlap_made [OF assms(1) _ _ assms(5)] kept by auto
  fix i assume i: "i < length cs" and open_job: "job_outcome (jb_phase (ol_jobs st ! i)) = None"
  have "compile_text H fuel (lc_registry cc) (cs ! i) buf (ol_heap st) \<noteq> None" for buf
    using compile_text_alone [OF made, of H fuel "cs ! i" buf] assms(4) i
    by (auto simp: option.rel_sel)
  then show "\<exists>k x. job_turn H fuel (lc_registry cc) (cs ! i) k (jb_phase (ol_jobs st ! i))
      (ol_heap st) (ol_world st) = Some x"
    by (intro job_can_turn open_job) simp
qed

end
