(* ===== verification/StdDocuments.thy ===== *)
theory StdDocuments
  imports Compile StdOutput
begin

text \<open>
  Documents that use the standard modules only: what evaluating them makes, and why it leaves
  only standard commands in the namespaces for the documents that follow.
\<close>

section \<open>What the standard commands make\<close>

text \<open>The tags of the nodes that the standard commands make.\<close>

definition command_tags :: "jstr list" where
  "command_tags = [js ''__doc'', js ''maketitle'', js ''sec'', js ''subsec'', js ''subsubsec'',
     js ''bold'', js ''italic'', js ''bquot'', js ''marginnote'']"

definition std_made :: "ltrf_node \<Rightarrow> bool" where
  "std_made n \<longleftrightarrow> node_tag n \<in> set command_tags \<and> (node_kv n = [] \<or> node_kv n = block_kv)"

fun std_function :: "js_fn \<Rightarrow> bool" where
  "std_function (WrapInCmd t) = (t \<in> set command_tags)"
| "std_function (WrapInBlockCmd t) = (t \<in> set command_tags)"
| "std_function (UserFn _ _) = False"
| "std_function _ = True"

fun std_command :: "command \<Rightarrow> bool" where
  "std_command (JsFnCommand _ f) = std_function f"
| "std_command (UserCommand _ _) = False"
| "std_command _ = True"

fun std_entry :: "ns_entry \<Rightarrow> bool" where
  "std_entry (EntryItem c) = std_command c"
| "std_entry _ = True"

text \<open>Only standard commands in all namespaces; the title and the author made by them.\<close>

definition std_namespaces :: "ns_heap \<Rightarrow> bool" where
  "std_namespaces h \<longleftrightarrow> (\<forall>n \<in> set h. \<forall>(k, e) \<in> set (ns_children n). std_entry e)"

definition std_store :: "file_store \<Rightarrow> bool" where
  "std_store s \<longleftrightarrow> (case store_title s of None \<Rightarrow> False | Some t \<Rightarrow> all_below std_made t) \<and>
     (case store_author s of None \<Rightarrow> False | Some a \<Rightarrow> all_below std_made a)"

definition std_storage :: "module_storage \<Rightarrow> bool" where
  "std_storage st \<longleftrightarrow> (case jmap_get st main_name of None \<Rightarrow> False | Some s \<Rightarrow> std_store s)"

section \<open>Namespaces\<close>

lemma std_namespaces_entry:
  "std_namespaces h \<Longrightarrow> a < length h \<Longrightarrow> jmap_get (ns_children (h ! a)) k = Some e \<Longrightarrow> std_entry e"
  unfolding std_namespaces_def using nth_mem map_of_SomeD by fast

lemma lookupItem_Some:
  assumes "ns_lookupItem h a i = Inr (Some cmd)"
  shows "ns_lookup h a i = Inr (Some (EntryItem cmd))"
proof -
  from assms obtain x where x: "ns_lookup h a i = Inr x" and "(case x of
         None \<Rightarrow> Inr None
       | Some EntryUndefined \<Rightarrow> Inr None
       | Some (EntryItem c) \<Rightarrow> Inr (Some c)
       | Some (EntryNs _) \<Rightarrow> bindR (ns_deref h a) (\<lambda>t.
             Inl (NameError (LookupItemFoundNamespace (id_name i) (ns_name t))))) = Inr (Some cmd)"
    by (auto simp: ns_lookupItem.simps [of h a i] bindR_eq_Inr_iff)
  then show ?thesis
    by (cases x) (auto simp: bindR_eq_Inr_iff split: ns_entry.splits)
qed

lemma std_lookup:
  "std_namespaces h \<Longrightarrow> ns_lookup h a i = Inr (Some e) \<Longrightarrow> std_entry e"
  "std_namespaces h \<Longrightarrow> ns_lookupItem h a i = Inr (Some cmd) \<Longrightarrow> std_command cmd"
proof (induction h a i and h a i arbitrary: e and cmd rule: ns_lookup_ns_lookupItem.induct)
  case (1 h a i)
  from "1.prems"(2) have a: "a < length h" by (auto simp: ns_lookup.simps bindR_eq_Inr_iff)
  show ?case
  proof (cases "id_path i")
    case Nil
    with "1.prems" a show ?thesis
      by (auto simp: ns_lookup.simps [of h a i] ns_deref_eq split: if_splits dest: std_namespaces_entry)
  next
    case (Cons sub rest)
    with "1.prems" a obtain c where "e = EntryItem c"
      using lookup_item_only [OF a _ "1.prems"(2)] by auto
    with Cons "1.prems" a "1.IH" [of "h ! a" sub rest] show ?thesis
      by (auto simp: ns_lookup.simps [of h a i] ns_deref_eq bindR_eq_Inr_iff
          split: if_splits option.splits ns_entry.splits)
  qed
next
  case (2 h a i)
  from lookupItem_Some [OF "2.prems"(2)] "2.IH" "2.prems"(1) show ?case by fastforce
qed

lemma std_lookupCommand:
  "std_namespaces h \<Longrightarrow> lookupCommand h root name = Inr cmd \<Longrightarrow> std_command cmd"
  by (auto simp: lookupCommand_def lookup_item_name_def bindR_eq_Inr_iff split: option.splits
      dest: std_lookup(2))

lemma std_children_set:
  assumes "std_namespaces h" and "children_set h a k e = Inr h'" and "std_entry e"
  shows "std_namespaces h'"
proof -
  from assms(2) have a: "a < length h"
    and h': "h' = h[a := (h ! a)\<lparr>ns_children := jmap_set k e (ns_children (h ! a))\<rparr>]"
    by (simp_all add: children_set_Inr)
  have sub: "set (jmap_set k e m) \<subseteq> insert (k, e) (set m)" for m :: "ns_entry jmap"
    by (induction m) auto
  have "\<forall>(k, e) \<in> set (ns_children (h ! a)). std_entry e"
    using assms(1) a by (auto simp: std_namespaces_def)
  with assms(3) sub [of "ns_children (h ! a)"]
  have "\<forall>(k, e) \<in> set (jmap_set k e (ns_children (h ! a))). std_entry e" by fastforce
  with assms(1) show ?thesis
    unfolding h' std_namespaces_def by (auto dest!: set_update_subset_insert [THEN subsetD])
qed

lemma std_addUsing:
  "std_namespaces h \<Longrightarrow> addUsing h a k e = Inr h' \<Longrightarrow> std_entry e \<Longrightarrow> std_namespaces h'"
  by (auto simp: addUsing_def bindR_eq_Inr_iff intro: std_children_set)

lemma std_rootAdd:
  "std_namespaces h \<Longrightarrow> rootAddChildNamespace h a k n = Inr h' \<Longrightarrow> std_namespaces h'"
  by (auto simp: rootAddChildNamespace_def bindR_eq_Inr_iff intro: std_children_set)

lemma std_add_children:
  "foldR (\<lambda>h kv. addUsing h r (p @ fst kv) (snd kv)) h kvs = Inr h' \<Longrightarrow> std_namespaces h \<Longrightarrow>
   \<forall>(k, e) \<in> set kvs. std_entry e \<Longrightarrow> std_namespaces h'"
proof (induction kvs arbitrary: h)
  case (Cons kv kvs)
  from Cons.prems(1) obtain h1 where add: "addUsing h r (p @ fst kv) (snd kv) = Inr h1"
    and rest: "foldR (\<lambda>h kv. addUsing h r (p @ fst kv) (snd kv)) h1 kvs = Inr h'"
    by (auto simp: bindR_eq_Inr_iff)
  from Cons.prems(3) have "std_entry (snd kv)" by (auto simp: split_beta)
  with std_addUsing [OF Cons.prems(2) add] have "std_namespaces h1" by simp
  with Cons.IH [OF rest] Cons.prems(3) show ?case by simp
qed simp

section \<open>Evaluation\<close>

interpretation stds: effect_frame
  "\<lambda>s. heap_inv c (ev_heap s) \<and> std_namespaces (ev_heap s) \<and> std_storage (ev_storage s)"
  "\<lambda>_ _. True" for c
  by unfold_locales simp_all

lemma on_heap_std:
  assumes "\<And>h h'. heap_inv c h \<Longrightarrow> std_namespaces h \<Longrightarrow> f h = Inr h' \<Longrightarrow>
    heap_inv c h' \<and> std_namespaces h'"
  shows "stds.yields c (\<lambda>_. True) (on_heap f)"
proof (rule stds.yieldsI)
  fix s u s' assume inv: "heap_inv c (ev_heap s) \<and> std_namespaces (ev_heap s) \<and> std_storage (ev_storage s)"
    and "on_heap f s = Some (Inr (u, s'))"
  then obtain h where "f (ev_heap s) = Inr h" and "s' = s\<lparr>ev_heap := h\<rparr>" by (auto simp: on_heap_Inr)
  with assms [of "ev_heap s" h] inv show "True \<and> True \<and> heap_inv c (ev_heap s') \<and>
      std_namespaces (ev_heap s') \<and> std_storage (ev_storage s')" by simp
qed

lemma ask_heap_std:
  "(\<And>h x. heap_inv c h \<Longrightarrow> std_namespaces h \<Longrightarrow> f h = Inr x \<Longrightarrow> P x) \<Longrightarrow>
   stds.yields c P (ask_heap f)"
  by (rule stds.yieldsI) (auto simp: ask_heap_Inr)

lemma on_storage_std:
  "(\<And>st x st'. std_storage st \<Longrightarrow> m st = Some (Inr (x, st')) \<Longrightarrow> P x \<and> std_storage st') \<Longrightarrow>
   stds.yields c P (on_storage m)"
  by (rule stds.yieldsI) (auto simp: on_storage_def split: option.splits sum.splits)

lemma std_loadModule:
  assumes "drawer_get (reg_modules (ctx_registry c)) k = Some m"
  shows "stds.yields c (\<lambda>_. True) (env_loadModule c m as)"
  unfolding env_loadModule_def
proof (intro stds.yields_bind [OF stds.yields_update] on_heap_std)
  fix h h' assume inv: "heap_inv c h" "std_namespaces h"
    and run: "rootAddChildNamespace h (ctx_root c)
      (case as of None \<Rightarrow> mod_identifier m | Some a \<Rightarrow> a) (mod_namespace m) = Inr h'"
  from inv(1) assms have "mod_namespace m < ctx_root c"
    by (auto simp: heap_inv_def dest: registry_get_ok)
  with rootAdd_root [OF inv(1) run] std_rootAdd [OF inv(2) run]
  show "heap_inv c h' \<and> std_namespaces h'" by simp
qed simp

lemma std_call_require: "stds.yields c (all_below std_made) (call_require c a)"
  unfolding call_require_def Let_def
  by (auto intro!: stds.yields_bind [OF stds.yields_lift [where P = "\<lambda>_. True"]]
      stds.yields_bind [OF std_loadModule] stds.yields_return stds.yields_throw
      split: option.splits ltrf_obj_of.splits)

lemma std_lookup_name:
  "std_namespaces h \<Longrightarrow> lookup_name h a s = Inr (Some e) \<Longrightarrow> std_entry e"
  by (auto simp: lookup_name_def bindR_eq_Inr_iff dest: std_lookup(1))

definition found_std :: "ns_entry option \<Rightarrow> bool" where
  "found_std x \<longleftrightarrow> (case x of None \<Rightarrow> True | Some e \<Rightarrow> std_entry e)"

lemma ask_lookup_std:
  "stds.yields c found_std (ask_heap (\<lambda>h. lookup_name h a s))"
  by (rule ask_heap_std) (auto simp: found_std_def dest: std_lookup_name split: option.split)

lemma std_call_using: "stds.yields c (all_below std_made) (call_using c a)"
  unfolding call_using_def split_def
proof (rule stds.yields_bind [OF stds.yields_lift [where P = "\<lambda>_. True"]])
  fix x :: "jstr \<times> jstr"
  show "stds.yields c (all_below std_made)
      (act_bind (ask_heap (\<lambda>h. lookup_name h (ctx_root c) (fst x))) (\<lambda>target0.
       act_bind (act_lift (require_defined UsingNotFound target0)) (\<lambda>target.
       act_bind (on_heap (\<lambda>h. addUsing h (ctx_root c) (snd x) target)) (\<lambda>_. act_return []))))"
  proof (rule stds.yields_bind [OF ask_lookup_std])
    fix target0 assume found: "found_std target0"
    show "stds.yields c (all_below std_made)
       (act_bind (act_lift (require_defined UsingNotFound target0)) (\<lambda>target.
        act_bind (on_heap (\<lambda>h. addUsing h (ctx_root c) (snd x) target)) (\<lambda>_. act_return [])))"
      by (rule stds.yields_bind [OF stds.yields_lift [where P = std_entry]])
        (use found in \<open>auto simp: found_std_def intro!: stds.yields_bind [OF on_heap_std]
          stds.yields_return dest: addUsing_root std_addUsing\<close>)
  qed
qed simp

lemma std_call_using_all: "stds.yields c (all_below std_made) (call_using_all c a)"
proof (rule stds.yieldsI)
  fix s out s'
  assume inv: "heap_inv c (ev_heap s) \<and> std_namespaces (ev_heap s) \<and> std_storage (ev_storage s)"
    and run: "call_using_all c a s = Some (Inr (out, s'))"
  from run obtain f p t0 where look: "lookup_name (ev_heap s) (ctx_root c) f = Inr t0"
    and rest: "(case t0 of
       Some (EntryNs t) \<Rightarrow>
         (\<lambda>s. case using_all_loop (ctx_root c) t p (ev_heap s) 0 of
            None \<Rightarrow> None
          | Some (Inl e) \<Rightarrow> Some (Inl e)
          | Some (Inr h) \<Rightarrow> Some (Inr ([], s\<lparr>ev_heap := h\<rparr>)))
     | _ \<Rightarrow> act_throw (CoreError UsingAllFromNotNamespace)) s = Some (Inr (out, s'))"
    by (auto simp: call_using_all_def eval_Inr_iffs)
  from rest obtain t where t: "t0 = Some (EntryNs t)"
    by (auto simp: act_throw_Inr split: option.splits ns_entry.splits)
  from lookup_not_root [of c "ev_heap s" f t] inv look t
  have bounds: "t \<noteq> ctx_root c" "t < length (ev_heap s)" by auto
  from rest obtain h where fold: "foldR (\<lambda>h kv. addUsing h (ctx_root c) (p @ fst kv) (snd kv)) (ev_heap s)
      (ns_children (ev_heap s ! t)) = Inr h" and s': "out = []" "s' = s\<lparr>ev_heap := h\<rparr>"
    by (auto simp: t using_all_loop_fold [OF bounds] split: sum.splits)
  have "\<forall>(k, e) \<in> set (ns_children (ev_heap s ! t)). std_entry e"
    using inv bounds(2) by (auto simp: std_namespaces_def)
  with std_add_children [OF fold] inv have "std_namespaces h" by blast
  moreover have "heap_inv c h" using using_all_fold_root [OF _ fold] inv by blast
  ultimately show "all_below std_made out \<and> True \<and> heap_inv c (ev_heap s') \<and>
      std_namespaces (ev_heap s') \<and> std_storage (ev_storage s')"
    using inv by (simp add: s')
qed

lemma all_below_Nd: "all_below P [Nd n] \<longleftrightarrow> P n \<and> all_below P (node_elems n)"
  by (simp add: all_nodes_iff [of P n])

lemma std_wrap:
  assumes "run_fn u f = wrap_fn tag kv" and "tag \<in> set command_tags" and "kv = [] \<or> kv = block_kv"
    and "list_all (all_below std_made) (curlyArgs a)"
    and "call_js_fn u n f a st = Some (Inr (out, st'))"
  shows "all_below std_made out \<and> st' = st"
  using assms(2-5) call_wrap [OF assms(1), of n a st]
  by (cases "curlyArgs a") (auto simp: all_below_Nd std_made_def simp del: all_below_simps)

lemma std_set_main:
  assumes "set_main_fn upd a st = Some (Inr (out, st'))" and "std_storage st"
    and "list_all (all_below std_made) (curlyArgs a)"
    and "\<And>v s. all_below std_made v \<Longrightarrow> std_store s \<Longrightarrow> std_store (upd v s)"
  shows "out = UArray [] \<and> std_storage st'"
proof -
  from assms(1) obtain s v where s: "getFileModuleStorage st main_name = Inr s"
    and v: "caOrErr a 0 = Inr v" and out: "out = UArray []" and st': "st' = jmap_set main_name (upd v s) st"
    by (auto simp: set_main_fn_def act_Inr_iffs)
  have "all_below std_made v" using v assms(3) by (cases "curlyArgs a") (auto simp: caOrErr_eq)
  moreover have "std_store s"
    using s assms(2) by (auto simp: getFileModuleStorage_def std_storage_def split: option.splits)
  ultimately show ?thesis using assms(4) by (simp add: out st' std_storage_def jm.get_set)
qed

lemma std_count:
  "count_fn st = Some (Inr (out, st')) \<Longrightarrow> std_storage st \<Longrightarrow>
   (\<exists>s. out = UArray [UPrim (JString s)]) \<and> std_storage st'"
  by (auto simp: count_fn_def act_Inr_iffs getFileModuleStorage_def std_storage_def bump_count_def
      std_store_def jm.get_set split: option.splits)

lemma std_call_fn:
  assumes "std_function f" and "std_storage st" and "list_all (all_below std_made) (curlyArgs a)"
    and "call_js_fn u n f a st = Some (Inr (out, st'))"
  shows "all_below std_made out \<and> std_storage st'"
proof (cases f)
  case DocCommand
  from std_wrap [OF _ _ _ assms(3,4), of "js ''__doc''" "[]"] show ?thesis
    using assms(2) by (simp add: DocCommand fun_eq_iff command_tags_def)
next
  case CountFn
  with assms(4) std_count [OF _ assms(2)] show ?thesis
    by (auto simp: call_js_fn_def act_Inr_iffs)
next
  case TitleFn
  with assms(4) std_set_main [OF _ assms(2,3), of "\<lambda>v s. s\<lparr>store_title := Some v\<rparr>"] show ?thesis
    by (auto simp: call_js_fn_def act_Inr_iffs std_store_def)
next
  case AuthorFn
  with assms(4) std_set_main [OF _ assms(2,3), of "\<lambda>v s. s\<lparr>store_author := Some v\<rparr>"] show ?thesis
    by (auto simp: call_js_fn_def act_Inr_iffs std_store_def)
next
  case MaketitleFn
  with assms(2,4) show ?thesis
    by (auto simp: call_js_fn_def act_Inr_iffs all_below_Nd std_made_def command_tags_def
        simp del: all_below_simps(3))
next
  case (WrapInCmd t)
  with std_wrap [OF _ _ _ assms(3,4), of t "[]"] assms(1,2) show ?thesis by (simp add: fun_eq_iff)
next
  case (WrapInBlockCmd t)
  with std_wrap [OF _ _ _ assms(3,4), of t block_kv] assms(1,2) show ?thesis by (simp add: fun_eq_iff)
qed (use assms(1) in simp)

lemma std_call:
  assumes "std_command cmd" and "list_all (all_below std_made) (curlyArgs a)"
  shows "stds.yields c (all_below std_made) (call_command c cmd a)"
proof (cases cmd)
  case (JsFnCommand n f)
  with assms std_call_fn [of f _ a "ctx_user c" n] show ?thesis
    by (auto intro!: on_storage_std)
qed (use assms in \<open>simp_all add: std_call_require std_call_using std_call_using_all\<close>)

text \<open>Evaluating with standard commands makes standard nodes only.\<close>

lemma std_evaluation:
  "stds.yields c (all_below std_made) (evaluateNode c n)"
  "stds.yields c (all_below std_made) (evaluateCommandNode c name sq cu)"
  "stds.yields c (\<lambda>_. True) (evaluateSquareArgs c sqs v kv)"
  "stds.yields c (\<lambda>_. True) (evaluateSquareEntry c e)"
  "stds.yields c (list_all (all_below std_made)) (evaluateCurlyArgs c cus)"
  "stds.yields c (all_below std_made) (evaluateNodes c ns)"
proof (induction c n and c name sq cu and c sqs v kv and c e and c cus and c ns
    rule: evaluateNode_evaluateCommandNode_evaluateSquareArgs_evaluateSquareEntry_evaluateCurlyArgs_evaluateNodes.induct)
  case (4 c name sq cu)
  have squares: "stds.yields c (\<lambda>_. True) (case sq of None \<Rightarrow> act_return ([], [])
      | Some sqs \<Rightarrow> evaluateSquareArgs c sqs [] [])" if "argumentEvaluation cmd = Eager" for cmd
    using 4 that by (cases sq) (auto intro: stds.yields_return)
  show ?case
    unfolding evaluateCommandNode.simps
  proof (rule stds.yields_bind [OF ask_heap_std [where P = std_command]])
    fix cmd assume cmd: "std_command cmd"
    show "stds.yields c (all_below std_made) (if argumentEvaluation cmd \<noteq> Eager
        then act_throw (EvalError OnlyEagerSupported)
        else act_bind (case sq of None \<Rightarrow> act_return ([], []) | Some sqs \<Rightarrow> evaluateSquareArgs c sqs [] [])
          (\<lambda>(v, kv). act_bind (evaluateCurlyArgs c cu)
            (\<lambda>cs. call_command c cmd \<lparr>keywordArgs = kv, squareArgs = v, curlyArgs = cs\<rparr>)))"
      using 4 squares [of cmd] std_call [OF cmd]
      by (auto intro!: stds.yields_throw stds.yields_bind [OF squares]
          stds.yields_bind [where P = "list_all (all_below std_made)"])
  qed (rule std_lookupCommand)
next
  case (6 c e rest v kv)
  then show ?case by (auto intro!: stds.yields_bind [where P = "\<lambda>_. True"])
next
  case (7 c key val xs rest v kv)
  then show ?case
    by (auto intro!: stds.yields_bind [where P = "\<lambda>_. True"] stds.yields_throw split: option.splits)
next
  case (8 c key rest v kv)
  then show ?case by (auto intro!: stds.yields_bind [where P = "\<lambda>_. True"] stds.yields_throw)
next
  case (14 c name sq cu m)
  then show ?case
    by (auto intro!: stds.yields_bind [where P = "all_below std_made"] stds.yields_throw
        stds.yields_return split: list.splits)
next
  case 17
  then show ?case
    by (auto intro!: stds.yields_bind [where P = "all_below std_made"]
        stds.yields_bind [where P = "list_all (all_below std_made)"] stds.yields_return)
next
  case 19
  then show ?case
    by (auto intro!: stds.yields_bind [where P = "all_below std_made"] stds.yields_return)
qed (auto simp: evaluateTextNode_def intro!: stds.yields_return stds.yields_throw)

lemma std_addUsingFromCore:
  "std_namespaces h \<Longrightarrow> addUsingFromCore r h x = Inr h' \<Longrightarrow> std_namespaces h'"
proof -
  assume std: "std_namespaces h" and add: "addUsingFromCore r h x = Inr h'"
  then obtain item where item: "lookup_item_name h r (STD_CORE_MOD @ [colon] @ x) = Inr item"
    and use: "addUsing h r x (case item of None \<Rightarrow> EntryUndefined | Some c \<Rightarrow> EntryItem c) = Inr h'"
    by (auto simp: addUsingFromCore_def bindR_eq_Inr_iff)
  have "std_entry (case item of None \<Rightarrow> EntryUndefined | Some c \<Rightarrow> EntryItem c)"
    using item std_lookup(2) [OF std]
    by (auto simp: lookup_item_name_def bindR_eq_Inr_iff split: option.split)
  with std_addUsing [OF std use] show "std_namespaces h'" by simp
qed

lemma std_environment:
  assumes "std_namespaces h0" and "makeEnvironmentWithStdCoreSetup u reg h0 st = Inr (c, s)"
  shows "std_namespaces (ev_heap s)"
proof -
  obtain root h1 where new: "new_RootNamespace h0 = (root, h1)" by fastforce
  with assms(2) obtain m h2 h3 where
    "drawer_get (reg_modules reg) STD_CORE_MOD = Some m"
    and h2: "rootAddChildNamespace h1 root (mod_identifier m) (mod_namespace m) = Inr h2"
    and h3: "foldR (addUsingFromCore root) h2 DEFAULT_USE_FROM_CORE = Inr h3"
    and s: "s = \<lparr>ev_heap = h3, ev_loadedModules = [mod_identifier m], ev_storage = st,
      ev_console = []\<rparr>"
    by (auto simp: makeEnvironmentWithStdCoreSetup_def bindR_eq_Inr_iff split: option.splits)
  have "std_namespaces h1"
    using new assms(1) by (auto simp: new_RootNamespace_def std_namespaces_def)
  from std_rootAdd [OF this h2] have "std_namespaces h2" .
  with h3 have "std_namespaces h3" by (auto intro: foldR_invariant std_addUsingFromCore)
  with s show ?thesis by simp
qed

lemma std_evaluatePass:
  assumes "heap_ok h" and "registry_ok reg (length h)" and "std_namespaces h" and "std_storage st"
    and "evaluatePass u reg h st r = Some (Inr (x, s))"
  shows "\<exists>es. x = Nd (ltrf_make ROOT_TAG_EVAL [] es) \<and> all_below std_made es \<and>
    heap_ok (ev_heap s) \<and> length h \<le> length (ev_heap s) \<and>
    std_namespaces (ev_heap s) \<and> std_storage (ev_storage s)"
proof -
  from assms(5) obtain c s0 where env: "makeEnvironmentWithStdCoreSetup u reg h st = Inr (c, s0)"
    and run: "act_bind (evaluateRootNode c r) (\<lambda>out. case out of
              [x] \<Rightarrow> act_return x
            | _ \<Rightarrow> act_throw (EvalError RootMustReturnSingle)) s0 = Some (Inr (x, s))"
    by (auto simp: evaluatePass_def split: sum.splits)
  note start = makeEnvironment_inv [OF assms(1,2) env]
  from run obtain ns m es where
    eval: "evaluateNodes c ns (s0\<lparr>ev_console := ev_console s0 @ warnUserOfIssuesWithRootNode ns\<rparr>) =
      Some (Inr (es, s))" and x: "x = Nd (ltrf_make ROOT_TAG_EVAL [] es)"
    by (cases r) (auto simp: evaluateRootNode_def act_Inr_iffs)
  from stds.yieldsD [where c = c, OF std_evaluation(6) _ eval] start assms(4)
    std_environment [OF assms(3) env]
  have "all_below std_made es \<and> heap_inv c (ev_heap s) \<and> std_namespaces (ev_heap s) \<and>
      std_storage (ev_storage s)" by simp
  with x start show ?thesis
    by (auto simp: heap_inv_def)
qed

end
