(* ===== verification/StdRendering.thy ===== *)
theory StdRendering
  imports StdDocuments
begin

text \<open>
  Rendering documents that use the standard modules only: a processed document has no tag but
  those that the standard modules output, and the output pass outputs all of it.
\<close>

section \<open>Before the first rendering and after each\<close>

definition std_ready :: "jstr list \<Rightarrow> ns_heap \<Rightarrow> bool" where
  "std_ready ts h \<longleftrightarrow> heap_ok h \<and> registry_ok (std_registry ts) (length h) \<and> std_namespaces h"

lemma std_namespaces_start: "std_namespaces (std_heap ts)"
  by (auto simp: std_namespaces_def std_heap_def std_specs_def core_spec_def main_spec_def
      core_html_spec_def core_latex_spec_def main_html_spec_def main_latex_spec_def fn_command_def
      command_tags_def)

lemma std_ready_start: "std_ready (b_targets (withTargets ts new_LapolCompilerBuilder))
    (std_heap (b_targets (withTargets ts new_LapolCompilerBuilder)))"
proof -
  let ?ts = "b_targets (withTargets ts new_LapolCompilerBuilder)"
  obtain cc s where run: "build (std_builder f ts) [] = (Inr cc, s)"
    and "lc_registry cc = std_registry ?ts" and "ls_heap s = std_heap ?ts"
    using std_build [of _ ts] by fastforce
  moreover from run have "lc_registry cc = ls_registry s"
    by (auto simp: build_eq Let_def split: option.splits)
  ultimately show ?thesis
    using build_inv [OF _ run] std_namespaces_start [of ?ts]
    by (auto simp: std_ready_def load_inv_def modules_inv_def registry_ok_def list_all_iff heap_ok_def)
qed

lemma std_storage_start: "std_storage (make_FileContext (std_registry ts))"
  by (simp add: std_storage_def make_FileContext_eq std_registry_def std_specs_def core_spec_def
      main_spec_def core_html_spec_def core_latex_spec_def main_html_spec_def main_latex_spec_def
      main_name_def main_instance_def std_store_def)

section \<open>Processing\<close>

lemma std_made_flag: "std_made n \<Longrightarrow> flag_ok n"
  by (auto simp: std_made_def flag_ok_def kv_isBlock_def block_kv_def)

lemma all_nodes_self: "all_nodes P n \<Longrightarrow> P n"
  by (simp add: all_nodes_iff [of P n])

lemma std_made_flags: "all_below std_made (node_elems n) \<Longrightarrow> flags_below n"
proof (induction n rule: ltrf_node_induct)
  case (LtrfNode t kv es)
  have "obj_flags l" if "l \<in> set es" for l
  proof (cases l)
    case (Nd m)
    with LtrfNode.prems that have m: "all_nodes std_made m" by (auto simp: all_below_iff)
    with LtrfNode.IH [of m] that Nd show ?thesis
      using std_made_flag [OF all_nodes_self [OF m]] by (simp add: all_nodes_iff [of std_made m])
  qed simp
  then show ?case by (simp add: flags_below_eq list_all_iff)
qed

lemma no_break_markers:
  "all_nodes node_shape n \<Longrightarrow> all_nodes (\<lambda>m. Q m \<or> node_tag m = BREAK_MARKER_TAG) n \<Longrightarrow>
   node_tag n \<noteq> BREAK_MARKER_TAG \<Longrightarrow> all_nodes Q n"
proof (induction n rule: ltrf_node_induct)
  case (LtrfNode t kv es)
  let ?n = "LtrfNode t kv es"
  have "all_nodes Q m" if m: "Nd m \<in> set es" for m
  proof (rule LtrfNode.IH)
    from LtrfNode.prems(1,2) m show "all_nodes node_shape m"
      and "all_nodes (\<lambda>m. Q m \<or> node_tag m = BREAK_MARKER_TAG) m"
      by (auto simp: all_nodes_iff [of node_shape ?n] all_below_iff
          all_nodes_iff [of "\<lambda>m. Q m \<or> node_tag m = BREAK_MARKER_TAG" ?n])
    from all_nodes_self [OF LtrfNode.prems(1)] m show "node_tag m \<noteq> BREAK_MARKER_TAG"
      using bspec [of "set es" "\<lambda>l. \<not> isBreakMarker l" "Nd m"]
      by (simp add: node_shape_def list_all_iff)
  qed (use m in simp_all)
  moreover have "Q ?n" using LtrfNode.prems(2,3)
    by (auto simp: all_nodes_iff [of "\<lambda>m. Q m \<or> node_tag m = BREAK_MARKER_TAG" ?n])
  ultimately show ?case by (simp add: all_nodes_iff [of Q ?n] all_below_iff)
qed

lemma std_processed:
  assumes "all_below std_made es" and "processPass (ltrf_make ROOT_TAG_EVAL [] es) = Inr r"
  shows "all_nodes (\<lambda>m. node_tag m \<in> std_tags) r"
proof (rule no_break_markers)
  let ?root = "ltrf_make ROOT_TAG_EVAL [] es"
  have root: "all_nodes P ?root" if "P ?root" "\<And>m. std_made m \<Longrightarrow> P m" for P
    using assms(1) that(1) all_nodes_mono [of std_made _ P] that(2)
    by (simp add: all_nodes_iff [of P ?root] all_below_iff)
  have "no_paras ?root"
    unfolding no_paras_def
    by (rule root) (auto simp: ltrf_make_def std_made_def command_tags_def tag_defs ROOT_TAG_EVAL_def)
  with assms(2) show "all_nodes node_shape r" by (rule processPass_shaped)
  show "all_nodes (\<lambda>m. node_tag m \<in> std_tags \<or> node_tag m = BREAK_MARKER_TAG) r"
  proof (rule processPass_labels [OF _ _ _ assms(2)])
    show "all_nodes (\<lambda>m. node_tag m \<in> std_tags \<or> node_tag m = BREAK_MARKER_TAG) ?root"
      by (rule root) (auto simp: ltrf_make_def std_made_def command_tags_def std_tags_def ROOT_TAG_EVAL_def)
    show "label_pred (\<lambda>m. node_tag m \<in> std_tags \<or> node_tag m = BREAK_MARKER_TAG)"
      by (rule label_predI) simp
  qed (simp_all add: break_marker_def std_tags_def PARAGRAPH_TAG_def)
  from assms(2) have "node_tag r = node_tag ?root"
    by (auto simp: processPass_eq bindR_eq_Inr_iff processRoot_Inr updateElems_def dest!: paras_tag_kv)
  then show "node_tag r \<noteq> BREAK_MARKER_TAG"
    by (simp add: ltrf_make_def ROOT_TAG_EVAL_def tag_defs)
qed

section \<open>Output\<close>

definition std_deps :: "jstr \<Rightarrow> (jstr \<times> jstr) list" where
  "std_deps target = (if target = html
     then HTML_DEFAULT_DEPS @
       map (\<lambda>font. (js ''deps/hello-css/fonts/'' @ font, js ''./deps/fonts/'' @ font)) DEFAULT_FONTS
     else LATEX_DEFAULT_DEPS)"

lemma std_deps_distinct: "distinct (map (\<lambda>(src, tgt). posix_normalize tgt) (std_deps target))"
proof -
  have "distinct (map (\<lambda>(src, tgt). posix_normalize tgt) (HTML_DEFAULT_DEPS @
       map (\<lambda>font. (js ''deps/hello-css/fonts/'' @ font, js ''./deps/fonts/'' @ font)) DEFAULT_FONTS))"
    and "distinct (map (\<lambda>(src, tgt). posix_normalize tgt) LATEX_DEFAULT_DEPS)"
    by code_simp+
  then show ?thesis by (simp add: std_deps_def)
qed

text \<open>The requirements of a root, and the files among which they can be required.\<close>

definition std_requirements :: "out_ctx \<Rightarrow> la_path \<Rightarrow> (la_path \<times> jstr) list" where
  "std_requirements c folder = map (\<lambda>(src, tgt). (lapol_file c folder src, tgt)) (std_deps (oc_target c))"

definition files_fit :: "out_ctx \<Rightarrow> la_path \<Rightarrow> required_files \<Rightarrow> bool" where
  "files_fit c folder fs \<longleftrightarrow> (\<forall>(p, as) \<in> set (std_requirements c folder).
     file_source fs (lib_normalize (native_lib (oc_paths c)) as) \<in> {None, Some (lp_fullPath p)})"

lemma std_requirements_consistent:
  assumes "native_lib (oc_paths c) = posix cwd"
  shows "consistent (oc_paths c) (std_requirements c folder)"
proof -
  have "x = y" if "x \<in> set (std_deps (oc_target c))" "y \<in> set (std_deps (oc_target c))"
    "posix_normalize (snd x) = posix_normalize (snd y)" for x y
    using std_deps_distinct [of "oc_target c"] that
    by (simp add: distinct_map inj_on_def split_def)
  then show ?thesis
    by (force simp: consistent_def std_requirements_def assms posix_def)
qed

text \<open>
  A context that outputs the standard modules only.  The errors it may meet are those that the
  encoder of the target html throws.
\<close>

definition std_ctx :: "jstr list \<Rightarrow> la_path \<Rightarrow> jstr \<Rightarrow> out_ctx \<Rightarrow> bool" where
  "std_ctx ts folder cwd c \<longleftrightarrow> oc_registry c = std_registry ts \<and> oc_target c \<in> set ts \<and>
     oc_target c \<in> {html, latex} \<and> oc_strings c = std_strings_of (oc_target c) \<and>
     oc_lapolFolder c = Some folder \<and> native_lib (oc_paths c) = posix cwd"

definition encoder_error :: "out_ctx \<Rightarrow> js_error \<Rightarrow> bool" where
  "encoder_error c e \<longleftrightarrow> oc_target c = html \<and> (\<exists>s. oc_heEncode c s = Inl e)"

interpretation prints: effect_frame
  "\<lambda>s. cache_ok c s \<and> os_storage s = st \<and> files_fit c folder (os_files s)" "\<lambda>_ _. True"
  for c st folder
  by unfold_locales simp_all

lemma dispatch_prints:
  assumes "outputter_of c n = Inr p"
  shows "prints.meets c st folder E (\<lambda>q. q = p) (getLtrfNodeOutputter c n)"
proof (rule prints.meetsI)
  fix s assume inv: "cache_ok c s \<and> os_storage s = st \<and> files_fit c folder (os_files s)"
  with dispatch_answers [of c s n] assms
  show "(\<exists>e. getLtrfNodeOutputter c n s = Some (Inl e) \<and> E e) \<or>
      (\<exists>x s'. getLtrfNodeOutputter c n s = Some (Inr (x, s')) \<and> x = p \<and> cache_ok c s' \<and>
        os_storage s' = st \<and> files_fit c folder (os_files s'))"
    by (auto simp: outputter_of_def split: option.splits sum.splits)
qed

lemma require_prints:
  assumes "std_ctx ts folder cwd c"
  shows "prints.meets c st folder E (\<lambda>_. True) (require_from_folder c (std_deps (oc_target c)))"
proof (rule prints.meetsI)
  fix s assume inv: "cache_ok c s \<and> os_storage s = st \<and> files_fit c folder (os_files s)"
  from assms have fit: "consistent (oc_paths c) (std_requirements c folder)"
    and folder: "oc_lapolFolder c = Some folder"
    by (auto simp: std_ctx_def std_requirements_consistent)
  with inv require_all_Inr [of "oc_paths c" "os_files s" "std_requirements c folder"]
  obtain fs where fs: "require_all (oc_paths c) (os_files s) (std_requirements c folder) = Inr fs"
    unfolding files_fit_def by blast
  have "files_fit c folder fs"
    using require_all_source [OF fs] fit
    unfolding files_fit_def by fastforce
  with fs folder inv
  show "(\<exists>e. require_from_folder c (std_deps (oc_target c)) s = Some (Inl e) \<and> E e) \<or>
      (\<exists>x s'. require_from_folder c (std_deps (oc_target c)) s = Some (Inr (x, s')) \<and> True \<and>
        cache_ok c s' \<and> os_storage s' = st \<and> files_fit c folder (os_files s'))"
    by (simp add: require_from_folder_def getLapolFolder_def on_files_def std_requirements_def)
qed

lemma elems_print:
  "(\<And>x. x \<in> set es \<Longrightarrow> prints.meets c st folder E (\<lambda>_. True) (rec x)) \<Longrightarrow>
   prints.meets c st folder E (\<lambda>_. True) (output_elems rec es)"
  unfolding output_elems_def
  by (rule prints.meets_bind [OF prints.meets_map]) (auto intro: prints.meets_return)

lemma main_store_prints:
  "std_storage st \<Longrightarrow> prints.meets c st folder E
    (\<lambda>s. jmap_get st main_name = Some s \<and> std_store s) main_store_of"
  unfolding out_getFileModuleStorage_def
  by (rule prints.meets_bind [where P = "\<lambda>r. r = getFileModuleStorage st main_name"])
    (auto simp: getFileModuleStorage_def std_storage_def
      intro!: prints.meets_get prints.meets_return split: option.splits)

lemma js_defined_prints:
  "x = Some y \<Longrightarrow> prints.meets c st folder E (\<lambda>z. x = Some z) (js_defined x)"
  by (simp add: js_defined_def prints.meets_return)

text \<open>Outputters of a target, of which the one for the root requires the target's files.\<close>

definition table_outputter :: "jstr \<Rightarrow> node_outputter \<Rightarrow> bool" where
  "table_outputter target p \<longleftrightarrow> std_outputter p \<and> (p = HtmlRootOutputter \<longrightarrow> target = html) \<and>
     (p = LatexRootOutputter \<longrightarrow> target = latex)"

lemma run_outputter_prints:
  assumes "std_ctx ts folder cwd c" and "std_storage st" and "table_outputter (oc_target c) p"
    and elems: "\<And>x. x \<in> set (node_elems n) \<Longrightarrow> prints.meets c st folder E (\<lambda>_. True) (rec x)"
    and titles: "\<And>x. reads_title p \<Longrightarrow> x \<in> set (title_elems st) \<Longrightarrow>
      prints.meets c st folder E (\<lambda>_. True) (rec x)"
  shows "prints.meets c st folder E (\<lambda>_. True) (run_outputter c rec p n)"
proof -
  note es = elems_print [OF elems]
  have title: "prints.meets c st folder E (\<lambda>_. True) (output_elems rec es)"
    if "reads_title p" "jmap_get st main_name = Some s" "store_title s = Some es \<or> store_author s = Some es"
    for s es
    by (rule elems_print, rule titles [OF that(1)]) (use that in \<open>auto simp: title_elems_iff\<close>)
  note req = require_prints [OF assms(1), of st E]
  have store: "(\<exists>y. store_title s = Some y) \<and> (\<exists>y. store_author s = Some y)" if "std_store s" for s
    using that by (auto simp: std_store_def split: option.splits)
  show ?thesis
  proof (cases p)
    case HtmlRootOutputter
    with assms(3) req es show ?thesis
      by (auto simp: html_root_def table_outputter_def std_deps_def simp del: js_append
          intro!: prints.meets_bind [where P = "\<lambda>_. True"] prints.meets_return)
  next
    case LatexRootOutputter
    with assms(3) have "std_deps (oc_target c) = LATEX_DEFAULT_DEPS"
      by (simp add: table_outputter_def std_deps_def html_not_latex)
    with req have req: "prints.meets c st folder E (\<lambda>_. True) (require_from_folder c LATEX_DEFAULT_DEPS)"
      by simp
    show ?thesis
      unfolding LatexRootOutputter run_outputter.simps latex_root_def
      by (rule prints.meets_bind [OF req], rule prints.meets_bind [OF es], assumption,
          rule prints.meets_bind [OF main_store_prints [OF assms(2)]])
        (use LatexRootOutputter in \<open>auto dest!: store intro!: prints.meets_return
          prints.meets_bind [OF js_defined_prints] prints.meets_bind [OF title]\<close>)
  next
    case HtmlMaketitleOutputter
    show ?thesis
      unfolding HtmlMaketitleOutputter run_outputter.simps html_maketitle_def is_new_array_def if_False
      by (rule prints.meets_bind [OF main_store_prints [OF assms(2)]])
        (use HtmlMaketitleOutputter in \<open>auto dest!: store intro!: prints.meets_return
          prints.meets_bind [OF js_defined_prints] prints.meets_bind [OF title]\<close>)
  qed (use assms(3) es in \<open>auto simp: html_tag_def latex_para_def latex_no_curly_def
      latex_single_curly_def latex_block_def Let_def table_outputter_def
      intro!: prints.meets_bind [where P = "\<lambda>_. True"] prints.meets_return\<close>)
qed

lemma std_outputter_of:
  assumes "std_ctx ts folder cwd c"
  shows "outputter_of c n = (case jmap_get (std_table (oc_target c)) (node_tag n) of
       None \<Rightarrow> Inl (OutputError (NoNodeOutputter (oc_target c) (node_tag n))) | Some p \<Rightarrow> Inr p)"
  using assms std_retrieve(1) [of "oc_target c" ts] by (simp add: outputter_of_def std_ctx_def)

lemma table_outputters: "list_all (\<lambda>(t, p). table_outputter html p) html_table"
  "list_all (\<lambda>(t, p). table_outputter latex p) latex_table"
  by (simp_all add: html_table_def latex_table_def tag_outputter_def tex_outputter_def table_outputter_def)

lemma std_outputter_found:
  assumes "std_ctx ts folder cwd c" and "node_tag n \<in> std_tags"
  obtains p where "outputter_of c n = Inr p" and "table_outputter (oc_target c) p"
proof -
  let ?t = "std_table (oc_target c)"
  have target: "oc_target c = html \<or> oc_target c = latex" using assms(1) by (simp add: std_ctx_def)
  then have "set (map fst ?t) = std_tags" and all: "list_all (\<lambda>(t, p). table_outputter (oc_target c) p) ?t"
    using tables_cover table_outputters by (auto simp: std_table_def html_not_latex)
  with assms(2) obtain p where p: "jmap_get ?t (node_tag n) = Some p"
    by (metis map_of_eq_None_iff not_None_eq set_map)
  from map_of_SomeD [OF this] all have "table_outputter (oc_target c) p" by (auto simp: list_all_iff)
  with p that show ?thesis by (simp add: std_outputter_of [OF assms(1)])
qed

lemma string_prints:
  assumes "std_ctx ts folder cwd c"
  shows "prints.meets c st folder (encoder_error c) (\<lambda>_. True) (string_default c (oc_strings c) s)"
  using assms by (auto simp: std_ctx_def std_strings_of_def string_default_def html_string_default_def
      encoder_error_def html_not_latex intro!: prints.meets_lift prints.meets_return split: sum.split)

text \<open>
  An object of standard nodes is output, if it is not deeper than the bound allows: in the title
  the remaining bound is the height of the title, elsewhere a title may come on top.
\<close>

definition plain_title :: "out_ctx \<Rightarrow> ltrf_node \<Rightarrow> bool" where
  "plain_title c m \<longleftrightarrow> node_tag m \<in> std_tags \<and> title_free c m"

lemma output_prints:
  assumes "std_ctx ts folder cwd c" and "std_storage st" and titles: "all_below (plain_title c) (title_elems st)"
  shows "all_below (\<lambda>m. node_tag m \<in> std_tags) [x] \<Longrightarrow>
    all_below (plain_title c) [x] \<and> elems_height [x] < fuel \<or>
    elems_height [x] + elems_height (title_elems st) + 1 < fuel \<Longrightarrow>
    prints.meets c st folder (encoder_error c) (\<lambda>_. True) (outputLtrfObj fuel c x)"
proof (induction fuel arbitrary: x)
  case (Suc fuel)
  show ?case
  proof (cases x)
    case (LtrfStr s)
    with string_prints [OF assms(1)] show ?thesis by (simp add: getDefaultLtrfStrOutputter_def)
  next
    case (Nd n)
    have below: "all_below P [y]" if "all_below P [x]" "y \<in> set (node_elems n)" for P y
      using that by (auto simp: Nd all_nodes_iff [of P n] all_below_def list_all_iff)
    have elems: "prints.meets c st folder (encoder_error c) (\<lambda>_. True) (outputLtrfObj fuel c y)"
      if y: "y \<in> set (node_elems n)" for y
      by (rule Suc.IH [OF below [OF Suc.prems(1) y]])
        (use Suc.prems(2) elems_height_elem [OF y] below [OF _ y] Nd in auto)
    have "node_tag n \<in> std_tags" using Suc.prems(1) by (auto simp: Nd dest: all_nodes_self)
    with assms(1) obtain p where p: "outputter_of c n = Inr p" and fits: "table_outputter (oc_target c) p"
      by (rule std_outputter_found)
    have title: "prints.meets c st folder (encoder_error c) (\<lambda>_. True) (outputLtrfObj fuel c y)"
      if "reads_title p" "y \<in> set (title_elems st)" for y
    proof (rule Suc.IH)
      have "\<not> all_below (plain_title c) [x]"
        using p that(1) by (auto simp: Nd plain_title_def title_free_def dest!: all_nodes_self)
      with Suc.prems(2) have "elems_height (title_elems st) < fuel" by simp
      with elems_height_elem [OF that(2)] titles that(2)
      show "all_below (plain_title c) [y] \<and> elems_height [y] < fuel \<or>
          elems_height [y] + elems_height (title_elems st) + 1 < fuel"
        by (auto simp: all_below_def list_all_iff)
      show "all_below (\<lambda>m. node_tag m \<in> std_tags) [y]"
        using titles that(2) all_nodes_mono [of "plain_title c" _ "\<lambda>m. node_tag m \<in> std_tags"]
        by (cases y) (auto simp: all_below_iff plain_title_def)
    qed
    show ?thesis
      unfolding Nd outputLtrfObj.simps
      by (rule prints.meets_bind [OF dispatch_prints [OF p]])
        (use run_outputter_prints [OF assms(1,2) fits elems title] in simp)
  qed
qed simp

section \<open>Standard documents render\<close>

lemma title_elems_made: "std_storage st \<Longrightarrow> all_below std_made (title_elems st)"
  by (auto simp: std_storage_def std_store_def title_elems_def split: option.splits)

lemma made_plain_title:
  assumes "std_ctx ts folder cwd c" and "std_made m" and "oc_target c = html \<longrightarrow> node_tag m \<noteq> js ''maketitle''"
  shows "plain_title c m"
proof -
  have html: "list_all (\<lambda>(t, p). t = js ''maketitle'' \<or> \<not> reads_title p) html_table"
    by (simp add: html_table_def tag_outputter_def)
  have latex: "list_all (\<lambda>(t, p). t = js ''__root'' \<or> \<not> reads_title p) latex_table"
    by (simp add: latex_table_def tex_outputter_def)
  have "node_tag m \<in> std_tags" and "node_tag m \<noteq> js ''__root''"
    using assms(2) by (auto simp: std_made_def command_tags_def std_tags_def)
  moreover have "\<not> reads_title p" if "jmap_get (std_table (oc_target c)) (node_tag m) = Some p" for p
    using map_of_SomeD [OF that] html latex assms(1,3) calculation(2)
    by (auto simp: std_table_def std_ctx_def list_all_iff html_not_latex split: if_splits)
  ultimately show ?thesis
    by (auto simp: plain_title_def title_free_def std_outputter_of [OF assms(1)] split: option.split)
qed

lemma all_below_mono: "all_below P es \<Longrightarrow> (\<And>m. P m \<Longrightarrow> Q m) \<Longrightarrow> all_below Q es"
  unfolding all_below_iff using all_nodes_mono [of P _ Q] by blast

lemma all_nodes_conj: "all_nodes P n \<Longrightarrow> all_nodes Q n \<Longrightarrow> all_nodes (\<lambda>m. P m \<and> Q m) n"
proof (induction n rule: ltrf_node_induct)
  case (LtrfNode t kv es)
  then show ?case
    by (auto simp: all_nodes_iff [of _ "LtrfNode t kv es"] all_below_iff)
qed

lemma std_output_ctx:
  assumes "target \<in> set ts" and "target = html \<or> target = latex"
    and "ho_lapolFolder H = Some folder" and "native_lib (ho_paths H) = posix cwd"
  shows "std_ctx ts folder cwd (output_ctx H (std_registry ts) target (std_strings_of target))"
  using assms by (simp add: std_ctx_def output_ctx_def)

lemma std_evaluated:
  assumes "std_ready ts h"
    and "evaluatePass u (std_registry ts) h (make_FileContext (std_registry ts)) parsed = Some (Inr (Nd n, s))"
  obtains es where "n = ltrf_make ROOT_TAG_EVAL [] es" and "all_below std_made es"
    and "std_storage (ev_storage s)" and "std_ready ts (ev_heap s)"
  using std_evaluatePass [OF _ _ _ std_storage_start assms(2)] assms(1)
  by (auto simp: std_ready_def intro: registry_ok_mono)

text \<open>
  C15: a document that uses the standard modules only contains, once processed, no tag but the
  eleven that both targets can output: whatever it calls, requires and renames, and in whatever
  state earlier documents left the modules, in which the next document starts again.
\<close>

theorem std_document_tags:
  assumes "std_ready ts h"
    and "evaluatePass u (std_registry ts) h (make_FileContext (std_registry ts)) parsed = Some (Inr (Nd n, s))"
    and "processPass n = Inr r"
  shows "all_nodes (\<lambda>m. node_tag m \<in> std_tags) r \<and> std_ready ts (ev_heap s)"
proof -
  from assms(1,2) obtain es where "n = ltrf_make ROOT_TAG_EVAL [] es" "all_below std_made es"
    "std_ready ts (ev_heap s)" by (rule std_evaluated)
  with std_processed [of es r] assms(3) show ?thesis by simp
qed

lemma std_output:
  assumes "std_ctx ts folder cwd c" and "std_storage st"
    and "oc_target c = html \<longrightarrow> all_below (\<lambda>m. node_tag m \<noteq> js ''maketitle'') (title_elems st)"
    and "all_nodes (\<lambda>m. node_tag m \<in> std_tags) r"
    and "fuel \<ge> node_height r + elems_height (title_elems st) + 2"
  shows "case outputPass fuel c r \<lparr>os_lazyNodeOutputters = [], os_files = [], os_storage = st\<rparr> of
      None \<Rightarrow> False | Some (Inl e) \<Rightarrow> encoder_error c e | Some (Inr _) \<Rightarrow> True"
proof -
  let ?s = "\<lparr>os_lazyNodeOutputters = [], os_files = [], os_storage = st\<rparr> :: out_state"
  have "all_nodes (plain_title c) m" if "Nd m \<in> set (title_elems st)" for m
  proof -
    have made: "all_nodes std_made m" using title_elems_made [OF assms(2)] that by (auto simp: all_below_iff)
    show ?thesis
    proof (cases "oc_target c = html")
      case True
      with assms(3) that have "all_nodes (\<lambda>m. node_tag m \<noteq> js ''maketitle'') m" by (auto simp: all_below_iff)
      from all_nodes_conj [OF made this] show ?thesis
        by (rule all_nodes_mono) (simp add: made_plain_title [OF assms(1)])
    next
      case False
      with made show ?thesis by (auto intro: all_nodes_mono made_plain_title [OF assms(1)])
    qed
  qed
  then have "all_below (plain_title c) (title_elems st)" by (simp add: all_below_iff)
  from output_prints [OF assms(1,2) this, of "Nd r" fuel] assms(4,5)
  have "prints.meets c st folder (encoder_error c) (\<lambda>_. True) (outputPass fuel c r)"
    by (simp add: outputPass_def node_height_eq)
  moreover have "cache_ok c ?s \<and> os_storage ?s = st \<and> files_fit c folder (os_files ?s)"
    by (auto simp: files_fit_def file_source_def)
  ultimately show ?thesis
    unfolding prints.meets_def by (fastforce split: option.splits sum.splits)
qed

lemma compile_text_evaluation:
  assumes "ho_parse_file H (lp_fullPath (ci_inputFilePath c)) buf = Inr (AstRootNode ns m)"
  shows "evaluatePass (ho_user H) reg h (make_FileContext reg) (AstRootNode ns m) = Some (Inl e) \<Longrightarrow>
      compile_text H fuel reg c buf h = Some (Inl e)"
    and "evaluatePass (ho_user H) reg h (make_FileContext reg) (AstRootNode ns m) = Some (Inr (Nd n, s)) \<Longrightarrow>
      processPass n = Inl e \<Longrightarrow> compile_text H fuel reg c buf h = Some (Inl e)"
  using assms
  by (simp_all add: compile_text_def act_bind_def act_simps evaluate_step_def check_node_def
      isAstRootNode_def assertR_def)

lemma compile_text_run:
  assumes "ho_parse_file H (lp_fullPath (ci_inputFilePath c)) buf = Inr (AstRootNode ns m)"
    and "evaluatePass (ho_user H) reg h (make_FileContext reg) (AstRootNode ns m) = Some (Inr (Nd n, s))"
    and "processPass n = Inr r"
    and "makeOutputDispatcher reg (ci_targetLanguage c) = Inr (cache, provider)"
  shows "compile_text H fuel reg c buf h =
    (case outputPass fuel (output_ctx H reg (ci_targetLanguage c) provider) r
         \<lparr>os_lazyNodeOutputters = cache, os_files = [], os_storage = ev_storage s\<rparr> of
       None \<Rightarrow> None
     | Some (Inl e) \<Rightarrow> Some (Inl e)
     | Some (Inr (code, os)) \<Rightarrow> Some (Inr ((\<lparr>co_dbgInputText = buf, co_dbgParsed = AstRootNode ns m,
         co_dbgEvaluated = Nd n, co_dbgProcessed = r, co_dbgOutputted = code\<rparr>, os_files os), ev_heap s)))"
  using assms
  by (simp add: compile_text_def act_bind_def act_simps evaluate_step_def output_step_def
      check_node_def isAstRootNode_def assertR_def split: option.split sum.split)

text \<open>The checks on the root fail with one of two errors.\<close>

lemma root_children_error:
  "mapR check_root_child es = Inl e \<Longrightarrow> e \<in> {ProcessError RootHasText, ProcessError RootHasNonDoc}"
proof (induction es)
  case (Cons x es)
  then show ?case by (cases x) (auto simp: bindR_eq_Inl_iff check_root_child_def split: if_splits)
qed simp

lemma improper_root:
  assumes "\<not> root_ok (ltrf_make ROOT_TAG_EVAL [] es)"
  obtains e where "processPass (ltrf_make ROOT_TAG_EVAL [] es) = Inl e"
    and "e \<in> {ProcessError RootHasText, ProcessError RootHasNonDoc}"
proof -
  let ?n = "ltrf_make ROOT_TAG_EVAL [] es"
  have tag: "node_tag ?n = ROOT_TAG" and elems: "node_elems ?n = es"
    by (simp_all add: ltrf_make_def ROOT_TAG_EVAL_def ROOT_TAG_def)
  obtain e where e: "processRoot ?n = Inl e"
    using assms processRoot_Inr [of ?n] by (cases "processRoot ?n") auto
  then have "mapR check_root_child es = Inl e"
    unfolding processRoot_def tag elems by (simp add: bindR_eq_Inl_iff)
  from that [OF _ root_children_error [OF this]] e show thesis by (simp add: processPass_eq)
qed

text \<open>
  C1: which documents of the standard modules render.  On a POSIX system, with the standard modules loaded, the
  installation folder known and functions of users' modules that return, a source that parses to a root is always evaluated, to a result or an
  error.  Compilation to either target throws the error of the evaluation (an unknown command, a
  missing argument) if there is one, and an error of the check of the root if text or a node that is no
  document stands there.  In every other case it renders: processing never fails, whatever the depth of
  the document, every node is output, and the output pass ends.  The exceptions are errors of the
  encoder for html, and for that target a title in which the title itself is printed.
\<close>

theorem std_document_renders:
  assumes "std_ready ts h" and "target \<in> set ts" and "target = html \<or> target = latex"
    and "ho_lapolFolder H = Some folder" and "native_lib (ho_paths H) = posix cwd"
    and "ci_targetLanguage c = target" and "user_code_returns (ho_user H)"
    and "ho_parse_file H (lp_fullPath (ci_inputFilePath c)) buf = Inr (AstRootNode ns m)"
  shows "case evaluatePass (ho_user H) (std_registry ts) h (make_FileContext (std_registry ts))
      (AstRootNode ns m) of
      None \<Rightarrow> False
    | Some (Inl e) \<Rightarrow> \<forall>fuel. compile_text H fuel (std_registry ts) c buf h = Some (Inl e)
    | Some (Inr (out, s)) \<Rightarrow> \<exists>n. out = Nd n \<and>
        (if root_ok n
         then target = latex \<or> all_below (\<lambda>m. node_tag m \<noteq> js ''maketitle'') (title_elems (ev_storage s)) \<longrightarrow>
           (\<exists>bound. \<forall>fuel \<ge> bound. case compile_text H fuel (std_registry ts) c buf h of
              None \<Rightarrow> False
            | Some (Inl e) \<Rightarrow> target = html \<and> (\<exists>t. ho_heEncode H t = Inl e)
            | Some (Inr (_, h')) \<Rightarrow> std_ready ts h')
         else \<exists>e \<in> {ProcessError RootHasText, ProcessError RootHasNonDoc}.
           \<forall>fuel. compile_text H fuel (std_registry ts) c buf h = Some (Inl e))"
proof -
  let ?eval = "evaluatePass (ho_user H) (std_registry ts) h (make_FileContext (std_registry ts)) (AstRootNode ns m)"
  let ?c = "output_ctx H (std_registry ts) target (std_strings_of target)"
  from evaluatePass_heap [OF assms(7), of h "std_registry ts" "make_FileContext (std_registry ts)" "AstRootNode ns m"]
  have "?eval \<noteq> None" using assms(1) by (auto simp: std_ready_def split: option.splits)
  moreover have "\<exists>n. out = Nd n" if "?eval = Some (Inr (out, s))" for out s
    using std_evaluatePass [OF _ _ _ std_storage_start that] assms(1) by (auto simp: std_ready_def)
  ultimately consider e where "?eval = Some (Inl e)" | n s where "?eval = Some (Inr (Nd n, s))"
    by (cases ?eval) (auto, metis sum.exhaust surj_pair)
  then show ?thesis
  proof cases
    case (1 e)
    then show ?thesis by (simp add: compile_text_evaluation [OF assms(8)])
  next
    case (2 n s)
    from assms(1) 2 obtain es where n: "n = ltrf_make ROOT_TAG_EVAL [] es" and made: "all_below std_made es"
      and st: "std_storage (ev_storage s)" and ready: "std_ready ts (ev_heap s)"
      by (rule std_evaluated)
    show ?thesis
    proof (cases "root_ok n")
      case False
      with improper_root [of es] obtain e where "processPass n = Inl e"
        and "e \<in> {ProcessError RootHasText, ProcessError RootHasNonDoc}" by (auto simp: n)
      with False 2 show ?thesis by (auto simp: compile_text_evaluation [OF assms(8)])
    next
      case True
      have "flags_below n" using std_made_flags [of n] made by (simp add: n ltrf_make_def)
      with True processPass_succeeds [of n] obtain r where r: "processPass n = Inr r" by auto
      have disp: "makeOutputDispatcher (std_registry ts) (ci_targetLanguage c) = Inr ([], std_strings_of target)"
        using std_retrieve(2) [OF assms(2,3)] assms(6) by (simp add: makeOutputDispatcher_def)
      have ctx: "std_ctx ts folder cwd ?c" by (rule std_output_ctx [OF assms(2-5)])
      have fields: "oc_target ?c = target" "oc_heEncode ?c = ho_heEncode H" by (simp_all add: output_ctx_def)
      have "case compile_text H fuel (std_registry ts) c buf h of
          None \<Rightarrow> False
        | Some (Inl e) \<Rightarrow> target = html \<and> (\<exists>t. ho_heEncode H t = Inl e)
        | Some (Inr (_, h')) \<Rightarrow> std_ready ts h'"
        if "target = latex \<or> all_below (\<lambda>m. node_tag m \<noteq> js ''maketitle'') (title_elems (ev_storage s))"
          and "fuel \<ge> node_height r + elems_height (title_elems (ev_storage s)) + 2" for fuel
        using std_output [OF ctx st _ std_processed [OF made r [unfolded n]] that(2)] assms(6) that(1) ready fields
        by (auto simp: compile_text_run [OF assms(8) 2 r disp] encoder_error_def html_not_latex
            split: option.splits sum.splits)
      with True 2 show ?thesis by auto
    qed
  qed
qed

end
