(* ===== verification/TitleOutput.thy ===== *)
theory TitleOutput
  imports StdRendering HtmlOutput
begin

text \<open>
  The condition under which standard documents render to html is needed: outputting an object in
  which \<^verbatim>\<open>maketitle\<close> stands never returns a result when it stands in the title or the author too.
\<close>

abbreviation no_title :: "ltrf_obj list \<Rightarrow> bool" where
  "no_title es \<equiv> all_below (\<lambda>m. node_tag m \<noteq> js ''maketitle'') es"

lemma elems_no_title:
  assumes "\<And>x. x \<in> set es \<Longrightarrow> prints.may c st folder E (\<lambda>_. no_title [x]) (rec x)"
  shows "prints.may c st folder E (\<lambda>_. no_title es) (output_elems rec es)"
proof -
  have "no_title es" if "list_all2 (\<lambda>x _. no_title [x]) es outs" for outs :: "jstr list"
    using that by (induction es outs rule: list_all2_induct) (auto simp: all_below_def)
  then show ?thesis
    unfolding output_elems_def
    by (intro prints.may_bind [OF prints.may_map_each [OF assms]] prints.may_return)
qed

lemma html_title_outputter:
  assumes "std_ctx ts folder cwd c" and "oc_target c = html" and "outputter_of c n = Inr p"
  shows "html_outputter p" and "p = HtmlMaketitleOutputter \<longleftrightarrow> node_tag n = js ''maketitle''"
proof -
  have "list_all (\<lambda>(t, p). html_outputter p \<and> (p = HtmlMaketitleOutputter \<longleftrightarrow> t = js ''maketitle'')) html_table"
    by (simp add: html_table_def tag_outputter_def plain_attributes_def)
  moreover from assms(2,3) have "jmap_get html_table (node_tag n) = Some p"
    by (simp add: std_outputter_of [OF assms(1)] std_table_def split: option.splits)
  ultimately show "html_outputter p" and "p = HtmlMaketitleOutputter \<longleftrightarrow> node_tag n = js ''maketitle''"
    by (auto simp: list_all_iff dest!: map_of_SomeD)
qed

lemma maketitle_no_title:
  assumes "std_storage st" and "\<not> no_title (title_elems st)"
    and rec: "\<And>x. x \<in> set (title_elems st) \<Longrightarrow> prints.may c st folder E (\<lambda>_. no_title [x]) (rec x)"
  shows "prints.may c st folder E (\<lambda>_. False) (html_maketitle rec n)"
  unfolding html_maketitle_def is_new_array_def if_False
proof (rule prints.may_bind [OF prints.meets_may [OF main_store_prints [OF assms(1)]]])
  fix s assume s: "jmap_get st main_name = Some s \<and> std_store s"
  then obtain title author where store: "store_title s = Some title" "store_author s = Some author"
    by (auto simp: std_store_def split: option.splits)
  with s have elems: "title_elems st = title @ author" by (simp add: title_elems_def)
  have parts: "prints.may c st folder E (\<lambda>_. no_title title) (output_elems rec title)"
    "prints.may c st folder E (\<lambda>_. no_title author) (output_elems rec author)"
    by (auto intro!: elems_no_title rec simp: elems)
  show "prints.may c st folder E (\<lambda>_. False)
     (act_bind (js_defined (store_title s)) (\<lambda>title.
      act_bind (output_elems rec title) (\<lambda>titleOut.
      act_bind (js_defined (store_author s)) (\<lambda>author.
      act_bind (output_elems rec author) (\<lambda>authorOut.
      act_return (js ''<header>'' @
         js ''<h1 class=\"title\">'' @ titleOut @ js ''</h1>'' @
         js ''<p class=\"subtitle\">'' @ authorOut @ js ''</p>'' @
         js ''</header>''))))))"
    unfolding store
    by (rule prints.may_bind [OF prints.meets_may [OF js_defined_prints [OF refl]]], clarify,
        rule prints.may_bind [OF parts(1)],
        rule prints.may_bind [OF prints.meets_may [OF js_defined_prints [OF refl]]], clarify,
        rule prints.may_bind [OF parts(2)])
      (use assms(2) in \<open>simp add: elems\<close>)
qed

lemma run_outputter_no_title:
  assumes "std_ctx ts folder cwd c" and "oc_target c = html" and "std_storage st"
    and "\<not> no_title (title_elems st)" and "outputter_of c n = Inr p"
    and rec: "\<And>x. x \<in> set (node_elems n) \<union> set (title_elems st) \<Longrightarrow>
      prints.may c st folder E (\<lambda>_. no_title [x]) (rec x)"
  shows "prints.may c st folder E (\<lambda>_. no_title [Nd n]) (run_outputter c rec p n)"
proof -
  note p = html_title_outputter [OF assms(1,2,5)]
  have es: "prints.may c st folder E (\<lambda>_. no_title (node_elems n)) (output_elems rec (node_elems n))"
    by (rule elems_no_title) (simp add: rec)
  have own: "no_title [Nd n] \<longleftrightarrow> no_title (node_elems n)" if "p \<noteq> HtmlMaketitleOutputter"
    using that p(2) by (simp add: all_nodes_iff [of _ n])
  show ?thesis
  proof (cases p)
    case HtmlRootOutputter
    with require_prints [OF assms(1), of st E] assms(2) es own show ?thesis
      by (auto simp: html_root_def std_deps_def simp del: js_append
          intro!: prints.may_bind [where P = "\<lambda>_. True", OF prints.meets_may] prints.may_bind [OF es]
            prints.may_return)
  next
    case (HtmlTagOutputter t as)
    with es own show ?thesis
      by (auto simp: html_tag_def Let_def intro!: prints.may_bind [OF es] prints.may_return)
  next
    case HtmlMaketitleOutputter
    have "prints.may c st folder E (\<lambda>_. False) (html_maketitle rec n)"
      by (rule maketitle_no_title [OF assms(3,4)]) (simp add: rec)
    with HtmlMaketitleOutputter show ?thesis
      by (fastforce simp: prints.may_def split: option.splits sum.splits)
  qed (use p in simp_all)
qed

lemma output_no_title:
  assumes "std_ctx ts folder cwd c" and "oc_target c = html" and "std_storage st"
    and "\<not> no_title (title_elems st)"
  shows "all_below (\<lambda>m. node_tag m \<in> std_tags) [x] \<Longrightarrow>
    prints.may c st folder (encoder_error c) (\<lambda>_. no_title [x]) (outputLtrfObj fuel c x)"
proof (induction fuel arbitrary: x)
  case (Suc fuel)
  show ?case
  proof (cases x)
    case (LtrfStr s)
    from string_prints [OF assms(1), of st s] LtrfStr show ?thesis
      by (simp add: getDefaultLtrfStrOutputter_def prints.meets_may)
  next
    case (Nd n)
    have rec: "prints.may c st folder (encoder_error c) (\<lambda>_. no_title [y]) (outputLtrfObj fuel c y)"
      if y: "y \<in> set (node_elems n) \<union> set (title_elems st)" for y
    proof (rule Suc.IH)
      have "all_below (\<lambda>m. node_tag m \<in> std_tags) (title_elems st)"
        by (rule all_below_mono [OF title_elems_made [OF assms(3)]])
          (auto simp: std_made_def command_tags_def std_tags_def)
      with y Suc.prems show "all_below (\<lambda>m. node_tag m \<in> std_tags) [y]"
        by (auto simp: Nd all_nodes_iff [of "\<lambda>m. node_tag m \<in> std_tags" n] all_below_def list_all_iff)
    qed
    have "node_tag n \<in> std_tags" using Suc.prems by (auto simp: Nd dest: all_nodes_self)
    with assms(1) obtain p where p: "outputter_of c n = Inr p" by (rule std_outputter_found)
    show ?thesis
      unfolding Nd outputLtrfObj.simps
      by (rule prints.may_bind [OF prints.meets_may [OF dispatch_prints [OF p]]], clarify)
        (rule run_outputter_no_title [OF assms p rec])
  qed
qed (simp add: prints.may_None)

text \<open>
  C32: a title in the title.  With the standard modules and the target html, if \<^verbatim>\<open>maketitle\<close> stands,
  however deep, in the title or the author of a document that prints its title somewhere, then the
  output pass never returns the code of the document, whatever the depth of the calls; and when
  the encoder throws no error it does not end at all.
\<close>

theorem title_in_title_diverges:
  assumes "std_ctx ts folder cwd c" and "oc_target c = html" and "std_storage st"
    and "\<not> no_title (title_elems st)"
    and "all_nodes (\<lambda>m. node_tag m \<in> std_tags) r" and "\<not> all_nodes (\<lambda>m. node_tag m \<noteq> js ''maketitle'') r"
    and "s = \<lparr>os_lazyNodeOutputters = [], os_files = [], os_storage = st\<rparr>"
  shows "(\<forall>fuel res. outputPass fuel c r s \<noteq> Some (Inr res)) \<and>
    ((\<forall>t. \<exists>u. oc_heEncode c t = Inr u) \<longrightarrow> (\<forall>fuel. outputPass fuel c r s = None))"
proof -
  have run: "case outputPass fuel c r s of None \<Rightarrow> True | Some (Inl e) \<Rightarrow> encoder_error c e
      | Some (Inr _) \<Rightarrow> False" for fuel
  proof -
    have "prints.may c st folder (encoder_error c) (\<lambda>_. False) (outputPass fuel c r)"
      using output_no_title [OF assms(1-4), of "Nd r" fuel] assms(5,6) by (simp add: outputPass_def)
    moreover have "cache_ok c s \<and> os_storage s = st \<and> files_fit c folder (os_files s)"
      by (simp add: assms(7) files_fit_def file_source_def)
    ultimately show ?thesis
      unfolding prints.may_def by (auto split: option.splits sum.splits)
  qed
  have "outputPass fuel c r s \<noteq> Some (Inr res)" for fuel res
    using run [of fuel] by auto
  moreover have "outputPass fuel c r s = None" if enc: "\<forall>t. \<exists>u. oc_heEncode c t = Inr u" for fuel
  proof -
    have "\<not> encoder_error c e" for e using enc by (metis encoder_error_def sum.distinct(1))
    with run [of fuel] show ?thesis by (auto split: option.splits sum.splits)
  qed
  ultimately show ?thesis by blast
qed

text \<open>A title in bold that prints the title, for a page with a paragraph before the title.\<close>

definition looping_storage :: module_storage where
  "looping_storage = [(main_name, main_instance\<lparr>store_title :=
     Some [LtrfStr (js ''T''), Nd (LtrfNode (js ''bold'') [] [Nd (LtrfNode (js ''maketitle'') block_kv [])])]\<rparr>)]"

definition looping_page :: ltrf_node where
  "looping_page = LtrfNode (js ''__root'') []
     [Nd (LtrfNode (js ''__doc'') [] [Nd (LtrfNode (js ''__p'') [] [LtrfStr (js ''A'')]),
        Nd (LtrfNode (js ''maketitle'') block_kv [])])]"

theorem title_in_title_diverges_witness:
  "\<forall>fuel. outputPass fuel sample_out_ctx looping_page
     \<lparr>os_lazyNodeOutputters = [], os_files = [], os_storage = looping_storage\<rparr> = None"
proof -
  have "std_ctx [html] (new_LaPath sample_libs (js ''/lapol'') None) (js ''/'') sample_out_ctx"
    by (simp add: std_ctx_def sample_out_ctx_def std_strings_of_def sample_libs_def)
  moreover have "oc_target sample_out_ctx = html" by (simp add: sample_out_ctx_def)
  moreover have "std_storage looping_storage"
    by (simp add: std_storage_def std_store_def looping_storage_def main_instance_def all_nodes_iff
        std_made_def command_tags_def)
  moreover have "\<not> no_title (title_elems looping_storage)"
    by (simp add: title_elems_def looping_storage_def main_instance_def all_nodes_iff)
  moreover have "all_nodes (\<lambda>m. node_tag m \<in> std_tags) looping_page"
    and "\<not> all_nodes (\<lambda>m. node_tag m \<noteq> js ''maketitle'') looping_page"
    by (simp_all add: looping_page_def all_nodes_iff std_tags_def)
  moreover have "\<forall>t. \<exists>u. oc_heEncode sample_out_ctx t = Inr u"
    by (simp add: sample_out_ctx_def sample_encode_def)
  ultimately show ?thesis using title_in_title_diverges [OF _ _ _ _ _ _ refl] by blast
qed

end
