(* ===== verification/Markup.thy ===== *)
theory Markup
  imports Evaluation
begin

text \<open>
  Documents that only mark up text: what the evaluator (\<^verbatim>\<open>internal/evaluate/evaluate.ts\<close>) makes of
  a tree of commands that wrap their argument in a node (\<^verbatim>\<open>std/core.ts\<close>, \<^verbatim>\<open>std/main.ts\<close>), as a
  translation that needs no state.
\<close>

section \<open>The translation\<close>

text \<open>The tag and the attributes of the node in which a command wraps its argument.\<close>

fun wrapper :: "command \<Rightarrow> (jstr \<times> js_val jmap) option" where
  "wrapper (JsFnCommand _ DocCommand) = Some (js ''__doc'', [])"
| "wrapper (JsFnCommand _ (WrapInCmd tag)) = Some (tag, [])"
| "wrapper (JsFnCommand _ (WrapInBlockCmd tag)) = Some (tag, block_kv)"
| "wrapper _ = None"

fun is_maketitle :: "command \<Rightarrow> bool" where
  "is_maketitle (JsFnCommand _ MaketitleFn) = True"
| "is_maketitle _ = False"

definition title_tag :: jstr where
  "title_tag = js ''maketitle''"

text \<open>
  \<open>names\<close> is the meaning of the names.  A document of this kind consists of text, of commands that
  wrap one argument, and of uses of the command that stands for the title.
\<close>

fun tree_of :: "(jstr \<Rightarrow> command option) \<Rightarrow> ast_node \<Rightarrow> ltrf_obj option" where
  "tree_of names (AstTextNode s _) = Some (LtrfStr s)"
| "tree_of names (AstCommandNode name None [] _) =
     (case names name of
        None \<Rightarrow> None
      | Some cmd \<Rightarrow> if is_maketitle cmd then Some (Nd (LtrfNode title_tag block_kv [])) else None)"
| "tree_of names (AstCommandNode name None [ns] _) =
     (case Option.bind (names name) wrapper of
        None \<Rightarrow> None
      | Some (tag, kv) \<Rightarrow>
          if tag = title_tag then None
          else map_option (\<lambda>es. Nd (LtrfNode tag kv es)) (those (map (tree_of names) ns)))"
| "tree_of names _ = None"

text \<open>The names as a file sees them.\<close>

definition names_in :: "ns_heap \<Rightarrow> nat \<Rightarrow> jstr \<Rightarrow> command option" where
  "names_in h root name = (case lookupCommand h root name of Inl _ \<Rightarrow> None | Inr cmd \<Rightarrow> Some cmd)"

lemma names_in_Some [simp]: "names_in h root name = Some cmd \<longleftrightarrow> lookupCommand h root name = Inr cmd"
  by (simp add: names_in_def split: sum.split)

section \<open>Evaluation is the translation\<close>

lemma those_eq_Some: "those xs = Some ys \<longleftrightarrow> list_all2 (\<lambda>x y. x = Some y) xs ys"
proof (induction xs arbitrary: ys)
  case (Cons x xs)
  then show ?case by (cases x) (auto simp: list_all2_Cons1)
qed auto

lemma wrapper_call:
  assumes "wrapper cmd = Some (tag, kv)"
  shows "argumentEvaluation cmd = Eager"
    and "call_command c cmd \<lparr>keywordArgs = [], squareArgs = [], curlyArgs = [es]\<rparr> s =
      Some (Inr ([Nd (LtrfNode tag kv es)], s))"
proof -
  from assms obtain n f where cmd: "cmd = JsFnCommand n f" by (cases cmd) simp_all
  have "run_fn (ctx_user c) f = wrap_fn tag kv" using assms cmd by (cases f) (auto simp: fun_eq_iff)
  from call_wrap [OF this] show "call_command c cmd \<lparr>keywordArgs = [], squareArgs = [], curlyArgs = [es]\<rparr> s =
      Some (Inr ([Nd (LtrfNode tag kv es)], s))"
    by (simp add: cmd on_storage_def ltrf_make_def)
  show "argumentEvaluation cmd = Eager" by (simp add: cmd)
qed

lemma maketitle_call:
  assumes "is_maketitle cmd"
  shows "argumentEvaluation cmd = Eager"
    and "call_command c cmd a s = Some (Inr ([Nd (LtrfNode title_tag block_kv [])], s))"
proof -
  from assms obtain n where "cmd = JsFnCommand n MaketitleFn"
    by (cases cmd rule: is_maketitle.cases) simp_all
  then show "argumentEvaluation cmd = Eager"
    and "call_command c cmd a s = Some (Inr ([Nd (LtrfNode title_tag block_kv [])], s))"
    by (simp_all add: on_storage_def call_js_fn_def act_bind_def act_simps ltrf_make_def title_tag_def)
qed

lemma evaluateNodes_each:
  assumes "list_all2 (\<lambda>n t. evaluateNode c n s = Some (Inr ([t], s))) ns ts"
  shows "evaluateNodes c ns s = Some (Inr (ts, s))"
  using assms by (induction ns ts rule: list_all2_induct) (simp_all add: act_bind_def act_simps)

lemma tree_of_evaluates:
  "tree_of names n = Some t \<Longrightarrow> names = names_in (ev_heap s) (ctx_root c) \<Longrightarrow>
   evaluateNode c n s = Some (Inr ([t], s))"
proof (induction names n arbitrary: t rule: tree_of.induct)
  case (1 names str m)
  then show ?case by (simp add: evaluateTextNode_def act_simps)
next
  case (2 names name m)
  then obtain cmd where cmd: "lookupCommand (ev_heap s) (ctx_root c) name = Inr cmd" "is_maketitle cmd"
    and t: "t = Nd (LtrfNode title_tag block_kv [])"
    by (auto split: option.splits if_splits)
  then show ?case
    by (simp add: evaluateCommandNode.simps ask_heap_def act_bind_def act_simps maketitle_call)
next
  case (3 names name ns m)
  from "3.prems" obtain cmd tag kv es where cmd: "lookupCommand (ev_heap s) (ctx_root c) name = Inr cmd"
    and wrap: "wrapper cmd = Some (tag, kv)" and es: "those (map (tree_of names) ns) = Some es"
    and t: "t = Nd (LtrfNode tag kv es)" and tag: "tag \<noteq> title_tag"
    by (auto simp: bind_eq_Some_conv split: option.splits if_splits)
  have "Option.bind (names name) wrapper = Some (tag, kv)"
    using cmd wrap by (simp add: "3.prems"(2) names_in_def)
  note IH = "3.IH" [OF this refl tag _ _ "3.prems"(2)]
  have "list_all2 (\<lambda>n t. evaluateNode c n s = Some (Inr ([t], s))) ns es"
    using es IH by (auto simp: those_eq_Some list_all2_map1 elim!: list.rel_mono_strong)
  from evaluateNodes_each [OF this] cmd wrapper_call [OF wrap] show ?case
    by (simp add: t evaluateCommandNode.simps ask_heap_def act_bind_def act_simps)
qed simp_all

text \<open>
  C11: text that is marked up only is evaluated by translating it.  If every command in it resolves
  to one that wraps its argument (or to the title), evaluation returns exactly the translated tree, in
  order, and changes nothing: no namespace, no storage, nothing on the console.
\<close>

theorem markup_evaluates:
  assumes "those (map (tree_of (names_in (ev_heap s) (ctx_root c))) ns) = Some ts"
  shows "evaluateNodes c ns s = Some (Inr (ts, s))"
proof (rule evaluateNodes_each)
  show "list_all2 (\<lambda>n t. evaluateNode c n s = Some (Inr ([t], s))) ns ts"
    using assms tree_of_evaluates [of _ _ _ s c]
    by (auto simp: those_eq_Some list_all2_map1 elim!: list_all2_mono)
qed

end
