(* ===== verification/DocumentText.thy ===== *)
theory DocumentText
  imports Markup Processing
begin

text \<open>
  The text of a document: the strings that a reader sees, in reading order, in the syntax tree
  (\<^verbatim>\<open>internal/ast.ts\<close>), in the LTRF tree (\<^verbatim>\<open>internal/ltrf/ltrf.ts\<close>) and through the passes that
  process it (\<^verbatim>\<open>internal/process/process.ts\<close>).
\<close>

section \<open>The strings of a tree\<close>

text \<open>The title of the document, \<open>T\<close>, is read where \<^verbatim>\<open>maketitle\<close> stands.\<close>

fun strings_of :: "jstr list \<Rightarrow> ltrf_node \<Rightarrow> jstr list" where
  "strings_of T n =
     (if node_tag n = title_tag then T
      else concat (map (ltrfObjLift (\<lambda>s. [s]) (strings_of T)) (node_elems n)))"

declare strings_of.simps [simp del]

lemmas strings_of_code [code] = strings_of.simps [of T "LtrfNode t kv es" for T t kv es]

definition strings_in :: "jstr list \<Rightarrow> ltrf_obj list \<Rightarrow> jstr list" where
  "strings_in T es = concat (map (ltrfObjLift (\<lambda>s. [s]) (strings_of T)) es)"

lemma strings_of_eq:
  "strings_of T n = (if node_tag n = title_tag then T else strings_in T (node_elems n))"
  by (simp add: strings_of.simps [of T n] strings_in_def)

lemma strings_in_simps [simp]:
  "strings_in T [] = []"
  "strings_in T (LtrfStr s # es) = s # strings_in T es"
  "strings_in T (Nd n # es) = strings_of T n @ strings_in T es"
  "strings_in T (es @ fs) = strings_in T es @ strings_in T fs"
  by (simp_all add: strings_in_def)

lemma strings_in_Cons: "strings_in T (e # es) = strings_in T [e] @ strings_in T es"
  by (cases e) simp_all

lemma strings_in_concat: "strings_in T es = concat (map (\<lambda>e. strings_in T [e]) es)"
proof (induction es)
  case (Cons e es)
  then show ?case using strings_in_Cons [of T e es] by simp
qed simp

text \<open>Without a title among the nodes it does not matter what the title is.\<close>

lemma strings_untitled:
  "all_nodes (\<lambda>m. node_tag m \<noteq> title_tag) n \<Longrightarrow> strings_of T n = strings_of U n"
proof (induction n rule: ltrf_node_induct)
  case (LtrfNode t kv es)
  then have below: "all_below (\<lambda>m. node_tag m \<noteq> title_tag) es" and "t \<noteq> title_tag"
    by (auto simp: all_nodes_iff [of _ "LtrfNode t kv es"])
  moreover have "strings_in T es = strings_in U es"
    unfolding strings_in_def
  proof (intro arg_cong [where f = concat] map_cong refl)
    fix e assume "e \<in> set es"
    with LtrfNode.IH below show "ltrfObjLift (\<lambda>s. [s]) (strings_of T) e = ltrfObjLift (\<lambda>s. [s]) (strings_of U) e"
      by (cases e) (auto simp: all_below_iff)
  qed
  ultimately show ?case by (simp add: strings_of_eq)
qed

lemma strings_in_untitled:
  "all_below (\<lambda>m. node_tag m \<noteq> title_tag) es \<Longrightarrow> strings_in T es = strings_in U es"
proof (induction es)
  case (Cons e es)
  then show ?case using strings_untitled [of _ T U] by (cases e) auto
qed simp

section \<open>The words of a document\<close>

text \<open>What is left of the strings when whitespace between them is ignored.\<close>

definition words :: "jstr list \<Rightarrow> jstr list" where
  "words ss = filter (\<lambda>s. \<not> isWhitespace s) ss"

lemma words_simps [simp]:
  "words [] = []" "words (ss @ ts) = words ss @ words ts"
  "words (s # ss) = (if isWhitespace s then words ss else s # words ss)"
  by (simp_all add: words_def)

abbreviation no_break_marker :: "ltrf_node \<Rightarrow> bool" where
  "no_break_marker n \<equiv> node_tag n \<noteq> BREAK_MARKER_TAG"

lemma title_not_para: "PARAGRAPH_TAG \<noteq> title_tag"
  by (simp add: PARAGRAPH_TAG_def title_tag_def)

lemma content_words:
  "all_nodes no_break_marker n \<Longrightarrow> words (strings_in T (content_node n)) = words (strings_of T n)"
proof (induction n rule: ltrf_node_induct)
  case (LtrfNode t kv es)
  then have t: "t \<noteq> BREAK_MARKER_TAG" and below: "all_below no_break_marker es"
    by (auto simp: all_nodes_iff [of no_break_marker "LtrfNode t kv es"])
  from LtrfNode.IH below have "words (strings_in T (content es)) = words (strings_in T es)"
  proof (induction es)
    case (Cons e es)
    then show ?case by (cases e) auto
  qed simp
  with t show ?case
    by (auto simp: content_node_eq strings_of_eq title_not_para)
qed

text \<open>
  Processing loses no text and invents none.  When a document contains no break marker, the non-blank
  strings that are read in the processed document are those of the document that was given, in
  the same order.
\<close>

lemma processed_words:
  assumes "processPass n = Inr r" and "all_nodes no_break_marker n" and "all_nodes no_break_marker r"
  shows "words (strings_of T r) = words (strings_of T n)"
proof -
  have "content_node r = content_node n" using processPass_content [OF assms(1)] by simp
  then show ?thesis using content_words [OF assms(2), of T] content_words [OF assms(3), of T] by simp
qed

section \<open>The text of the source\<close>

text \<open>
  The strings of a syntax tree in reading order: its text nodes, through the curly arguments of
  commands, and \<open>T\<close> where a command that stands for the title is used.
\<close>

fun source_strings :: "(jstr \<Rightarrow> command option) \<Rightarrow> jstr list \<Rightarrow> ast_node \<Rightarrow> jstr list" where
  "source_strings names T (AstTextNode s _) = [s]"
| "source_strings names T (AstCommandNode name _ cus _) =
     (if \<exists>cmd. names name = Some cmd \<and> is_maketitle cmd then T
      else concat (map (\<lambda>ns. concat (map (source_strings names T) ns)) cus))"
| "source_strings names T (AstRootNode ns _) = concat (map (source_strings names T) ns)"

lemma wrapper_not_title: "wrapper cmd = Some w \<Longrightarrow> \<not> is_maketitle cmd"
  by (cases cmd rule: is_maketitle.cases) auto

text \<open>The translation of marked-up text keeps its strings.\<close>

lemma tree_of_strings: "tree_of names n = Some t \<Longrightarrow> strings_in T [t] = source_strings names T n"
proof (induction names n arbitrary: t rule: tree_of.induct)
  case (2 names name m)
  then show ?case by (auto simp: strings_of_eq split: option.splits if_splits)
next
  case (3 names name ns m)
  from "3.prems" obtain cmd tag kv es where cmd: "names name = Some cmd"
    and wrap: "wrapper cmd = Some (tag, kv)" and es: "those (map (tree_of names) ns) = Some es"
    and t: "t = Nd (LtrfNode tag kv es)" and tag: "tag \<noteq> title_tag"
    by (auto simp: bind_eq_Some_conv split: option.splits if_splits)
  have "Option.bind (names name) wrapper = Some (tag, kv)" using cmd wrap by simp
  note IH = "3.IH" [OF this refl tag]
  have "list_all2 (\<lambda>n t. tree_of names n = Some t) ns es"
    using es by (simp add: those_eq_Some list_all2_map1)
  then have "strings_in T es = concat (map (source_strings names T) ns)"
    using IH
  proof (induction ns es rule: list_all2_induct)
    case (Cons n ns e es)
    then show ?case using strings_in_Cons [of T e es] by simp
  qed simp
  with cmd wrapper_not_title [OF wrap] tag show ?case
    by (simp add: t strings_of_eq)
qed simp_all

end
