(* ===== verification/Numbering.thy ===== *)
theory Numbering
  imports DocumentText
begin

text \<open>
  The numbers that the command \<^verbatim>\<open>count\<close> (\<^verbatim>\<open>std/main.ts\<close>) puts into a document: those of the
  natural numbers in reading order, however the uses are nested in other commands.
\<close>

section \<open>Documents with numbers\<close>

fun is_count :: "command \<Rightarrow> bool" where
  "is_count (JsFnCommand _ CountFn) = True"
| "is_count _ = False"

text \<open>The commands that set the title and the author, which leave nothing where they stand.\<close>

fun is_setter :: "command \<Rightarrow> bool" where
  "is_setter (JsFnCommand _ TitleFn) = True"
| "is_setter (JsFnCommand _ AuthorFn) = True"
| "is_setter _ = False"

definition is_wrapper :: "command \<Rightarrow> bool" where
  "is_wrapper cmd \<longleftrightarrow> (case wrapper cmd of None \<Rightarrow> False | Some (tag, _) \<Rightarrow> tag \<noteq> title_tag)"

text \<open>
  Text with uses of all commands of \<^verbatim>\<open>std::main\<close>: \<^verbatim>\<open>count\<close> and \<^verbatim>\<open>maketitle\<close> without an argument, and those
  that mark up, or set the title or the author, with one, in which such text stands again.
\<close>

fun numbered_text :: "(jstr \<Rightarrow> command option) \<Rightarrow> ast_node \<Rightarrow> bool" where
  "numbered_text names (AstTextNode _ _) = True"
| "numbered_text names (AstCommandNode name None [] _) =
     (case names name of None \<Rightarrow> False | Some cmd \<Rightarrow> is_count cmd \<or> is_maketitle cmd)"
| "numbered_text names (AstCommandNode name None [ns] _) =
     ((case names name of None \<Rightarrow> False | Some cmd \<Rightarrow> is_wrapper cmd \<or> is_setter cmd) \<and>
      list_all (numbered_text names) ns)"
| "numbered_text names _ = False"

text \<open>
  What is read in a source, in its order: strings, and \<open>None\<close> for each use of \<^verbatim>\<open>count\<close>.  What stands
  in the argument of a command that sets the title or the author is not shown there, which the first
  component says.  \<open>T\<close> is what is read where \<^verbatim>\<open>maketitle\<close> stands.
\<close>

type_synonym token = "bool \<times> jstr option"

definition hide :: "token list \<Rightarrow> token list" where
  "hide ts = map (\<lambda>(_, t). (False, t)) ts"

fun tokens :: "(jstr \<Rightarrow> command option) \<Rightarrow> jstr list \<Rightarrow> ast_node \<Rightarrow> token list" where
  "tokens names T (AstTextNode s _) = [(True, Some s)]"
| "tokens names T (AstCommandNode name None [] _) =
     (case names name of
        None \<Rightarrow> []
      | Some cmd \<Rightarrow> if is_count cmd then [(True, None)] else map (\<lambda>s. (True, Some s)) T)"
| "tokens names T (AstCommandNode name None [ns] _) =
     (let ts = concat (map (tokens names T) ns) in
      case names name of
        None \<Rightarrow> []
      | Some cmd \<Rightarrow> if is_setter cmd then hide ts else ts)"
| "tokens names T _ = []"

definition tokens_in :: "(jstr \<Rightarrow> command option) \<Rightarrow> jstr list \<Rightarrow> ast_node list \<Rightarrow> token list" where
  "tokens_in names T ns = concat (map (tokens names T) ns)"

text \<open>The uses of \<^verbatim>\<open>count\<close>, and the strings that are shown when they are numbered from \<open>k + 1\<close> on.\<close>

definition uses :: "token list \<Rightarrow> nat" where
  "uses ts = length (filter (\<lambda>(_, t). t = None) ts)"

fun number_from :: "nat \<Rightarrow> token list \<Rightarrow> jstr list" where
  "number_from k [] = []"
| "number_from k ((shown, Some s) # ts) = (if shown then s # number_from k ts else number_from k ts)"
| "number_from k ((shown, None) # ts) =
     (if shown then js_digits (Suc k) # number_from (Suc k) ts else number_from (Suc k) ts)"

lemma uses_simps [simp]:
  "uses [] = 0" "uses (ts @ us) = uses ts + uses us"
  "uses ((v, t) # ts) = (if t = None then Suc (uses ts) else uses ts)"
  by (simp_all add: uses_def)

lemma uses_strings [simp]: "uses (map (\<lambda>s. (True, Some s)) T) = 0"
  by (induction T) simp_all

lemma number_strings [simp]: "number_from k (map (\<lambda>s. (True, Some s)) T) = T"
  by (induction T) simp_all

lemma uses_hide [simp]: "uses (hide ts) = uses ts"
  by (induction ts) (auto simp: hide_def)

lemma number_hide [simp]: "number_from k (hide ts) = []"
  by (induction k ts rule: number_from.induct) (auto simp: hide_def)

lemma number_append [simp]: "number_from k (ts @ us) = number_from k ts @ number_from (k + uses ts) us"
  by (induction k ts rule: number_from.induct) simp_all

lemma tokens_in_simps [simp]:
  "tokens_in names T [] = []" "tokens_in names T (n # ns) = tokens names T n @ tokens_in names T ns"
  by (simp_all add: tokens_in_def)

section \<open>Evaluation numbers them\<close>

text \<open>A state of evaluation with another storage for \<^verbatim>\<open>std::main\<close>.\<close>

definition with_main :: "eval_state \<Rightarrow> file_store \<Rightarrow> eval_state" where
  "with_main s st = s\<lparr>ev_storage := jmap_set main_name st (ev_storage s)\<rparr>"

definition main_of :: "eval_state \<Rightarrow> file_store option" where
  "main_of s = jmap_get (ev_storage s) main_name"

lemma with_main_simps [simp]:
  "ev_heap (with_main s st) = ev_heap s" "main_of (with_main s st) = Some st"
  "with_main (with_main s st) st' = with_main s st'"
  by (simp_all add: with_main_def main_of_def jm.get_set)

lemma with_main_same: "main_of s = Some st \<Longrightarrow> with_main s st = s"
  by (simp add: with_main_def main_of_def AList.update_triv)

text \<open>Everything in the storage but the counter, the title and the author is as it was.\<close>

definition same_rest :: "file_store \<Rightarrow> file_store \<Rightarrow> bool" where
  "same_rest st st' \<longleftrightarrow> store_moduleName st' = store_moduleName st \<and> store_rest st' = store_rest st"

lemma is_count_fn: "is_count cmd \<Longrightarrow> \<exists>n. cmd = JsFnCommand n CountFn"
  by (cases cmd rule: is_count.cases) simp_all

lemma count_call:
  assumes "is_count cmd" and "main_of s = Some st" and "store_count st = Some k" and "k < 2 ^ 53"
  shows "argumentEvaluation cmd = Eager"
    and "call_command c cmd a s = Some (Inr ([LtrfStr (js_digits (Suc k))],
      with_main s (st\<lparr>store_count := Some (Suc k)\<rparr>)))"
  using is_count_fn [OF assms(1)] assms(2-4)
  by (auto simp: with_main_def main_of_def on_storage_def call_js_fn_def count_fn_def act_bind_def act_simps
      getFileModuleStorage_def bump_count_def count_string_def js_incr_def)

lemma setter_call:
  assumes "is_setter cmd" and "main_of s = Some st"
  shows "argumentEvaluation cmd = Eager"
    and "\<exists>st'. call_command c cmd \<lparr>keywordArgs = [], squareArgs = [], curlyArgs = [es]\<rparr> s =
      Some (Inr ([], with_main s st')) \<and> store_count st' = store_count st \<and> same_rest st st'"
proof -
  from assms(1) obtain n f where "cmd = JsFnCommand n f" and "f = TitleFn \<or> f = AuthorFn"
    by (cases cmd rule: is_setter.cases) simp_all
  then show "argumentEvaluation cmd = Eager"
    and "\<exists>st'. call_command c cmd \<lparr>keywordArgs = [], squareArgs = [], curlyArgs = [es]\<rparr> s =
      Some (Inr ([], with_main s st')) \<and> store_count st' = store_count st \<and> same_rest st st'"
    using assms(2)
    by (auto simp: with_main_def main_of_def on_storage_def call_js_fn_def set_main_fn_def act_bind_def
        act_simps getFileModuleStorage_def caOrErr_eq same_rest_def)
qed

text \<open>What the evaluation of a node, and of the nodes of a list, does when it starts from the number \<open>k\<close>.\<close>

definition numbers ::
  "eval_ctx \<Rightarrow> ns_heap \<Rightarrow> jstr list \<Rightarrow> token list \<Rightarrow> ltrf_obj list eval \<Rightarrow> bool" where
  "numbers c h T ts m \<longleftrightarrow> (\<forall>s st k. ev_heap s = h \<and> main_of s = Some st \<and> store_count st = Some k \<and>
     k + uses ts \<le> 2 ^ 53 \<longrightarrow>
     (\<exists>es st'. m s = Some (Inr (es, with_main s st')) \<and> strings_in T es = number_from k ts \<and>
       store_count st' = Some (k + uses ts) \<and> same_rest st st'))"

lemma numbers_list:
  assumes "\<And>n. n \<in> set ns \<Longrightarrow> numbers c h T (tokens names T n) (evaluateNode c n)"
  shows "numbers c h T (tokens_in names T ns) (evaluateNodes c ns)"
  using assms
proof (induction ns)
  case Nil
  show ?case
    by (auto simp: numbers_def act_simps with_main_same same_rest_def intro!: exI)
next
  case (Cons n ns)
  show ?case
    unfolding numbers_def
  proof (intro allI impI)
    fix s st k
    assume "ev_heap s = h \<and> main_of s = Some st \<and> store_count st = Some k \<and>
      k + uses (tokens_in names T (n # ns)) \<le> 2 ^ 53"
    then have s: "ev_heap s = h" "main_of s = Some st" "store_count st = Some k"
      and bound: "k + uses (tokens names T n) + uses (tokens_in names T ns) \<le> 2 ^ 53" by simp_all
    from Cons.prems [of n] s bound obtain es st' where first: "evaluateNode c n s = Some (Inr (es, with_main s st'))"
      and es: "strings_in T es = number_from k (tokens names T n)"
      and st': "store_count st' = Some (k + uses (tokens names T n))" "same_rest st st'"
      unfolding numbers_def by fastforce
    from Cons.IH Cons.prems have rest: "numbers c h T (tokens_in names T ns) (evaluateNodes c ns)" by simp
    then obtain es2 st2 where "evaluateNodes c ns (with_main s st') = Some (Inr (es2, with_main s st2))"
      and "strings_in T es2 = number_from (k + uses (tokens names T n)) (tokens_in names T ns)"
      and "store_count st2 = Some (k + uses (tokens names T n) + uses (tokens_in names T ns))"
      and "same_rest st' st2"
      using s(1) st' bound
      unfolding numbers_def by (metis with_main_simps)
    with first es st'(2) show "\<exists>es st'. evaluateNodes c (n # ns) s = Some (Inr (es, with_main s st')) \<and>
       strings_in T es = number_from k (tokens_in names T (n # ns)) \<and>
       store_count st' = Some (k + uses (tokens_in names T (n # ns))) \<and> same_rest st st'"
      by (auto simp: act_bind_def act_simps same_rest_def)
  qed
qed

text \<open>One node: text, a use of \<^verbatim>\<open>count\<close> or \<^verbatim>\<open>maketitle\<close>, and a command with one argument.\<close>

lemma numbers_node:
  assumes "names = names_in h (ctx_root c)"
  shows "numbered_text names n \<Longrightarrow> numbers c h T (tokens names T n) (evaluateNode c n)"
  using assms
proof (induction names n rule: numbered_text.induct)
  case (1 names str m)
  show ?case
    by (auto simp: numbers_def evaluateTextNode_def act_simps with_main_same same_rest_def intro!: exI)
next
  case (2 names name m)
  then obtain cmd where cmd: "lookupCommand h (ctx_root c) name = Inr cmd" and kind: "is_count cmd \<or> is_maketitle cmd"
    by (auto split: option.splits)
  then have tokens: "tokens names T (AstCommandNode name None [] m) =
      (if is_count cmd then [(True, None)] else map (\<lambda>s. (True, Some s)) T)"
    by (simp add: "2.prems"(2) names_in_def)
  show ?case
  proof (cases "is_count cmd")
    case True
    then show ?thesis
      unfolding numbers_def tokens
      by (auto simp: evaluateCommandNode.simps ask_heap_def act_bind_def act_simps cmd count_call same_rest_def
          intro!: exI)
  next
    case False
    with kind have "is_maketitle cmd" by simp
    note title = maketitle_call [OF this]
    show ?thesis
      unfolding numbers_def tokens
      by (auto simp: False evaluateCommandNode.simps ask_heap_def act_bind_def act_simps cmd title
          strings_of_eq same_rest_def with_main_same intro!: exI)
  qed
next
  case (3 names name ns m)
  then obtain cmd where cmd: "lookupCommand h (ctx_root c) name = Inr cmd" and kind: "is_wrapper cmd \<or> is_setter cmd"
    and ns: "list_all (numbered_text names) ns"
    by (auto split: option.splits)
  have tokens: "tokens names T (AstCommandNode name None [ns] m) =
      (if is_setter cmd then hide (tokens_in names T ns) else tokens_in names T ns)"
    by (simp add: "3.prems"(2) names_in_def cmd tokens_in_def Let_def)
  have arg: "numbers c h T (tokens_in names T ns) (evaluateNodes c ns)"
    by (rule numbers_list) (use "3.IH" ns "3.prems"(2) in \<open>simp add: list_all_iff\<close>)
  have eager: "argumentEvaluation cmd = Eager" using kind
    by (cases cmd) (auto simp: is_wrapper_def)
  have run: "evaluateNode c (AstCommandNode name None [ns] m) s = (case evaluateNodes c ns s of
        None \<Rightarrow> None
      | Some (Inl e) \<Rightarrow> Some (Inl e)
      | Some (Inr (es, s')) \<Rightarrow> call_command c cmd \<lparr>keywordArgs = [], squareArgs = [], curlyArgs = [es]\<rparr> s')"
    if "ev_heap s = h" for s
    using that by (simp add: evaluateCommandNode.simps ask_heap_def act_bind_def act_simps cmd eager
        split: option.split sum.split)
  show ?case
    unfolding numbers_def
  proof (intro allI impI)
    fix s st k
    assume "ev_heap s = h \<and> main_of s = Some st \<and> store_count st = Some k \<and>
      k + uses (tokens names T (AstCommandNode name None [ns] m)) \<le> 2 ^ 53"
    then have s: "ev_heap s = h" "main_of s = Some st" "store_count st = Some k"
      and bound: "k + uses (tokens_in names T ns) \<le> 2 ^ 53" unfolding tokens by (simp_all split: if_splits)
    with arg obtain es st' where inner: "evaluateNodes c ns s = Some (Inr (es, with_main s st'))"
      and es: "strings_in T es = number_from k (tokens_in names T ns)"
      and st': "store_count st' = Some (k + uses (tokens_in names T ns))" "same_rest st st'"
      unfolding numbers_def by metis
    show "\<exists>es st'. evaluateNode c (AstCommandNode name None [ns] m) s = Some (Inr (es, with_main s st')) \<and>
       strings_in T es = number_from k (tokens names T (AstCommandNode name None [ns] m)) \<and>
       store_count st' = Some (k + uses (tokens names T (AstCommandNode name None [ns] m))) \<and> same_rest st st'"
    proof (cases "is_setter cmd")
      case True
      from setter_call(2) [OF True, of "with_main s st'" st' c es]
      obtain st2 where "call_command c cmd \<lparr>keywordArgs = [], squareArgs = [], curlyArgs = [es]\<rparr> (with_main s st') =
          Some (Inr ([], with_main s st2))" and "store_count st2 = store_count st'" and "same_rest st' st2"
        by auto
      with True st' show ?thesis
        unfolding tokens run [OF s(1)] inner by (auto simp: same_rest_def)
    next
      case False
      with kind obtain tag kv where wrap: "wrapper cmd = Some (tag, kv)" and tag: "tag \<noteq> title_tag"
        by (auto simp: is_wrapper_def split: option.splits)
      with False st' es show ?thesis
        unfolding tokens run [OF s(1)] inner by (auto simp: wrapper_call [OF wrap] strings_of_eq)
    qed
  qed
qed simp_all

text \<open>
  C38: \<^verbatim>\<open>count\<close> numbers consecutively.  In text with any commands of \<^verbatim>\<open>std::main\<close>, nested in any way, the
  uses of \<^verbatim>\<open>count\<close> are numbered in the order in which they stand in the source, from the number after
  the counter's on, those in a title or an author included; every string that the evaluated document shows is
  the string of the source at that place or its number; and the counter has grown by the number of the
  uses, while nothing else has changed but the title and the author.  (Above \<open>2 ^ 53\<close> a JavaScript number no
  longer grows.)
\<close>

theorem count_numbers_consecutively:
  assumes "list_all (numbered_text names) ns" and "names = names_in (ev_heap s) (ctx_root c)"
    and "jmap_get (ev_storage s) main_name = Some st" and "store_count st = Some k"
    and "k + uses (tokens_in names T ns) \<le> 2 ^ 53"
  shows "\<exists>es st'. evaluateNodes c ns s =
      Some (Inr (es, s\<lparr>ev_storage := jmap_set main_name st' (ev_storage s)\<rparr>)) \<and>
    strings_in T es = number_from k (tokens_in names T ns) \<and>
    store_count st' = Some (k + uses (tokens_in names T ns)) \<and>
    st' = st\<lparr>store_count := store_count st', store_title := store_title st', store_author := store_author st'\<rparr>"
proof -
  have "numbers c (ev_heap s) T (tokens_in names T ns) (evaluateNodes c ns)"
    by (rule numbers_list, rule numbers_node [OF assms(2)]) (use assms(1) in \<open>simp add: list_all_iff\<close>)
  with assms(3-5) obtain es st' where "evaluateNodes c ns s = Some (Inr (es, with_main s st'))"
    and "strings_in T es = number_from k (tokens_in names T ns)"
    and "store_count st' = Some (k + uses (tokens_in names T ns))" and "same_rest st st'"
    unfolding numbers_def main_of_def by metis
  then show ?thesis by (auto simp: with_main_def same_rest_def)
qed

section \<open>Witness\<close>

definition number_state :: eval_state where
  "number_state = sample_state\<lparr>
     ev_heap := [sample_core_ns, sample_m_ns, sample_root_ns\<lparr>ns_children :=
       [(js ''c'', EntryItem (JsFnCommand (js ''c'') CountFn)),
        (js ''t'', EntryItem (JsFnCommand (js ''t'') TitleFn)),
        (js ''b'', EntryItem (JsFnCommand (js ''b'') (WrapInCmd (js ''bold''))))]\<rparr>],
     ev_storage := [(main_name, main_store)]\<rparr>"

text \<open>A number, a title with a number, and bold text with two numbers.\<close>

definition number_source :: "ast_node list" where
  "number_source =
     [bare (js ''c'') sample_meta,
      AstCommandNode (js ''t'') None [[bare (js ''c'') sample_meta]] sample_meta,
      AstCommandNode (js ''b'') None [[bare (js ''c'') sample_meta, AstTextNode (js ''x'') sample_meta,
        bare (js ''c'') sample_meta]] sample_meta]"

theorem count_numbers_consecutively_witness:
  "\<exists>es s'. evaluateNodes sample_ctx number_source number_state = Some (Inr (es, s')) \<and>
     strings_in [] es = [js ''1'', js ''3'', js ''x'', js ''4'']"
proof -
  let ?names = "names_in (ev_heap number_state) (ctx_root sample_ctx)"
  have parse: "parseIdentifier (js [ch]) = Inr \<lparr>id_absolute = False, id_path = [], id_name = js [ch]\<rparr>"
    if "ch \<in> {CHR ''c'', CHR ''t'', CHR ''b''}" for ch
    by (rule parseIdentifier_plain) (use that in \<open>auto simp: js_def colon_def\<close>)
  have names: "?names (js ''c'') = Some (JsFnCommand (js ''c'') CountFn)"
    "?names (js ''t'') = Some (JsFnCommand (js ''t'') TitleFn)"
    "?names (js ''b'') = Some (JsFnCommand (js ''b'') (WrapInCmd (js ''bold'')))"
    by (simp_all add: lookupCommand_def parse lookup_item_name_def ns_lookup_eqs number_state_def sample_defs)
  have markup: "list_all (numbered_text ?names) number_source"
    and tokens: "tokens_in ?names [] number_source =
      [(True, None), (False, None), (True, None), (True, Some (js ''x'')), (True, None)]"
    by (simp_all add: number_source_def bare_def names tokens_in_def hide_def is_wrapper_def title_tag_def
        del: names_in_Some)
  have digits: "js_digits (Suc 0) = js ''1''" "js_digits (Suc (Suc (Suc 0))) = js ''3''"
    "js_digits (Suc (Suc (Suc (Suc 0)))) = js ''4''"
    by (simp_all add: js_digits.simps js_def)
  have shown: "number_from 0 (tokens_in ?names [] number_source) = [js ''1'', js ''3'', js ''x'', js ''4'']"
    unfolding tokens by (simp add: digits)
  have bound: "0 + uses (tokens_in ?names [] number_source) \<le> 2 ^ 53"
    unfolding tokens by simp
  have "jmap_get (ev_storage number_state) main_name = Some main_store" "store_count main_store = Some 0"
    by (simp_all add: number_state_def main_store_def)
  from count_numbers_consecutively [OF markup refl this bound] show ?thesis
    unfolding shown by blast
qed

end
