(* ===== verification/Lines.thy ===== *)
theory Lines
  imports DocumentText "HOL-Library.Sublist"
begin

text \<open>
  Lines of text: two strings that a single newline separates in the source are read with one space
  between them in the processed document (\<^verbatim>\<open>process/process.ts\<close> and its passes).
\<close>

section \<open>A line in the source and in a tree\<close>

text \<open>Two texts with a newline between them, in an argument of a command or deeper in one.\<close>

inductive reads_line :: "jstr \<Rightarrow> jstr \<Rightarrow> ast_node \<Rightarrow> bool" for a b where
  line_here: "ns \<in> set cus \<Longrightarrow> ns = us @ [AstTextNode a m1, AstTextNode newline m2, AstTextNode b m3] @ vs \<Longrightarrow>
    reads_line a b (AstCommandNode name sq cus m)"
| line_below: "ns \<in> set cus \<Longrightarrow> n \<in> set ns \<Longrightarrow> reads_line a b n \<Longrightarrow>
    reads_line a b (AstCommandNode name sq cus m)"

inductive_cases reads_lineE: "reads_line a b (AstCommandNode name sq cus m)"
inductive_simps reads_line_text [simp]: "reads_line a b (AstTextNode s m)"

text \<open>Children that follow each other somewhere in a tree, not inside of a node with a tag in \<open>B\<close>.\<close>

inductive holds_line :: "jstr set \<Rightarrow> ltrf_obj list \<Rightarrow> ltrf_node \<Rightarrow> bool" for B l where
  holds_here: "node_tag n \<notin> B \<Longrightarrow> sublist l (node_elems n) \<Longrightarrow> holds_line B l n"
| holds_below: "node_tag n \<notin> B \<Longrightarrow> Nd m \<in> set (node_elems n) \<Longrightarrow> holds_line B l m \<Longrightarrow> holds_line B l n"

definition line :: "jstr \<Rightarrow> jstr \<Rightarrow> jstr \<Rightarrow> ltrf_obj list" where
  "line a s b = [LtrfStr a, LtrfStr s, LtrfStr b]"

lemma holds_line_avoids:
  "holds_line B l n \<Longrightarrow> all_nodes (\<lambda>m. node_tag m \<notin> C) n \<Longrightarrow> holds_line (B \<union> C) l n"
proof (induction rule: holds_line.induct)
  case (holds_here n)
  then show ?case by (auto simp: all_nodes_iff [of _ n] intro: holds_line.holds_here)
next
  case (holds_below n m)
  then have "all_nodes (\<lambda>m. node_tag m \<notin> C) m" and "node_tag n \<notin> C"
    by (auto simp: all_nodes_iff [of _ n] all_below_iff)
  with holds_below show ?case by (auto intro: holds_line.holds_below)
qed

lemma list_all2_in_left: "list_all2 P xs ys \<Longrightarrow> x \<in> set xs \<Longrightarrow> \<exists>y \<in> set ys. P x y"
  by (induction rule: list_all2_induct) auto

lemma sublist_trans: "sublist xs ys \<Longrightarrow> sublist ys zs \<Longrightarrow> sublist xs zs"
  by (rule sublist_order.order.trans)

lemma tree_of_line:
  "tree_of names n = Some t \<Longrightarrow> reads_line a b n \<Longrightarrow>
   \<exists>k. t = Nd k \<and> holds_line {title_tag} (line a newline b) k"
proof (induction names n arbitrary: t rule: tree_of.induct)
  case (2 names name m)
  then show ?case by (auto elim: reads_lineE)
next
  case (3 names name ns m)
  from "3.prems"(1) obtain tag kv es where wrap: "Option.bind (names name) wrapper = Some (tag, kv)"
    and es: "those (map (tree_of names) ns) = Some es"
    and t: "t = Nd (LtrfNode tag kv es)" and tag: "tag \<noteq> title_tag"
    by (auto split: option.splits if_splits)
  from es have each: "list_all2 (\<lambda>n t. tree_of names n = Some t) ns es"
    by (simp add: those_eq_Some list_all2_map1)
  from "3.prems"(2) show ?case
  proof (rule reads_lineE)
    fix us m1 m2 m3 vs
    assume "us @ AstTextNode a m1 # AstTextNode newline m2 # AstTextNode b m3 # vs \<in> set [ns]"
    then have "ns = us @ AstTextNode a m1 # AstTextNode newline m2 # AstTextNode b m3 # vs" by simp
    with each obtain us' vs' where "es = us' @ line a newline b @ vs'"
      by (auto simp: list_all2_append1 list_all2_Cons1 line_def)
    with tag show ?thesis unfolding t by (auto intro!: holds_here)
  next
    fix ns' n' assume "ns' \<in> set [ns]" and n': "n' \<in> set ns'" and "reads_line a b n'"
    with list_all2_in_left [OF each] obtain t' where t': "t' \<in> set es" "tree_of names n' = Some t'"
      by auto
    from "3.IH" [OF wrap refl tag _ t'(2) \<open>reads_line a b n'\<close>] n' \<open>ns' \<in> set [ns]\<close>
    obtain k where "t' = Nd k" "holds_line {title_tag} (line a newline b) k" by auto
    with t' tag show ?thesis unfolding t by (auto intro!: holds_below [of _ _ k])
  qed
qed simp_all

section \<open>Whitespace and newlines\<close>

lemma remWhitespace_line:
  assumes "\<not> isWhitespace a" and "\<not> isWhitespace b"
  shows "holds_line B (line a newline b) n \<Longrightarrow> holds_line B (line a newline b) (remWhitespace n)"
proof (induction rule: holds_line.induct)
  case (holds_here n)
  then obtain us vs where "node_elems n = us @ line a newline b @ vs" by (auto simp: sublist_def)
  then have "sublist (line a newline b) (node_elems (remWhitespace n))"
    using assms by (auto simp: remWhitespace_elems line_def sublist_def)
  with holds_here show ?case by (auto intro: holds_line.holds_here)
next
  case (holds_below n m)
  then have "Nd (remWhitespace m) \<in> set (node_elems (remWhitespace n))"
    by (force simp: remWhitespace_elems)
  with holds_below show ?case by (auto intro: holds_line.holds_below)
qed

lemma dropWhile_stop: "\<not> P x \<Longrightarrow> dropWhile P (us @ x # ys) = dropWhile P us @ x # ys"
  by (induction us) simp_all

lemma takeWhile_stop: "\<not> P x \<Longrightarrow> takeWhile P (us @ x # ys) = takeWhile P us"
  by (induction us) simp_all

lemma newline_spec_split:
  assumes "\<not> isNewline x"
  shows "newline_spec first (us @ x # ys) = newline_spec first us @ HObj x # newline_spec False ys"
proof (induction first us rule: newline_spec.induct)
  case (1 first)
  with assms show ?case by simp
next
  case (2 first u us)
  then show ?case
    by (simp add: dropWhile_stop [of isNewline, OF assms] takeWhile_stop [of isNewline, OF assms])
qed

lemma visible_not_newline: "\<not> isWhitespace a \<Longrightarrow> a \<noteq> newline"
  by auto

lemma linebreaks_line:
  assumes "\<not> isWhitespace a" and "\<not> isWhitespace b"
  shows "holds_line B (line a newline b) n \<Longrightarrow> holds_line B (line a space b) (processLinebreaksHelper n)"
proof (induction rule: holds_line.induct)
  case (holds_here n)
  then obtain us vs where elems: "node_elems n = us @ line a newline b @ vs" by (auto simp: sublist_def)
  let ?c = linebreaks_children
  have "newline_spec True (?c us @ LtrfStr a # (LtrfStr newline # LtrfStr b # ?c vs)) =
      newline_spec True (?c us) @ HObj (LtrfStr a) # HObj (LtrfStr space) # HObj (LtrfStr b) #
        newline_spec False (?c vs)"
    using assms [THEN visible_not_newline] by (subst newline_spec_split) simp_all
  then have "node_elems (processLinebreaksHelper n) = map final_elem (newline_spec True (?c us)) @
      line a space b @ map final_elem (newline_spec False (?c vs))"
    by (simp add: linebreaks_elems elems linebreaks_children_def line_def final_elem_def)
  with holds_here show ?case by (auto intro: holds_line.holds_here)
next
  case (holds_below n m)
  let ?c = "linebreaks_children (node_elems n)" and ?m = "Nd (processLinebreaksHelper m)"
  from holds_below have "?m \<in> set ?c" by (force simp: linebreaks_children_def)
  then obtain us vs where c: "?c = us @ ?m # vs" by (meson split_list)
  have "?m \<in> set (map final_elem (newline_spec True ?c))"
    unfolding c by (subst newline_spec_split) (simp_all add: final_elem_def)
  with \<open>?m \<in> set ?c\<close> have "?m \<in> set (node_elems (processLinebreaksHelper n))"
    by (simp add: linebreaks_elems)
  with holds_below show ?case by (auto intro: holds_line.holds_below)
qed

section \<open>Paragraphs\<close>

text \<open>Children without a delimiter between them stay together, in a new paragraph or outside of it.\<close>

lemma group_keeps:
  assumes "l \<noteq> []" and "list_all not_delimiter l"
  shows "es = us @ l @ vs \<Longrightarrow> sublist l (group_spec made es) \<or>
    (\<exists>fs. Nd (makePara fs) \<in> set (group_spec made es) \<and> sublist l fs)"
proof (induction made es arbitrary: us rule: group_spec.induct)
  case (1 made es)
  show ?case
  proof (cases "dropWhile not_delimiter es")
    case Nil
    from "1.prems" assms(1) show ?thesis unfolding group_spec_last [OF Nil] by (auto simp: piece_def)
  next
    case (Cons d rest)
    note cut = group_spec_cut [OF Cons, of made]
    show ?thesis
    proof (cases "dropWhile not_delimiter us")
      case Nil
      then have "list_all not_delimiter us" by (simp add: list_all_iff)
      with assms(2) have "takeWhile not_delimiter es = us @ l @ takeWhile not_delimiter vs"
        unfolding "1.prems" by (simp add: takeWhile_append2 list_all_iff)
      with assms(1) show ?thesis unfolding cut by (auto simp: piece_def)
    next
      case us: (Cons e us')
      then have "\<exists>x \<in> set us. is_delimiter x" by (metis dropWhile_eq_Nil_conv list.distinct(1))
      then have "dropWhile not_delimiter es = e # us' @ l @ vs"
        using us unfolding "1.prems" by (auto simp: dropWhile_append1)
      with Cons have "rest = us' @ l @ vs" by simp
      from "1.IH" [OF refl Cons this]
      consider "sublist l (group_spec (made \<or> takeWhile not_delimiter es \<noteq> []) rest)"
        | fs where "Nd (makePara fs) \<in> set (group_spec (made \<or> takeWhile not_delimiter es \<noteq> []) rest)"
            "sublist l fs"
        by blast
      moreover have "sublist (group_spec (made \<or> takeWhile not_delimiter es \<noteq> []) rest) (group_spec made es)"
        unfolding cut append_assoc [symmetric] by (rule sublist_append_leftI)
      ultimately show ?thesis by cases (auto dest: sublist_trans set_mono_sublist)
    qed
  qed
qed

lemma group_keeps_block:
  "d \<in> set es \<Longrightarrow> is_delimiter d \<Longrightarrow> \<not> isBreakMarker d \<Longrightarrow> d \<in> set (group_spec made es)"
proof (induction made es rule: group_spec.induct)
  case (1 made es)
  show ?case
  proof (cases "dropWhile not_delimiter es")
    case Nil
    with "1.prems" show ?thesis by (auto simp: dropWhile_eq_Nil_conv)
  next
    case (Cons e rest)
    have "set es = set (takeWhile not_delimiter es) \<union> insert e (set rest)"
      by (metis Cons list.simps(15) set_append takeWhile_dropWhile_id)
    with "1.prems" have "d = e \<or> d \<in> set rest" by (auto dest: set_takeWhileD)
    with "1.IH" [OF refl Cons] "1.prems" show ?thesis
      unfolding group_spec_cut [OF Cons] by (auto simp: keep_block_def)
  qed
qed

text \<open>Trimming only removes whitespace at the ends.\<close>

lemma trim_keeps:
  assumes "\<not> is_ws_str x" and "\<not> is_ws_str y"
  shows "sublist (x # l @ [y]) fs \<Longrightarrow> sublist (x # l @ [y]) (trim_back (trim_front fs))"
proof -
  assume "sublist (x # l @ [y]) fs"
  then obtain us vs where fs: "fs = us @ x # l @ y # vs" by (auto simp: sublist_def)
  have "trim_front fs = dropWhile is_ws_str us @ x # l @ y # vs"
    by (simp add: fs trim_front_eq dropWhile_stop [of is_ws_str, OF assms(1)])
  then have "trim_back (trim_front fs) = dropWhile is_ws_str us @ (x # l @ [y]) @ rev (dropWhile is_ws_str (rev vs))"
    using dropWhile_stop [of is_ws_str, OF assms(2), of "rev vs" "rev l @ x # rev (dropWhile is_ws_str us)"]
    by (simp add: trim_back_eq)
  then show ?thesis by (auto simp: sublist_def)
qed

lemma trim_keeps_one: "x \<in> set fs \<Longrightarrow> \<not> is_ws_str x \<Longrightarrow> x \<in> set (trim_back (trim_front fs))"
proof -
  assume x: "x \<in> set fs" "\<not> is_ws_str x"
  then obtain us vs where fs: "fs = us @ x # vs" by (meson split_list)
  have "trim_front fs = dropWhile is_ws_str us @ x # vs"
    by (simp add: fs trim_front_eq dropWhile_stop [of is_ws_str, OF x(2)])
  then have "trim_back (trim_front fs) = dropWhile is_ws_str us @ x # rev (dropWhile is_ws_str (rev vs))"
    using dropWhile_stop [of is_ws_str, OF x(2), of "rev vs" "rev (dropWhile is_ws_str us)"]
    by (simp add: trim_back_eq)
  then show ?thesis by simp
qed

lemma trimmed_para:
  assumes "Nd (makePara fs) \<in> set gs" and "trim_back (trim_front fs) \<noteq> []"
  shows "\<exists>p. Nd p \<in> set (trimParas gs) \<and> node_tag p = PARAGRAPH_TAG \<and> node_elems p = trim_back (trim_front fs)"
proof (intro exI conjI)
  let ?p = "withElems (makePara fs) (trim_back (trim_front fs))"
  have "trimSingleParaNode (Nd (makePara fs)) = Nd ?p" by (simp add: trimSingleParaNode_def)
  with assms show "Nd ?p \<in> set (trimParas gs)"
    unfolding trimParas_def by (force simp: withElems_def)
qed (simp_all add: withElems_def)

text \<open>The paragraph pass, on a tree in which it has made no paragraphs yet.\<close>

abbreviation no_line_tags :: "jstr set" where
  "no_line_tags \<equiv> {title_tag, BREAK_MARKER_TAG, PARAGRAPH_TAG}"

lemma group_line:
  assumes a: "\<not> isWhitespace a" and b: "\<not> isWhitespace b" and "sublist (line a s b) es"
  shows "sublist (line a s b) (trimParas (group_spec made es)) \<or>
    (\<exists>p. Nd p \<in> set (trimParas (group_spec made es)) \<and> node_tag p = PARAGRAPH_TAG \<and> sublist (line a s b) (node_elems p))"
proof -
  obtain us vs where "es = us @ line a s b @ vs" using assms(3) by (auto simp: sublist_def)
  from group_keeps [OF _ _ this, of made]
  consider "sublist (line a s b) (group_spec made es)"
    | fs where "Nd (makePara fs) \<in> set (group_spec made es)" "sublist (line a s b) fs"
    by (auto simp: line_def is_delimiter_def)
  then show ?thesis
  proof cases
    case 1
    then obtain us vs where "group_spec made es = us @ line a s b @ vs" by (auto simp: sublist_def)
    then have "trimParas (group_spec made es) = trimParas us @ line a s b @ trimParas vs"
      by (simp add: trimParas_def line_def)
    then show ?thesis by (auto simp: sublist_def)
  next
    case (2 fs)
    with a b have "sublist (line a s b) (trim_back (trim_front fs))"
      using trim_keeps [of "LtrfStr a" "LtrfStr b" "[LtrfStr s]" fs] by (simp add: line_def)
    moreover from this have "trim_back (trim_front fs) \<noteq> []" by (auto simp: line_def)
    ultimately show ?thesis using trimmed_para [OF 2(1)] by force
  qed
qed

lemma group_node:
  assumes "Nd m \<in> set es" and "node_tag m \<notin> {BREAK_MARKER_TAG, PARAGRAPH_TAG}"
  shows "Nd m \<in> set (trimParas (group_spec made es)) \<or>
    (\<exists>p. Nd p \<in> set (trimParas (group_spec made es)) \<and> node_tag p = PARAGRAPH_TAG \<and> Nd m \<in> set (node_elems p))"
proof -
  have keep: "Nd m \<in> set (trimParas gs)" if "Nd m \<in> set gs" for gs
    using that assms(2) by (force simp: trimParas_def trimSingleParaNode_def)
  show ?thesis
  proof (cases "is_delimiter (Nd m)")
    case True
    with assms group_keeps_block [of "Nd m" es made] keep show ?thesis by simp
  next
    case False
    obtain us vs where "es = us @ [Nd m] @ vs" using assms(1) by (metis append_Cons append_Nil split_list)
    from group_keeps [OF _ _ this, of made] False
    consider "Nd m \<in> set (group_spec made es)"
      | fs where "Nd (makePara fs) \<in> set (group_spec made es)" "Nd m \<in> set fs"
      by (auto simp: sublist_def)
    then show ?thesis
    proof cases
      case (2 fs)
      then have "Nd m \<in> set (trim_back (trim_front fs))" by (simp add: trim_keeps_one)
      with trimmed_para [OF 2(1)] show ?thesis by force
    qed (use keep in simp)
  qed
qed

lemma holds_in_para:
  assumes "node_tag n \<noteq> title_tag"
  shows "sublist l es \<or> (\<exists>p. Nd p \<in> set es \<and> node_tag p = PARAGRAPH_TAG \<and> sublist l (node_elems p)) \<Longrightarrow>
      holds_line {title_tag} l (withElems n es)"
    and "holds_line {title_tag} l m \<Longrightarrow> Nd m \<in> set es \<or>
      (\<exists>p. Nd p \<in> set es \<and> node_tag p = PARAGRAPH_TAG \<and> Nd m \<in> set (node_elems p)) \<Longrightarrow>
      holds_line {title_tag} l (withElems n es)"
proof -
  have n: "node_tag (withElems n es) \<notin> {title_tag}" "node_elems (withElems n es) = es"
    using assms by (simp_all add: withElems_def)
  have para: "holds_line {title_tag} l (withElems n es)" if "Nd p \<in> set es" "holds_line {title_tag} l p" for p
    by (rule holds_below [OF n(1) _ that(2)]) (simp add: n that)
  show "holds_line {title_tag} l (withElems n es)"
    if "sublist l es \<or> (\<exists>p. Nd p \<in> set es \<and> node_tag p = PARAGRAPH_TAG \<and> sublist l (node_elems p))"
    using that
  proof
    assume "sublist l es"
    with n show ?thesis by (auto intro: holds_here)
  next
    assume "\<exists>p. Nd p \<in> set es \<and> node_tag p = PARAGRAPH_TAG \<and> sublist l (node_elems p)"
    then obtain p where p: "Nd p \<in> set es" "node_tag p = PARAGRAPH_TAG" "sublist l (node_elems p)" by blast
    have "holds_line {title_tag} l p" by (rule holds_here [OF _ p(3)]) (simp add: p title_not_para)
    with p(1) show ?thesis by (rule para)
  qed
  show "holds_line {title_tag} l (withElems n es)"
    if "holds_line {title_tag} l m" and "Nd m \<in> set es \<or>
      (\<exists>p. Nd p \<in> set es \<and> node_tag p = PARAGRAPH_TAG \<and> Nd m \<in> set (node_elems p))"
    using that(2)
  proof
    assume "\<exists>p. Nd p \<in> set es \<and> node_tag p = PARAGRAPH_TAG \<and> Nd m \<in> set (node_elems p)"
    then obtain p where p: "Nd p \<in> set es" "node_tag p = PARAGRAPH_TAG" "Nd m \<in> set (node_elems p)" by blast
    have "holds_line {title_tag} l p" by (rule holds_below [OF _ p(3) that(1)]) (simp add: p title_not_para)
    with p(1) show ?thesis by (rule para)
  qed (rule para [OF _ that(1)])
qed

lemma paragraphs_line:
  assumes "\<not> isWhitespace a" and "\<not> isWhitespace b"
  shows "holds_line no_line_tags (line a s b) n \<Longrightarrow> processParagraphsHelper n = Inr n' \<Longrightarrow>
    holds_line {title_tag} (line a s b) n'"
proof (induction arbitrary: n' rule: holds_line.induct)
  case (holds_here n)
  from holds_here(3) obtain es where es: "list_all2 para_child (node_elems n) es"
    and n': "n' = withElems n (trimParas (group_spec False es))"
    by (auto simp: processParagraphsHelper_Inr)
  from holds_here(2) obtain us vs where "node_elems n = us @ line a s b @ vs" by (auto simp: sublist_def)
  with es obtain us' vs' where "es = us' @ line a s b @ vs'"
    by (auto simp: list_all2_append1 list_all2_Cons1 line_def)
  then have "sublist (line a s b) es" by simp
  from group_line [OF assms this] holds_here(1) show ?case
    unfolding n' by (intro holds_in_para(1)) auto
next
  case (holds_below n m)
  from holds_below(5) obtain es where es: "list_all2 para_child (node_elems n) es"
    and n': "n' = withElems n (trimParas (group_spec False es))"
    by (auto simp: processParagraphsHelper_Inr)
  from list_all2_in_left [OF es holds_below(2)] obtain m' where m': "Nd m' \<in> set es" "processParagraphsHelper m = Inr m'"
    by auto
  from holds_below(3) have "node_tag m \<notin> no_line_tags" by (auto elim: holds_line.cases)
  with paras_tag_kv [OF m'(2)] have "node_tag m' \<notin> {BREAK_MARKER_TAG, PARAGRAPH_TAG}" by simp
  from group_node [OF m'(1) this] holds_below(1) show ?case
    unfolding n' by (intro holds_in_para(2) [OF _ holds_below.IH [OF m'(2)]]) auto
qed

section \<open>A line is read with a space\<close>

lemma line_strings: "holds_line {title_tag} (line a s b) n \<Longrightarrow> sublist [a, s, b] (strings_of T n)"
proof (induction rule: holds_line.induct)
  case (holds_here n)
  then obtain us vs where "node_elems n = us @ line a s b @ vs" by (auto simp: sublist_def)
  then have "strings_in T (node_elems n) = strings_in T us @ [a, s, b] @ strings_in T vs"
    by (simp add: line_def)
  with holds_here(1) show ?case by (auto simp: strings_of_eq sublist_def)
next
  case (holds_below n m)
  then obtain us vs where "node_elems n = us @ Nd m # vs" by (meson split_list)
  then have "strings_in T (node_elems n) = strings_in T us @ strings_of T m @ strings_in T vs" by simp
  then have "sublist (strings_of T m) (strings_of T n)"
    using holds_below(1) by (auto simp: strings_of_eq [of T n] sublist_def)
  with holds_below.IH show ?case by (rule sublist_trans)
qed

text \<open>A newline between two texts of a document is read as a space in the processed document.\<close>

lemma processed_line:
  assumes "processPass n = Inr r" and "Nd d \<in> set (node_elems n)" and "node_tag n \<noteq> title_tag"
    and "holds_line no_line_tags (line a newline b) d" and "\<not> isWhitespace a" and "\<not> isWhitespace b"
  shows "sublist [a, space, b] (strings_of T r)"
proof -
  from assms(1) have root: "root_ok n" and r: "processParagraphsHelper (processLinebreaksHelper
      (remWhitespace (updateElems n (filter is_doc)))) = Inr r"
    by (auto simp: processPass_eq bindR_eq_Inr_iff processRoot_Inr)
  from root assms(2) have "Nd d \<in> set (filter is_doc (node_elems n))"
    by (auto simp: root_ok_def list_all_iff is_doc_def dest!: bspec)
  moreover from root have "node_tag n \<notin> no_line_tags" using assms(3) by (auto simp: root_ok_def)
  ultimately have "holds_line no_line_tags (line a newline b) (updateElems n (filter is_doc))"
    using assms(4) by (auto simp: updateElems_def ltrf_make_def intro: holds_below)
  from paragraphs_line [OF assms(5,6) linebreaks_line [OF assms(5,6) remWhitespace_line [OF assms(5,6) this]] r]
  show ?thesis by (rule line_strings)
qed

end
