(* ===== verification/HtmlText.thy ===== *)
theory HtmlText
  imports HtmlOutput DocumentText StdRendering
begin

text \<open>
  What a reader sees of the html that a document becomes: the text of the code
  (\<^verbatim>\<open>std/output/htmlTagOutputter.ts\<close>, \<^verbatim>\<open>std/main_html_output.ts\<close>) is the text of the document.
\<close>

section \<open>The text of html code\<close>

text \<open>A scan that leaves out what stands between angle brackets, and where it ends.\<close>

fun text_from :: "bool \<Rightarrow> jstr \<Rightarrow> jstr" where
  "text_from in_tag [] = []"
| "text_from in_tag (c # cs) =
     (if [c] = js ''<'' then text_from True cs
      else if [c] = js ''>'' then text_from False cs
      else if in_tag then text_from True cs
      else c # text_from False cs)"

fun in_tag_after :: "bool \<Rightarrow> jstr \<Rightarrow> bool" where
  "in_tag_after in_tag [] = in_tag"
| "in_tag_after in_tag (c # cs) =
     in_tag_after (if [c] = js ''<'' then True else if [c] = js ''>'' then False else in_tag) cs"

definition visible :: "jstr \<Rightarrow> jstr" where
  "visible code = text_from False code"

lemma text_append: "text_from b (s @ t) = text_from b s @ text_from (in_tag_after b s) t"
  by (induction s arbitrary: b) auto

lemma in_tag_append: "in_tag_after b (s @ t) = in_tag_after (in_tag_after b s) t"
  by (induction s arbitrary: b) auto

lemma plain_scan:
  assumes "plain_text t"
  shows "in_tag_after b t = b" and "text_from False t = t" and "text_from True t = []"
proof -
  have "\<forall>c \<in> set t. [c] \<noteq> js ''<'' \<and> [c] \<noteq> js ''>''"
    using assms by (auto simp: plain_text_def js_def)
  then show "in_tag_after b t = b" and "text_from False t = t" and "text_from True t = []"
    by (induction t arbitrary: b) auto
qed

lemma bracket_scan [simp]:
  "in_tag_after b (js ''<'') = True" "in_tag_after b (js ''>'') = False"
  "in_tag_after b (js ''</'') = True" "in_tag_after b (js ''/>'') = False"
  "text_from b (js ''<'') = []" "text_from b (js ''>'') = []"
  "text_from b (js ''</'') = []" "text_from True (js ''/>'') = []"
  by (simp_all add: js_def)

lemma plain_element: "element_name t \<Longrightarrow> plain_text t"
  by (auto simp: element_name_def plain_text_def js_def)

lemmas scans = text_append in_tag_append plain_scan plain_element

text \<open>Well-formed code ends outside of a tag.\<close>

lemma html_code_scan: "html_code s \<Longrightarrow> in_tag_after False s = False"
proof (induction rule: html_code.induct)
  case (html_void_element t a)
  then have "plain_text t" by auto
  with html_void_element show ?case by (simp add: scans)
qed (simp_all add: scans)

lemma visible_append: "html_code s \<Longrightarrow> visible (s @ t) = visible s @ visible t"
  by (simp add: visible_def text_append html_code_scan)

lemma visible_concat: "list_all html_code ss \<Longrightarrow> visible (concat ss) = concat (map visible ss)"
  by (induction ss) (simp_all add: visible_append, simp add: visible_def)

lemma visible_plain: "plain_text t \<Longrightarrow> visible t = t"
  by (simp add: visible_def scans)

section \<open>Each outputter keeps the text\<close>

text \<open>Code whose text is the given strings, each encoded.\<close>

definition reads_as :: "out_ctx \<Rightarrow> jstr list \<Rightarrow> jstr \<Rightarrow> bool" where
  "reads_as c ss code \<longleftrightarrow> html_code code \<and>
     (\<exists>ts. list_all2 (\<lambda>s t. oc_heEncode c s = Inr t) ss ts \<and> visible code = concat ts)"

lemma reads_append:
  "reads_as c ss code \<Longrightarrow> reads_as c ss' code' \<Longrightarrow> reads_as c (ss @ ss') (code @ code')"
  unfolding reads_as_def
  by (elim conjE exE, intro conjI html_append exI [of _ "_ @ _"] list_all2_appendI)
    (assumption | simp add: visible_append)+

lemma reads_concat:
  "list_all2 (\<lambda>x code. reads_as c (f x) code) xs codes \<Longrightarrow> reads_as c (concat (map f xs)) (concat codes)"
proof (induction xs codes rule: list_all2_induct)
  case Nil
  then show ?case by (auto simp: reads_as_def visible_def intro: html_text)
qed (simp add: reads_append)

lemma reads_wrapped:
  "reads_as c ss inner \<Longrightarrow> html_code code \<Longrightarrow> visible code = visible inner \<Longrightarrow> reads_as c ss code"
  by (simp add: reads_as_def)

lemma elems_read:
  assumes "\<And>x. x \<in> set es \<Longrightarrow> outs.yields c st (reads_as c (strings_in T [x])) (rec x)"
  shows "outs.yields c st (reads_as c (strings_in T es)) (output_elems rec es)"
  unfolding output_elems_def composeOutput_def
  by (rule outs.yields_bind [OF outs.yields_map_each [OF assms]])
    (auto intro!: outs.yields_return simp: strings_in_concat [of T es] reads_concat)

lemma html_tag_visible:
  assumes "html_outputter (HtmlTagOutputter t as)" and "html_code cs"
  shows "visible (js ''<'' @ t @ js '' '' @ attr_entries as @ js ''>'' @ cs @ js ''</'' @ t @ js ''>'') = visible cs"
    and "visible (js ''<'' @ t @ js '' '' @ attr_entries as @ js ''/>'') = []"
proof -
  from assms(1) have "plain_text t" "plain_text (js '' '')" "plain_text (attr_entries as)"
    by (simp_all add: plain_attr_entries plain_element)
  then show "visible (js ''<'' @ t @ js '' '' @ attr_entries as @ js ''>'' @ cs @ js ''</'' @ t @ js ''>'') = visible cs"
    and "visible (js ''<'' @ t @ js '' '' @ attr_entries as @ js ''/>'') = []"
    by (simp_all add: visible_def text_append in_tag_append plain_scan html_code_scan [OF assms(2)]
        del: js_append)
qed

text \<open>The tags in the code of a root and of a title.\<close>

definition only_tags :: "jstr \<Rightarrow> bool" where
  "only_tags s \<longleftrightarrow> text_from False s = [] \<and> \<not> in_tag_after False s"

lemma visible_only_tags: "only_tags s \<Longrightarrow> visible (s @ u) = visible u"
  by (simp add: only_tags_def visible_def text_append)

lemma visible_no_text: "only_tags s \<Longrightarrow> visible s = []"
  by (simp add: only_tags_def visible_def)

lemma visible_tags_last: "html_code s \<Longrightarrow> only_tags u \<Longrightarrow> visible (s @ u) = visible s"
  by (simp add: only_tags_def visible_def text_append html_code_scan)

text \<open>For a literal, on its characters.\<close>

fun tag_chars :: "bool \<Rightarrow> string \<Rightarrow> bool" where
  "tag_chars in_tag [] \<longleftrightarrow> \<not> in_tag"
| "tag_chars in_tag (c # cs) \<longleftrightarrow>
     (if c = CHR ''<'' then tag_chars True cs
      else if c = CHR ''>'' then tag_chars False cs
      else in_tag \<and> tag_chars True cs)"

lemma only_tags_chars: "only_tags (js s) \<longleftrightarrow> tag_chars False s"
proof -
  have unit: "(of_char c :: code_unit) = 60 \<longleftrightarrow> c = CHR ''<''" "(of_char c :: code_unit) = 62 \<longleftrightarrow> c = CHR ''>''" for c
    using of_char_unit_eq_iff [of c "CHR ''<''"] of_char_unit_eq_iff [of c "CHR ''>''"] by simp_all
  have "text_from b (js s) = [] \<and> \<not> in_tag_after b (js s) \<longleftrightarrow> tag_chars b s" for b
    by (induction s arbitrary: b) (simp_all add: js_def unit)
  then show ?thesis by (simp add: only_tags_def)
qed

lemma literal_tags:
  "only_tags (js ''<html><head><meta charset=\"utf-8\">'')"
  "only_tags (js ''<link rel=\"stylesheet\" href=\"deps/hello-css-all.css\">'')"
  "only_tags (js ''<link rel=\"stylesheet\" href=\"deps/lapol-default.css\">'')"
  "only_tags (js ''</head><body><article class=\"page\">'')"
  "only_tags (js ''</article></body></html>'')"
  "only_tags (js ''<header>'')" "only_tags (js ''<h1 class=\"title\">'')" "only_tags (js ''</h1>'')"
  "only_tags (js ''<p class=\"subtitle\">'')" "only_tags (js ''</p>'')" "only_tags (js ''</header>'')"
  by (simp_all add: only_tags_chars)

lemma maketitle_visible:
  assumes "html_code t" and "html_code a"
  shows "visible (js ''<header>'' @ js ''<h1 class=\"title\">'' @ t @ js ''</h1>'' @
    js ''<p class=\"subtitle\">'' @ a @ js ''</p>'' @ js ''</header>'') = visible t @ visible a"
proof -
  have "visible (a @ js ''</p>'' @ js ''</header>'') = visible a"
    unfolding visible_append [OF assms(2)] literal_tags(10) [THEN visible_only_tags]
      visible_no_text [OF literal_tags(11)]
    by (rule append_Nil2)
  then show ?thesis
    unfolding literal_tags(6-9) [THEN visible_only_tags] visible_append [OF assms(1)]
    by (rule arg_cong)
qed

lemma root_visible:
  assumes "html_code cs"
  shows "visible (js ''<html><head><meta charset=\"utf-8\">'' @
    js ''<link rel=\"stylesheet\" href=\"deps/hello-css-all.css\">'' @
    js ''<link rel=\"stylesheet\" href=\"deps/lapol-default.css\">'' @
    js ''</head><body><article class=\"page\">'' @ cs @ js ''</article></body></html>'') = visible cs"
  unfolding literal_tags [THEN visible_only_tags]
  by (rule visible_tags_last [OF assms literal_tags(5)])

lemma reads_root:
  assumes "reads_as c ss cs"
  shows "reads_as c ss (js ''<html><head><meta charset=\"utf-8\">'' @
    js ''<link rel=\"stylesheet\" href=\"deps/hello-css-all.css\">'' @
    js ''<link rel=\"stylesheet\" href=\"deps/lapol-default.css\">'' @
    js ''</head><body><article class=\"page\">'' @ cs @ js ''</article></body></html>'')"
proof -
  from assms have "html_code cs" by (simp add: reads_as_def)
  from reads_wrapped [OF assms root_html [OF this] root_visible [OF this]] show ?thesis .
qed

lemma reads_tag:
  assumes "html_outputter (HtmlTagOutputter t as)" and "reads_as c ss cs"
  shows "reads_as c ss
    (js ''<'' @ t @ js '' '' @ attr_entries as @ js ''>'' @ cs @ js ''</'' @ t @ js ''>'')"
proof -
  from assms(2) have "html_code cs" by (simp add: reads_as_def)
  from reads_wrapped [OF assms(2) html_tag_html(2) [OF assms(1) this] html_tag_visible(1) [OF assms(1) this]]
  show ?thesis .
qed

lemma reads_title:
  assumes "reads_as c ss t" and "reads_as c us a"
  shows "reads_as c (ss @ us) (js ''<header>'' @ js ''<h1 class=\"title\">'' @ t @ js ''</h1>'' @
    js ''<p class=\"subtitle\">'' @ a @ js ''</p>'' @ js ''</header>'')"
proof -
  from assms have code: "html_code t" "html_code a" by (simp_all add: reads_as_def)
  from reads_wrapped [OF reads_append [OF assms] maketitle_html [OF code]] show ?thesis
    by (simp only: maketitle_visible [OF code] visible_append [OF code(1)])
qed

text \<open>The tag \<^verbatim>\<open>maketitle\<close> is the one whose outputter prints the title.\<close>

definition title_tagged :: "out_ctx \<Rightarrow> bool" where
  "title_tagged c \<longleftrightarrow> (\<forall>n p. outputter_of c n = Inr p \<longrightarrow>
     (p = HtmlMaketitleOutputter \<longleftrightarrow> node_tag n = title_tag))"

lemma title_elems_stored:
  "jmap_get st main_name = Some s \<Longrightarrow> store_title s = Some title \<Longrightarrow> store_author s = Some author \<Longrightarrow>
   title_elems st = title @ author"
  by (simp add: title_elems_def)

lemma maketitle_reads:
  assumes "strings_in T (title_elems st) = T"
    and rec: "\<And>x. outs.yields c st (reads_as c (strings_in T [x])) (rec x)"
  shows "outs.yields c st (reads_as c T) (html_maketitle rec n)"
  unfolding html_maketitle_def is_new_array_def if_False
proof (intro outs.yields_bind [OF main_store_yields] outs.yields_bind [OF js_defined_yields]
    outs.yields_bind [OF elems_read [OF rec]] outs.yields_return)
  fix s title t author a
  assume "jmap_get st main_name = Some s" "store_title s = Some title" "store_author s = Some author"
    and t: "reads_as c (strings_in T title) t" and a: "reads_as c (strings_in T author) a"
  then have "strings_in T title @ strings_in T author = T"
    using assms(1) by (simp add: title_elems_stored)
  with reads_title [OF t a]
  show "reads_as c T (js ''<header>'' @ js ''<h1 class=\"title\">'' @ t @ js ''</h1>'' @
      js ''<p class=\"subtitle\">'' @ a @ js ''</p>'' @ js ''</header>'')"
    by (simp only:)
qed

lemma run_outputter_reads:
  assumes "html_outputter p" and title: "p = HtmlMaketitleOutputter \<longleftrightarrow> node_tag n = title_tag"
    and "strings_in T (title_elems st) = T"
    and rec: "\<And>x. outs.yields c st (reads_as c (strings_in T [x])) (rec x)"
  shows "outs.yields c st (reads_as c (strings_of T n)) (run_outputter c rec p n)"
proof -
  note elems = elems_read [OF rec]
  show ?thesis
  proof (cases p)
    case HtmlRootOutputter
    with title have n: "strings_of T n = strings_in T (node_elems n)" by (simp add: strings_of_eq)
    show ?thesis
      unfolding n HtmlRootOutputter run_outputter.simps html_root_def
      by (rule outs.yields_bind [OF outs.safe_yields [OF require_safe]], rule outs.yields_bind [OF elems],
          rule outs.yields_return, erule reads_root)
  next
    case (HtmlTagOutputter t as)
    with title have n: "strings_of T n = strings_in T (node_elems n)" by (simp add: strings_of_eq)
    note out = assms(1) [unfolded HtmlTagOutputter]
    show ?thesis
    proof (cases "node_elems n = []")
      case True
      with html_tag_html(1) [OF out html_text [of "[]"]] html_tag_visible(2) [OF out html_text [of "[]"]]
      show ?thesis
        by (auto simp: HtmlTagOutputter html_tag_def Let_def n reads_as_def intro!: outs.yields_return
            simp del: html_outputter.simps js_append)
    next
      case False
      then show ?thesis
        unfolding HtmlTagOutputter run_outputter.simps html_tag_def Let_def n
        by (simp only: length_0_conv if_False)
          (rule outs.yields_bind [OF elems], rule outs.yields_return, erule reads_tag [OF out])
    qed
  next
    case HtmlMaketitleOutputter
    with title have "strings_of T n = T" by (simp add: strings_of_eq)
    with maketitle_reads [OF assms(3) rec] HtmlMaketitleOutputter show ?thesis by simp
  qed (use assms(1) in simp_all)
qed

lemma output_reads:
  assumes "html_output c" and "title_tagged c" and "strings_in T (title_elems st) = T"
  shows "outs.yields c st (reads_as c (strings_in T [x])) (outputLtrfObj fuel c x)"
proof (induction fuel arbitrary: x)
  case 0
  show ?case by (rule outs.yieldsI) simp
next
  case (Suc fuel)
  show ?case
  proof (cases x)
    case (LtrfStr s)
    have "reads_as c [s] t" if "oc_heEncode c s = Inr t" for t
      using assms(1) that by (auto simp: html_output_def reads_as_def visible_plain intro: html_text)
    with assms(1) LtrfStr show ?thesis
      by (auto simp: html_output_def getDefaultLtrfStrOutputter_def string_default_def
          html_string_default_def intro!: outs.yields_lift)
  next
    case (Nd n)
    have "outs.yields c st (reads_as c (strings_of T n)) (run_outputter c (outputLtrfObj fuel c) p n)"
      if "outputter_of c n = Inr p" for p
      by (rule run_outputter_reads) (use assms that Suc in \<open>auto simp: html_output_def title_tagged_def\<close>)
    then show ?thesis
      by (auto simp: Nd intro!: outs.yields_bind [OF dispatch_yields])
  qed
qed

end
