(* ===== verification/ShownText.thy ===== *)
theory ShownText
  imports HtmlText Numbering Lines
begin

text \<open>
  From the source to the page: the text of the html that a compilation writes is the text of the
  document, for documents that use the standard modules (\<^verbatim>\<open>internal/compile.ts\<close>).
\<close>

section \<open>The standard modules and the target html\<close>

lemma html_table_titles:
  "list_all (\<lambda>(t, p). html_outputter p \<and> (p = HtmlMaketitleOutputter \<longleftrightarrow> t = title_tag)) html_table"
  by (simp add: html_table_def tag_outputter_def plain_attributes_def title_tag_def)

lemma std_html_context:
  assumes "html \<in> set ts" and "\<forall>s t. ho_heEncode H s = Inr t \<longrightarrow> plain_text t"
  shows "html_output (output_ctx H (std_registry ts) html (std_strings_of html))"
    and "title_tagged (output_ctx H (std_registry ts) html (std_strings_of html))"
proof -
  let ?c = "output_ctx H (std_registry ts) html (std_strings_of html)"
  have table: "html_outputter p \<and> (p = HtmlMaketitleOutputter \<longleftrightarrow> node_tag n = title_tag)"
    if "outputter_of ?c n = Inr p" for n p
  proof -
    from that have "jmap_get html_table (node_tag n) = Some p"
      by (simp add: outputter_of_def output_ctx_def std_html_retrieve [OF assms(1)] split: option.splits)
    from map_of_SomeD [OF this] html_table_titles show ?thesis by (auto simp: list_all_iff)
  qed
  then show "title_tagged ?c" by (auto simp: title_tagged_def)
  show "html_output ?c"
    using table assms(2) by (auto simp: html_output_def) (auto simp: output_ctx_def std_strings_of_def)
qed

text \<open>The strings of the title and the author of a file.\<close>

definition title_strings :: "module_storage \<Rightarrow> jstr list" where
  "title_strings st = strings_in [] (title_elems st)"

definition untitled :: "ltrf_obj list \<Rightarrow> bool" where
  "untitled es \<longleftrightarrow> all_below (\<lambda>m. node_tag m \<noteq> title_tag) es"

lemma title_strings_fixed:
  "untitled (title_elems st) \<Longrightarrow> strings_in (title_strings st) (title_elems st) = title_strings st"
  unfolding untitled_def by (simp add: title_strings_def strings_in_untitled [of _ "strings_in [] _"])

lemma std_no_break_markers:
  assumes "all_below std_made es" and "processPass (ltrf_make ROOT_TAG_EVAL [] es) = Inr r"
  shows "all_nodes no_break_marker (ltrf_make ROOT_TAG_EVAL [] es)" and "all_nodes no_break_marker r"
proof -
  have "no_break_marker m" if "std_made m" for m
    using that by (auto simp: std_made_def command_tags_def BREAK_MARKER_TAG_def)
  with assms(1) show "all_nodes no_break_marker (ltrf_make ROOT_TAG_EVAL [] es)"
    unfolding all_nodes_iff [of no_break_marker "ltrf_make ROOT_TAG_EVAL [] es"]
    by (auto simp: all_below_iff ROOT_TAG_EVAL_def BREAK_MARKER_TAG_def intro: all_nodes_mono)
  have "no_break_marker m" if "node_tag m \<in> std_tags" for m
    using that by (auto simp: std_tags_def BREAK_MARKER_TAG_def)
  with std_processed [OF assms] show "all_nodes no_break_marker r" by (auto intro: all_nodes_mono)
qed

text \<open>The code that is written for a document, and the strings that it shows.\<close>

lemma compiled_html_text:
  assumes "std_ready ts h" and "html \<in> set ts" and "ci_targetLanguage c = html"
    and "\<forall>s t. ho_heEncode H s = Inr t \<longrightarrow> plain_text t"
    and "compile_text H fuel (std_registry ts) c buf h = Some (Inr ((output, files), h'))"
    and "evaluatePass (ho_user H) (std_registry ts) h (make_FileContext (std_registry ts))
      (co_dbgParsed output) = Some (Inr (Nd n, s))"
    and "untitled (title_elems (ev_storage s))"
    and "T = title_strings (ev_storage s)" and "r = co_dbgProcessed output"
  shows "processPass n = Inr r" and "words (strings_of T r) = words (strings_of T n)"
    and "\<exists>es. list_all2 (\<lambda>s e. ho_heEncode H s = Inr e) (strings_of T r) es \<and>
      visible (co_dbgOutputted output) = concat es"
proof -
  let ?c = "output_ctx H (std_registry ts) html (std_strings_of html)"
  have "makeOutputDispatcher (std_registry ts) html = Inr ([], std_strings_of html)"
    using std_retrieve(2) [OF assms(2)] by (simp add: makeOutputDispatcher_def)
  with assms(3,5,6) obtain os where proc: "processPass n = Inr r"
    and out: "outputPass fuel ?c r \<lparr>os_lazyNodeOutputters = [], os_files = [], os_storage = ev_storage s\<rparr> =
      Some (Inr (co_dbgOutputted output, os))"
    by (auto simp: compile_text_Inr assms(9))
  then show "processPass n = Inr r" by simp
  from assms(1,6) obtain es where n: "n = ltrf_make ROOT_TAG_EVAL [] es" and made: "all_below std_made es"
    by (rule std_evaluated)
  from processed_words [OF proc] std_no_break_markers [OF made] proc
  show "words (strings_of T r) = words (strings_of T n)" by (simp add: n)
  note reads = output_reads [OF std_html_context [OF assms(2,4)] title_strings_fixed [OF assms(7)]]
  from outs.yieldsD [OF reads [of "Nd r" fuel], rotated, OF out [unfolded outputPass_def]]
  have "reads_as ?c (strings_of T r) (co_dbgOutputted output)" by (simp add: assms(8))
  then show "\<exists>es. list_all2 (\<lambda>s e. ho_heEncode H s = Inr e) (strings_of T r) es \<and>
      visible (co_dbgOutputted output) = concat es"
    by (auto simp: reads_as_def output_ctx_def)
qed

text \<open>
  C4: an html page shows the document.  When a document that uses the standard modules compiles
  to html, the text of the code, without what stands between angle brackets, is the strings of the
  evaluated document, each encoded, in reading order, with the title and the author where
  \<^verbatim>\<open>maketitle\<close> stands: no string is lost, repeated, moved or invented, but for strings of whitespace.
\<close>

theorem html_shows_document:
  assumes "std_ready ts h" and "html \<in> set ts" and "ci_targetLanguage c = html"
    and "\<forall>s t. ho_heEncode H s = Inr t \<longrightarrow> plain_text t"
    and "compile_text H fuel (std_registry ts) c buf h = Some (Inr ((output, files), h'))"
    and "evaluatePass (ho_user H) (std_registry ts) h (make_FileContext (std_registry ts))
      (co_dbgParsed output) = Some (Inr (Nd n, s))"
    and "untitled (title_elems (ev_storage s))"
  shows "\<exists>ss es. list_all2 (\<lambda>s e. ho_heEncode H s = Inr e) ss es \<and>
    visible (co_dbgOutputted output) = concat es \<and>
    words ss = words (strings_of (title_strings (ev_storage s)) n)"
  using compiled_html_text [OF assms refl refl] by blast

section \<open>From the source\<close>

lemma evaluate_blank:
  "list_all is_blank_text ns \<Longrightarrow> \<exists>ss. list_all isWhitespace ss \<and>
     evaluateNodes c ns s = Some (Inr (map LtrfStr ss, s))"
proof (induction ns)
  case (Cons n ns)
  then obtain str m where n: "n = AstTextNode str m" "isWhitespace str"
    by (cases n) (auto simp: is_blank_text_def)
  from Cons obtain ss where "list_all isWhitespace ss" "evaluateNodes c ns s = Some (Inr (map LtrfStr ss, s))"
    by auto
  with n show ?case
    by (intro exI [of _ "str # ss"]) (simp add: evaluateTextNode_def act_bind_def act_simps)
qed (simp add: act_simps)

lemma words_blank: "list_all isWhitespace ss \<Longrightarrow> words ss = []"
  by (induction ss) simp_all

lemma strings_in_map [simp]: "strings_in T (map LtrfStr ss) = ss"
  by (induction ss) simp_all

lemma root_strings:
  "all_below (\<lambda>_. False) hs \<Longrightarrow> list_all (ltrfObjLift isWhitespace p) hs \<Longrightarrow> words (strings_in T hs) = []"
proof (induction hs)
  case (Cons e hs)
  then show ?case by (cases e) (auto dest: all_nodes_self)
qed simp

text \<open>
  A header: uses of the commands that set the title and the author, each with marked-up text in which the
  title does not stand, and text between them.
\<close>

definition untitled_text :: "(jstr \<Rightarrow> command option) \<Rightarrow> ast_node \<Rightarrow> bool" where
  "untitled_text names n \<longleftrightarrow> (case tree_of names n of None \<Rightarrow> False | Some t \<Rightarrow> untitled [t])"

fun setting :: "(jstr \<Rightarrow> command option) \<Rightarrow> ast_node \<Rightarrow> bool" where
  "setting names (AstTextNode _ _) = True"
| "setting names (AstCommandNode name None [ns] _) =
     ((case names name of None \<Rightarrow> False | Some cmd \<Rightarrow> is_setter cmd) \<and> list_all (untitled_text names) ns)"
| "setting names _ = False"

fun is_title_command :: "command \<Rightarrow> bool" where
  "is_title_command (JsFnCommand _ TitleFn) = True"
| "is_title_command _ = False"

fun is_author_command :: "command \<Rightarrow> bool" where
  "is_author_command (JsFnCommand _ AuthorFn) = True"
| "is_author_command _ = False"

text \<open>The argument of the last use of a command in a header, and what is read in the title that it sets.\<close>

fun last_argument ::
  "(command \<Rightarrow> bool) \<Rightarrow> (jstr \<Rightarrow> command option) \<Rightarrow> ast_node list \<Rightarrow> ast_node list \<Rightarrow> ast_node list" where
  "last_argument P names [] arg = arg"
| "last_argument P names (AstCommandNode name None [ns] _ # rest) arg =
     last_argument P names rest (case names name of None \<Rightarrow> arg | Some cmd \<Rightarrow> if P cmd then ns else arg)"
| "last_argument P names (_ # rest) arg = last_argument P names rest arg"

definition strings_of_source :: "(jstr \<Rightarrow> command option) \<Rightarrow> ast_node list \<Rightarrow> jstr list" where
  "strings_of_source names ns = concat (map (source_strings names []) ns)"

definition source_title :: "(jstr \<Rightarrow> command option) \<Rightarrow> ast_node list \<Rightarrow> jstr list" where
  "source_title names settings =
     strings_of_source names (last_argument is_title_command names settings []) @
     strings_of_source names (last_argument is_author_command names settings [])"

definition reads_source :: "(jstr \<Rightarrow> command option) \<Rightarrow> ast_node list \<Rightarrow> ltrf_obj list option \<Rightarrow> bool" where
  "reads_source names arg stored \<longleftrightarrow>
     (\<exists>es. stored = Some es \<and> untitled es \<and> strings_in [] es = strings_of_source names arg)"

lemma argument_reads:
  assumes "list_all (untitled_text names) ns" and "names = names_in (ev_heap s) (ctx_root c)"
  shows "\<exists>es. evaluateNodes c ns s = Some (Inr (es, s)) \<and> reads_source names ns (Some es)"
proof -
  have "\<exists>es. list_all2 (\<lambda>n t. tree_of names n = Some t) ns es \<and> untitled es" using assms(1)
  proof (induction ns)
    case (Cons n ns)
    then obtain t es where "tree_of names n = Some t" "untitled [t]"
      and "list_all2 (\<lambda>n t. tree_of names n = Some t) ns es" "untitled es"
      by (auto simp: untitled_text_def split: option.splits)
    then show ?case by (intro exI [of _ "t # es"]) (simp add: untitled_def all_below_def)
  qed (simp add: untitled_def)
  then obtain es where es: "list_all2 (\<lambda>n t. tree_of names n = Some t) ns es" and "untitled es" by blast
  from es have "strings_in [] es = strings_of_source names ns"
  proof (induction rule: list_all2_induct)
    case (Cons n ns t es)
    then show ?case using tree_of_strings [of names n t "[]"] strings_in_Cons [of "[]" t es]
      by (simp add: strings_of_source_def)
  qed (simp add: strings_of_source_def)
  moreover have "evaluateNodes c ns s = Some (Inr (es, s))"
    by (rule evaluateNodes_each, rule list_all2_mono [OF es]) (rule tree_of_evaluates [OF _ assms(2)])
  ultimately show ?thesis using \<open>untitled es\<close> by (auto simp: reads_source_def)
qed

text \<open>What is stored after the use of one of the commands, and after a header.\<close>

definition store_after :: "command \<Rightarrow> ltrf_obj list \<Rightarrow> file_store \<Rightarrow> file_store" where
  "store_after cmd es st = (if is_title_command cmd then st\<lparr>store_title := Some es\<rparr> else st\<lparr>store_author := Some es\<rparr>)"

lemma setter_stores:
  assumes "is_setter cmd" and "main_of s = Some st"
  shows "call_command c cmd \<lparr>keywordArgs = [], squareArgs = [], curlyArgs = [es]\<rparr> s =
    Some (Inr ([], with_main s (store_after cmd es st)))"
  using assms
  by (cases cmd rule: is_setter.cases)
    (simp_all add: with_main_def main_of_def on_storage_def call_js_fn_def set_main_fn_def act_bind_def
      act_simps getFileModuleStorage_def caOrErr_eq store_after_def)

lemma setter_kinds: "is_setter cmd \<Longrightarrow> is_author_command cmd \<longleftrightarrow> \<not> is_title_command cmd"
  by (cases cmd rule: is_setter.cases) simp_all

lemma setting_evaluates:
  assumes "setting names n" and "names = names_in (ev_heap s) (ctx_root c)" and "main_of s = Some st"
    and "reads_source names targ (store_title st)" and "reads_source names aarg (store_author st)"
  shows "\<exists>ss st'. evaluateNode c n s = Some (Inr (map LtrfStr ss, with_main s st')) \<and>
    reads_source names (last_argument is_title_command names [n] targ) (store_title st') \<and>
    reads_source names (last_argument is_author_command names [n] aarg) (store_author st')"
  using assms(1)
proof (cases rule: setting.cases [of "(names, n)"])
  case (1 names' str m)
  have "evaluateNode c n s = Some (Inr (map LtrfStr [str], with_main s st))"
    using 1 assms(3) by (simp add: evaluateTextNode_def act_simps with_main_same)
  with 1 assms(4,5) show ?thesis by fastforce
next
  case (2 names' name ns m)
  then have n: "n = AstCommandNode name None [ns] m" by simp
  with assms(1) obtain cmd where name: "names name = Some cmd" and set: "is_setter cmd"
    and arg: "list_all (untitled_text names) ns"
    by (auto split: option.splits)
  from argument_reads [OF arg assms(2)] obtain es where es: "evaluateNodes c ns s = Some (Inr (es, s))"
    and reads: "reads_source names ns (Some es)" by blast
  have eager: "argumentEvaluation cmd = Eager" using setter_call(1) [OF set assms(3)] .
  have "lookupCommand (ev_heap s) (ctx_root c) name = Inr cmd" using name assms(2) by simp
  then have "evaluateNode c n s = Some (Inr (map LtrfStr [], with_main s (store_after cmd es st)))"
    unfolding n by (simp add: evaluateCommandNode.simps ask_heap_def act_bind_def act_simps eager es
        setter_stores [OF set assms(3)])
  moreover have "reads_source names (last_argument is_title_command names [n] targ) (store_title (store_after cmd es st))"
    and "reads_source names (last_argument is_author_command names [n] aarg) (store_author (store_after cmd es st))"
    unfolding n using reads assms(4,5) setter_kinds [OF set] by (simp_all add: name store_after_def)
  ultimately show ?thesis by blast
qed simp_all

lemma last_argument_Cons: "last_argument P names (n # ns) arg = last_argument P names ns (last_argument P names [n] arg)"
  by (cases rule: last_argument.cases [of "(P, names, n # ns, arg)"]) simp_all

lemma settings_evaluate:
  assumes "list_all (setting names) settings" and "names = names_in (ev_heap s) (ctx_root c)" and "main_of s = Some st"
    and "reads_source names targ (store_title st)" and "reads_source names aarg (store_author st)"
  shows "\<exists>ss st'. evaluateNodes c settings s = Some (Inr (map LtrfStr ss, with_main s st')) \<and>
    reads_source names (last_argument is_title_command names settings targ) (store_title st') \<and>
    reads_source names (last_argument is_author_command names settings aarg) (store_author st')"
  using assms
proof (induction settings arbitrary: s st targ aarg)
  case Nil
  then have "evaluateNodes c [] s = Some (Inr (map LtrfStr [], with_main s st))"
    by (simp add: act_simps with_main_same)
  with Nil show ?case by fastforce
next
  case (Cons n ns)
  from setting_evaluates [of names n s c st targ aarg] Cons.prems obtain ss st1
    where first: "evaluateNode c n s = Some (Inr (map LtrfStr ss, with_main s st1))"
      and reads: "reads_source names (last_argument is_title_command names [n] targ) (store_title st1)"
        "reads_source names (last_argument is_author_command names [n] aarg) (store_author st1)"
    by auto
  from Cons.IH [of "with_main s st1" st1, OF _ _ _ reads] Cons.prems obtain ss2 st2
    where rest: "evaluateNodes c ns (with_main s st1) = Some (Inr (map LtrfStr ss2, with_main s st2))"
      and done2: "reads_source names (last_argument is_title_command names (n # ns) targ) (store_title st2)"
        "reads_source names (last_argument is_author_command names (n # ns) aarg) (store_author st2)"
    unfolding last_argument_Cons [of _ names n ns] by auto
  have "evaluateNodes c (n # ns) s = Some (Inr (map LtrfStr (ss @ ss2), with_main s st2))"
    using first rest by (simp add: act_bind_def act_simps)
  with done2 show ?case by blast
qed

text \<open>After the setup of a file nothing stands in its title, if nothing in it has set one.\<close>

lemma setup_store:
  assumes "std_ready ts h" and "makeEnvironmentWithStdCoreSetup u (std_registry ts) h
      (make_FileContext (std_registry ts)) = Inr (e, s0)"
    and "evaluateNodes e setup (s0\<lparr>ev_console := console\<rparr>) = Some (Inr (hs, s))"
    and "title_elems (ev_storage s) = []"
  obtains st where "main_of s = Some st" and "store_title st = Some []" and "store_author st = Some []"
proof -
  have start: "heap_ok h" "registry_ok (std_registry ts) (length h)" "std_namespaces h"
    using assms(1) by (simp_all add: std_ready_def)
  note env = makeEnvironment_inv [OF start(1,2) assms(2)]
  from stds.yieldsD [where c = e, OF std_evaluation(6) _ assms(3)] env std_storage_start [of ts]
    std_environment [OF start(3) assms(2)]
  have "std_storage (ev_storage s)" by simp
  then obtain st where st: "jmap_get (ev_storage s) main_name = Some st" and "std_store st"
    by (auto simp: std_storage_def split: option.splits)
  then obtain t a where "store_title st = Some t" "store_author st = Some a"
    by (auto simp: std_store_def split: option.splits)
  with st assms(4) that show thesis by (simp add: title_elems_def main_of_def)
qed

text \<open>The evaluation of a file: the setup, the header, the document and blank text.\<close>

lemma evaluate_file:
  assumes "makeEnvironmentWithStdCoreSetup u reg h st0 = Inr (e, s0)"
    and "evaluateNodes e setup (s0\<lparr>ev_console := ev_console s0 @
      warnUserOfIssuesWithRootNode (setup @ settings @ doc # blanks)\<rparr>) = Some (Inr (hs, s))"
    and "evaluateNodes e settings s = Some (Inr (map LtrfStr ss, s'))"
    and "tree_of (names_in (ev_heap s') (ctx_root e)) doc = Some t"
    and "evaluateNodes e blanks s' = Some (Inr (bs, s'))"
  shows "evaluatePass u reg h st0 (AstRootNode (setup @ settings @ doc # blanks) m) =
    Some (Inr (Nd (LtrfNode (js ''__root'') [] (hs @ map LtrfStr ss @ t # bs)), s'))"
  using assms tree_of_evaluates [OF assms(4) refl]
  by (simp add: evaluatePass_single evaluateNodes_append act_bind_def act_simps)

lemma document_line:
  assumes "std_ready ts h" and "evaluatePass u (std_registry ts) h (make_FileContext (std_registry ts)) parsed =
      Some (Inr (Nd n, s))"
    and "processPass n = Inr r" and "t \<in> set (node_elems n)" and "tree_of names doc = Some t"
    and "reads_line a b doc" and "\<not> isWhitespace a" and "\<not> isWhitespace b"
  shows "sublist [a, space, b] (strings_of T r)"
proof -
  from tree_of_line [OF assms(5,6)] obtain d where t: "t = Nd d"
    and d: "holds_line {title_tag} (line a newline b) d" by blast
  from assms(1,2) obtain es where n: "n = ltrf_make ROOT_TAG_EVAL [] es" and "all_below std_made es"
    by (rule std_evaluated)
  with assms(4) have "all_nodes std_made d" by (auto simp: t all_below_iff ltrf_make_def)
  then have "all_nodes (\<lambda>m. node_tag m \<notin> {BREAK_MARKER_TAG, PARAGRAPH_TAG}) d"
    by (rule all_nodes_mono) (auto simp: std_made_def command_tags_def tag_defs)
  with d have "holds_line no_line_tags (line a newline b) d"
    using holds_line_avoids [of "{title_tag}" "line a newline b" d "{BREAK_MARKER_TAG, PARAGRAPH_TAG}"]
    by (simp add: insert_commute)
  moreover have "node_tag n \<noteq> title_tag" by (simp add: n ltrf_make_def ROOT_TAG_EVAL_def title_tag_def)
  ultimately show ?thesis using processed_line [OF assms(3)] assms(4,7,8) t by simp
qed

text \<open>
  C3: from the source to the page.  A file first sets up its names in any way that leaves no text but blanks,
  then sets its title and author, and then contains a document of marked-up text.  The text of the html page
  is a sequence of strings, each encoded, of which the ones that are not blank are exactly those of the document in
  the source, each once and in their order, with the strings of the title and the author that the header
  sets last in the place of each \<^verbatim>\<open>maketitle\<close>; and where a single newline separates two texts in the source, the page
  shows one space between them.
\<close>

theorem html_shows_source:
  assumes "std_ready ts h" and "html \<in> set ts" and "ci_targetLanguage c = html"
    and "\<forall>s t. ho_heEncode H s = Inr t \<longrightarrow> plain_text t"
    and "compile_text H fuel (std_registry ts) c buf h = Some (Inr ((output, files), h'))"
    and "co_dbgParsed output = AstRootNode (setup @ settings @ doc # blanks) m"
    and "makeEnvironmentWithStdCoreSetup (ho_user H) (std_registry ts) h
      (make_FileContext (std_registry ts)) = Inr (e, s0)"
    and "evaluateNodes e setup (s0\<lparr>ev_console := ev_console s0 @
      warnUserOfIssuesWithRootNode (setup @ settings @ doc # blanks)\<rparr>) = Some (Inr (hs, s))"
    and "all_below (\<lambda>_. False) hs" and "title_elems (ev_storage s) = []"
    and "names = names_in (ev_heap s) (ctx_root e)"
    and "list_all (setting names) settings" and "tree_of names doc = Some t"
    and "list_all is_blank_text blanks"
  shows "\<exists>ss es. list_all2 (\<lambda>s e. ho_heEncode H s = Inr e) ss es \<and>
    visible (co_dbgOutputted output) = concat es \<and>
    words ss = words (source_strings names (source_title names settings) doc) \<and>
    (\<forall>a b. reads_line a b doc \<and> \<not> isWhitespace a \<and> \<not> isWhitespace b \<longrightarrow> sublist [a, space, b] ss)"
proof -
  let ?T = "source_title names settings"
  from assms(1,7,8,10) obtain st where st: "main_of s = Some st"
    and none: "store_title st = Some []" "store_author st = Some []"
    by (rule setup_store)
  have "reads_source names [] (store_title st)" and "reads_source names [] (store_author st)"
    by (simp_all add: none reads_source_def untitled_def strings_of_source_def)
  from settings_evaluate [OF assms(12,11) st this] obtain us st'
    where header: "evaluateNodes e settings s = Some (Inr (map LtrfStr us, with_main s st'))"
      and "reads_source names (last_argument is_title_command names settings []) (store_title st')"
      and "reads_source names (last_argument is_author_command names settings []) (store_author st')" by blast
  then obtain ti au where store: "store_title st' = Some ti" "store_author st' = Some au"
    and "untitled ti" "untitled au" and strings: "strings_in [] ti @ strings_in [] au = ?T"
    by (auto simp: reads_source_def source_title_def)
  moreover from store have elems: "title_elems (ev_storage (with_main s st')) = ti @ au"
    by (simp add: title_elems_def with_main_def jm.get_set)
  ultimately have titled: "untitled (title_elems (ev_storage (with_main s st')))"
    and T: "?T = title_strings (ev_storage (with_main s st'))"
    by (simp_all add: untitled_def title_strings_def)
  from evaluate_blank [OF assms(14)] obtain ss where ss: "list_all isWhitespace ss"
    and blanks: "evaluateNodes e blanks (with_main s st') = Some (Inr (map LtrfStr ss, with_main s st'))"
    by blast
  let ?n = "LtrfNode (js ''__root'') [] (hs @ map LtrfStr us @ t # map LtrfStr ss)"
  have eval: "evaluatePass (ho_user H) (std_registry ts) h (make_FileContext (std_registry ts))
      (co_dbgParsed output) = Some (Inr (Nd ?n, with_main s st'))"
    unfolding assms(6) by (rule evaluate_file [OF assms(7,8) header _ blanks]) (use assms(11,13) in simp)
  note page = compiled_html_text [OF assms(1-5) eval titled T refl]
  from page(1) have "root_ok ?n" by (auto simp: processPass_eq bindR_eq_Inr_iff processRoot_Inr)
  then have "list_all (ltrfObjLift isWhitespace (\<lambda>n. node_tag n = DOC_TAG)) hs" and us: "list_all isWhitespace us"
    by (simp_all add: root_ok_def list.pred_map comp_def)
  from root_strings [OF assms(9) this(1)] words_blank [OF us]
  have "words (strings_of ?T ?n) = words (source_strings names ?T doc)"
    using strings_in_Cons [of ?T t "map LtrfStr ss"] tree_of_strings [OF assms(13), of ?T]
    by (simp add: strings_of_eq title_tag_def words_blank [OF ss])
  moreover have "sublist [a, space, b] (strings_of ?T (co_dbgProcessed output))"
    if "reads_line a b doc" "\<not> isWhitespace a" "\<not> isWhitespace b" for a b
    by (rule document_line [OF assms(1) eval page(1) _ assms(13) that]) simp
  ultimately show ?thesis using page(2,3) by auto
qed

end
