(* ===== verification/SampleDocument.thy ===== *)
theory SampleDocument
  imports StdRendering History
begin

text \<open>
  A document compiled to LaTeX with the standard modules, in a file system in memory: the
  concrete input on which the theorems about compilations are applied.
\<close>

section \<open>The document and its surroundings\<close>

definition sample_doc :: ast_node where
  "sample_doc = AstRootNode [AstCommandNode (js ''__doc'') None
     [[AstTextNode (js ''a'') sample_meta]] sample_meta] sample_meta"

definition sample_disk :: memory where
  "sample_disk = [(js ''/a.lap'', [97]),
     (js ''/lapol/deps-lapol/lapol_default_article.cls'', [1]),
     (js ''/lapol/deps-lapol/lapol_default.sty'', [2])]"

definition sample_host :: "memory host" where
  "sample_host = \<lparr>ho_fs = memory_fs (\<lambda>_. False), ho_parse_file = (\<lambda>_ _. Inr sample_doc),
     ho_user = sample_user, ho_outputters = no_user_outputters, ho_paths = sample_libs,
     ho_lapolFolder = Some (new_LaPath sample_libs (js ''/lapol'') None), ho_heEncode = Inr\<rparr>"

definition sample_input :: compile_input where
  "sample_input = compile_input_for sample_libs (new_LaPath sample_libs (js ''/a.lap'') None)
     sample_folder (js ''a.tex'') latex"

lemma sample_b_targets: "b_targets (withTargets [latex] new_LapolCompilerBuilder) = [latex]"
  by (simp add: withTargets_def withModule_def new_LapolCompilerBuilder_def)

lemma sample_ready: "std_ready [latex] (std_heap [latex])"
  using std_ready_start [of "[latex]"] by (simp add: sample_b_targets)

section \<open>Its compilation\<close>

definition sample_evaluated :: ltrf_node where
  "sample_evaluated = LtrfNode (js ''__root'') []
     [Nd (LtrfNode (js ''__doc'') [] [LtrfStr (js ''a'')])]"

lemma sample_evaluation:
  "\<exists>s. evaluatePass sample_user (std_registry [latex]) (std_heap [latex])
      (make_FileContext (std_registry [latex])) sample_doc = Some (Inr (Nd sample_evaluated, s)) \<and>
    ev_storage s = make_FileContext (std_registry [latex])"
proof -
  have "case evaluatePass sample_user (std_registry [latex]) (std_heap [latex])
      (make_FileContext (std_registry [latex])) sample_doc of
      Some (Inr (x, s)) \<Rightarrow> x = Nd sample_evaluated \<and> ev_storage s = make_FileContext (std_registry [latex])
    | _ \<Rightarrow> False"
    by code_simp
  then show ?thesis by (auto split: option.splits sum.splits)
qed

lemma sample_processing: "processPass sample_evaluated = Inr sample_evaluated"
  by code_simp

lemma sample_storage: "make_FileContext (std_registry [latex]) =
    [(js ''std::core'', plain_store (js ''std::core'')), (main_name, main_instance),
     (js ''std::core::latex_output'', plain_store (js ''std::core::latex_output'')),
     (js ''std::main::latex_output'', plain_store (js ''std::main::latex_output''))]"
  by code_simp

text \<open>The code of the document.\<close>

definition sample_code :: jstr where
  "sample_code = tex ''documentclass{deps/lapol_default_article}'' @ newline @
     tex ''usepackage{deps/lapol_default}'' @ newline @
     js ''% Debugging help:'' @ newline @
     js ''% Trick TeXstudio into loading the commands defined in this file.'' @ newline @
     tex ''begin{mcommenthack}'' @ newline @
     js ''  '' @ tex ''input{deps/lapol_default_article.cls}'' @ newline @
     js ''  '' @ tex ''input{deps/lapol_default.sty}'' @ newline @
     tex ''end{mcommenthack}'' @ newline @
     tex ''title{}'' @ tex ''author{}'' @ tex ''date{Compiled on '' @ tex ''today}'' @
     tex ''begin{document}'' @ newline @ newline @ js ''a'' @ newline @ newline @ tex ''end{document}''"

definition sample_files :: required_files where
  "sample_files = [(js ''deps/lapol_default_article.cls'',
       new_LaPath sample_libs (js ''/lapol/deps-lapol/lapol_default_article.cls'') None),
     (js ''deps/lapol_default.sty'', new_LaPath sample_libs (js ''/lapol/deps-lapol/lapol_default.sty'') None)]"

lemma sample_output:
  "case outputPass 4 (output_ctx sample_host (std_registry [latex]) latex LatexStringOutputter)
      sample_evaluated \<lparr>os_lazyNodeOutputters = [], os_files = [],
        os_storage = make_FileContext (std_registry [latex])\<rparr> of
     Some (Inr (code, s)) \<Rightarrow> code = sample_code \<and> os_files s = sample_files
   | _ \<Rightarrow> False"
  by code_simp

definition sample_compiled :: compile_output where
  "sample_compiled = \<lparr>co_dbgInputText = [97], co_dbgParsed = sample_doc,
     co_dbgEvaluated = Nd sample_evaluated, co_dbgProcessed = sample_evaluated,
     co_dbgOutputted = sample_code\<rparr>"

lemma sample_dispatcher:
  "makeOutputDispatcher (std_registry [latex]) latex = Inr ([], LatexStringOutputter)"
  using std_retrieve(2) [of latex "[latex]"]
  by (simp add: makeOutputDispatcher_def std_strings_of_def html_not_latex)

lemma sample_compilation:
  "\<exists>h. compile_text sample_host 4 (std_registry [latex]) sample_input [97] (std_heap [latex]) =
    Some (Inr ((sample_compiled, sample_files), h))"
proof -
  obtain s where eval: "evaluatePass sample_user (std_registry [latex]) (std_heap [latex])
      (make_FileContext (std_registry [latex])) sample_doc = Some (Inr (Nd sample_evaluated, s))"
    and storage: "ev_storage s = make_FileContext (std_registry [latex])"
    using sample_evaluation by blast
  from sample_output obtain os where out: "outputPass 4 (output_ctx sample_host (std_registry [latex])
      latex LatexStringOutputter) sample_evaluated \<lparr>os_lazyNodeOutputters = [], os_files = [],
        os_storage = make_FileContext (std_registry [latex])\<rparr> = Some (Inr (sample_code, os))"
    and files: "os_files os = sample_files"
    by (auto split: option.splits sum.splits)
  have "compile_text sample_host 4 (std_registry [latex]) sample_input [97] (std_heap [latex]) =
      Some (Inr ((sample_compiled, sample_files), ev_heap s))"
    by (rule compile_text_Inr [THEN iffD2])
      (use eval storage out files sample_processing sample_dispatcher in
        \<open>auto simp: sample_host_def sample_doc_def sample_input_def compile_input_for_def sample_compiled_def\<close>)
  then show ?thesis ..
qed

text \<open>The files that are copied, in an order in which the copies interleave.\<close>

definition sample_copied :: "(la_path \<times> la_path) list" where
  "sample_copied = copies_of sample_libs sample_folder sample_files"

lemma sample_compile:
  "\<exists>h w. compile sample_host 4 [1, 0, 0, 1] (std_registry [latex]) sample_input (std_heap [latex])
      sample_disk = Some (Inr sample_compiled, h, w)"
proof -
  obtain h where compiled: "compile_text sample_host 4 (std_registry [latex]) sample_input [97]
      (std_heap [latex]) = Some (Inr ((sample_compiled, sample_files), h))"
    using sample_compilation ..
  have input: "readFileBuffer (ho_fs sample_host) (ci_inputFilePath sample_input) sample_disk =
      (Inr [97], sample_disk)"
    by code_simp
  have path: "lp_fullPath (ci_outputFilePath sample_input) = js ''/out/a.tex''" by code_simp
  let ?w2 = "sample_disk @ [(js ''/out/a.tex'', memory_encode sample_code)]"
  have "write": "writeFile (ho_fs sample_host) (ci_outputFilePath sample_input) sample_code
      sample_disk = (Inr (), ?w2)"
    by (simp add: writeFile_def io_bind_def path sample_host_def memory_fs_def memory_write_def
        sample_disk_def)
  have "copies_outcome (run_copies (ho_fs sample_host) [1, 0, 0, 1] (start_copies
      (sample_disk @ [(js ''/out/a.tex'', b)])
      (copies_of (ho_paths sample_host) (ci_outputFolder sample_input) sample_files))) = Some (Inr ())" for b
    by code_simp
  with input "write" compiled show ?thesis
    by (simp add: compile_def Let_def) (simp add: sample_compiled_def)
qed

section \<open>Witnesses\<close>

theorem compile_writes_output_witness:
  "\<exists>h w. compile sample_host 4 [1, 0, 0, 1] (std_registry [latex]) sample_input (std_heap [latex])
      sample_disk = Some (Inr sample_compiled, h, w) \<and>
    jmap_get w (js ''/out/a.tex'') = Some (memory_encode sample_code)"
proof -
  obtain h w where run: "compile sample_host 4 [1, 0, 0, 1] (std_registry [latex]) sample_input
      (std_heap [latex]) sample_disk = Some (Inr sample_compiled, h, w)"
    using sample_compile by blast
  have fs: "ho_fs sample_host = memory_fs (\<lambda>_. False)" by (simp add: sample_host_def)
  from compile_writes_output [of sample_host memory_encode jmap_get, OF _ run]
  obtain files h' where compiled: "compile_text sample_host 4 (std_registry [latex]) sample_input
      (co_dbgInputText sample_compiled) (std_heap [latex]) = Some (Inr ((sample_compiled, files), h'))"
    and "copies_apart (copies_of (ho_paths sample_host) (ci_outputFolder sample_input) files) \<Longrightarrow>
      lp_fullPath (ci_outputFilePath sample_input) \<notin>
        set (target_paths (copies_of (ho_paths sample_host) (ci_outputFolder sample_input) files)) \<Longrightarrow>
      jmap_get w (lp_fullPath (ci_outputFilePath sample_input)) =
        Some (memory_encode (co_dbgOutputted sample_compiled))"
    by (auto simp: fs memory_documented Let_def)
  moreover from compiled sample_compilation have "files = sample_files"
    by (auto simp: sample_compiled_def)
  moreover have "copies_apart (copies_of (ho_paths sample_host) (ci_outputFolder sample_input) sample_files)"
    and "lp_fullPath (ci_outputFilePath sample_input) \<notin>
      set (target_paths (copies_of (ho_paths sample_host) (ci_outputFolder sample_input) sample_files))"
    and "lp_fullPath (ci_outputFilePath sample_input) = js ''/out/a.tex''"
    by code_simp+
  ultimately have "jmap_get w (js ''/out/a.tex'') = Some (memory_encode sample_code)"
    by (simp add: sample_compiled_def)
  with run show ?thesis by blast
qed

text \<open>A compiler that has rendered the document.\<close>

lemma sample_life:
  obtains cc s h w where "build (std_builder sample_folder [latex]) [] = (Inr cc, s)"
    and "(compiler_step sample_host cc)\<^sup>*\<^sup>* (ls_heap s, sample_disk) (h, w)"
proof -
  obtain cc s where run: "build (std_builder sample_folder [latex]) [] = (Inr cc, s)"
    and cc: "cc = \<lparr>lc_registry = std_registry [latex], lc_outputFolder = sample_folder\<rparr>"
    and heap: "ls_heap s = std_heap [latex]"
    using std_build [of sample_folder "[latex]"] by (auto simp: sample_b_targets)
  obtain h w where "compile sample_host 4 [1, 0, 0, 1] (std_registry [latex]) sample_input
      (std_heap [latex]) sample_disk = Some (Inr sample_compiled, h, w)"
    using sample_compile by blast
  then have "compiler_render sample_host 4 [1, 0, 0, 1] cc (new_LaPath sample_libs (js ''/a.lap'') None)
      (js ''a.tex'') latex (ls_heap s) sample_disk = Some (Inr (), h, w)"
    by (simp add: compiler_render_def render_def cc heap sample_input_def) (simp add: sample_host_def)
  then have "compiler_step sample_host cc (ls_heap s, sample_disk) (h, w)" by (rule step_render)
  with run that show thesis by blast
qed

lemma sample_host_returns: "user_code_returns (ho_user sample_host)"
  by (simp add: sample_host_def sample_user_returns)

theorem rendering_independent_of_history_witness:
  "\<exists>cc s h w. build (std_builder sample_folder [latex]) [] = (Inr cc, s) \<and>
    (compiler_step sample_host cc)\<^sup>*\<^sup>* (ls_heap s, sample_disk) (h, w) \<and>
    effect (compile sample_host 4 [0, 1, 0, 1] (lc_registry cc) sample_input h w) =
    effect (compile sample_host 4 [0, 1, 0, 1] (lc_registry cc) sample_input (ls_heap s) w)"
proof -
  obtain cc s h w where run: "build (std_builder sample_folder [latex]) [] = (Inr cc, s)"
    and reach: "(compiler_step sample_host cc)\<^sup>*\<^sup>* (ls_heap s, sample_disk) (h, w)"
    by (rule sample_life)
  have "heap_ok []" by (simp add: heap_ok_def)
  from rendering_independent_of_history [OF sample_host_returns this run reach] run reach show ?thesis
    by blast
qed

theorem std_document_tags_witness:
  "all_nodes (\<lambda>m. node_tag m \<in> std_tags) sample_evaluated"
proof -
  obtain s where "evaluatePass sample_user (std_registry [latex]) (std_heap [latex])
      (make_FileContext (std_registry [latex])) sample_doc = Some (Inr (Nd sample_evaluated, s))"
    using sample_evaluation by blast
  from std_document_tags [OF sample_ready this sample_processing] show ?thesis ..
qed

theorem std_document_renders_witness:
  "\<exists>bound. \<forall>fuel \<ge> bound. \<exists>out h. compile_text sample_host fuel (std_registry [latex]) sample_input [97]
    (std_heap [latex]) = Some (Inr (out, h))"
proof -
  obtain s where eval: "evaluatePass (ho_user sample_host) (std_registry [latex]) (std_heap [latex])
      (make_FileContext (std_registry [latex])) (AstRootNode [AstCommandNode (js ''__doc'') None
        [[AstTextNode (js ''a'') sample_meta]] sample_meta] sample_meta) =
      Some (Inr (Nd sample_evaluated, s))"
    using sample_evaluation by (auto simp: sample_host_def sample_doc_def)
  have root: "root_ok sample_evaluated" by code_simp
  have lib: "native_lib (ho_paths sample_host) = posix (js ''/'')"
    by (simp add: sample_host_def sample_libs_def)
  have host: "ho_lapolFolder sample_host = Some (new_LaPath sample_libs (js ''/lapol'') None)"
    and target: "ci_targetLanguage sample_input = latex"
    and parse: "ho_parse_file sample_host (lp_fullPath (ci_inputFilePath sample_input)) [97] =
      Inr (AstRootNode [AstCommandNode (js ''__doc'') None
        [[AstTextNode (js ''a'') sample_meta]] sample_meta] sample_meta)"
    by (simp_all add: sample_host_def sample_input_def compile_input_for_def sample_doc_def)
  from std_document_renders [OF sample_ready _ _ host lib target sample_host_returns parse]
  have "\<exists>bound. \<forall>fuel \<ge> bound. case compile_text sample_host fuel (std_registry [latex])
      sample_input [97] (std_heap [latex]) of None \<Rightarrow> False
      | Some (Inl e) \<Rightarrow> latex = html \<and> (\<exists>t. ho_heEncode sample_host t = Inl e)
      | Some (Inr (_, h')) \<Rightarrow> std_ready [latex] h'"
    by (simp add: eval root)
  then obtain bound where bound: "\<And>fuel. fuel \<ge> bound \<Longrightarrow> case compile_text sample_host fuel
      (std_registry [latex]) sample_input [97] (std_heap [latex]) of None \<Rightarrow> False
      | Some (Inl e) \<Rightarrow> latex = html \<and> (\<exists>t. ho_heEncode sample_host t = Inl e)
      | Some (Inr (_, h')) \<Rightarrow> std_ready [latex] h'"
    by blast
  have "\<exists>out h. compile_text sample_host fuel (std_registry [latex]) sample_input [97]
      (std_heap [latex]) = Some (Inr (out, h))" if "fuel \<ge> bound" for fuel
    using bound [OF that] by (auto simp: html_not_latex split: option.splits sum.splits)
  then show ?thesis by blast
qed

end
