(* ===== verification/SampleOverlap.thy ===== *)
theory SampleOverlap
  imports SampleDocument OverlapDisk
begin

text \<open>
  Two renderings of the document that overlap: to different output files of one folder, so that
  both copy the same files there.
\<close>

section \<open>The jobs\<close>

definition second_input :: compile_input where
  "second_input = compile_input_for sample_libs (new_LaPath sample_libs (js ''/a.lap'') None)
     sample_folder (js ''b.tex'') latex"

text \<open>The code does not depend on the name of the output file.\<close>

lemma second_compile_text:
  "compile_text sample_host fuel reg second_input buf h = compile_text sample_host fuel reg sample_input buf h"
  by (simp add: compile_text_def second_input_def sample_input_def compile_input_for_def)

lemma sample_paths:
  "input_path sample_input = js ''/a.lap''" "input_path second_input = js ''/a.lap''"
  "output_path sample_input = js ''/out/a.tex''" "output_path second_input = js ''/out/b.tex''"
  by code_simp+

lemma sample_copies_for:
  "map (\<lambda>(src, tgt). (lp_fullPath src, lp_fullPath tgt)) (copies_for sample_host sample_input sample_files) =
     [(js ''/lapol/deps-lapol/lapol_default_article.cls'', js ''/out/deps/lapol_default_article.cls''),
      (js ''/lapol/deps-lapol/lapol_default.sty'', js ''/out/deps/lapol_default.sty'')]"
  "copies_for sample_host second_input sample_files = copies_for sample_host sample_input sample_files"
  by code_simp+

abbreviation sample_jobs :: "compile_input list" where
  "sample_jobs \<equiv> [sample_input, second_input]"

lemma sample_plan:
  "c \<in> set sample_jobs \<Longrightarrow>
   plan_of sample_host 4 (std_registry [latex]) (std_heap [latex]) (jmap_get sample_disk) c =
     Some (sample_compiled, sample_files)"
proof -
  obtain h where "compile_text sample_host 4 (std_registry [latex]) sample_input [97] (std_heap [latex]) =
      Some (Inr ((sample_compiled, sample_files), h))"
    using sample_compilation ..
  moreover have "jmap_get sample_disk (js ''/a.lap'') = Some [97]" by (simp add: sample_disk_def)
  moreover assume "c \<in> set sample_jobs"
  ultimately show ?thesis by (auto simp: plan_of_def sample_paths second_compile_text)
qed

text \<open>What they write: each its code, and both the same files from the same sources.\<close>

definition sample_writes :: "buffer option \<Rightarrow> (jstr \<times> buffer option) list" where
  "sample_writes code =
     [(js ''/out/a.tex'', code),
      (js ''/out/deps/lapol_default_article.cls'', Some [1]), (js ''/out/deps/lapol_default.sty'', Some [2]),
      (js ''/out/b.tex'', code),
      (js ''/out/deps/lapol_default_article.cls'', Some [1]), (js ''/out/deps/lapol_default.sty'', Some [2])]"

lemma sample_writes_of:
  assumes "c \<in> set sample_jobs"
  shows "writes_of sample_host memory_encode (jmap_get sample_disk) c (sample_compiled, sample_files) =
    [(output_path c, Some (memory_encode sample_code)),
     (js ''/out/deps/lapol_default_article.cls'', Some [1]), (js ''/out/deps/lapol_default.sty'', Some [2])]"
    and "sources_of sample_host c (sample_compiled, sample_files) =
      [js ''/lapol/deps-lapol/lapol_default_article.cls'', js ''/lapol/deps-lapol/lapol_default.sty'']"
proof -
  have same: "copies_for sample_host c sample_files = copies_for sample_host sample_input sample_files"
    using assms sample_copies_for(2) by auto
  have disk: "jmap_get sample_disk (js ''/lapol/deps-lapol/lapol_default_article.cls'') = Some [1]"
    "jmap_get sample_disk (js ''/lapol/deps-lapol/lapol_default.sty'') = Some [2]"
    by code_simp+
  have eq: "map (\<lambda>(src, tgt). (lp_fullPath tgt, jmap_get sample_disk (lp_fullPath src))) copies =
      map (\<lambda>(src, tgt). (tgt, jmap_get sample_disk src))
        (map (\<lambda>(src, tgt). (lp_fullPath src, lp_fullPath tgt)) copies)"
    and sources: "map (\<lambda>(src, tgt). lp_fullPath src) copies =
      map fst (map (\<lambda>(src, tgt). (lp_fullPath src, lp_fullPath tgt)) copies)" for copies
    by (simp_all add: split_beta)
  have "map (\<lambda>(src, tgt). (lp_fullPath tgt, jmap_get sample_disk (lp_fullPath src)))
      (copies_for sample_host c sample_files) =
    [(js ''/out/deps/lapol_default_article.cls'', Some [1]), (js ''/out/deps/lapol_default.sty'', Some [2])]"
    unfolding same eq sample_copies_for(1) by (simp add: disk)
  then show "writes_of sample_host memory_encode (jmap_get sample_disk) c (sample_compiled, sample_files) =
    [(output_path c, Some (memory_encode sample_code)),
     (js ''/out/deps/lapol_default_article.cls'', Some [1]), (js ''/out/deps/lapol_default.sty'', Some [2])]"
    by (simp add: writes_of_def) (simp add: sample_compiled_def)
  show "sources_of sample_host c (sample_compiled, sample_files) =
      [js ''/lapol/deps-lapol/lapol_default_article.cls'', js ''/lapol/deps-lapol/lapol_default.sty'']"
    unfolding sources_of_def snd_conv same sources sample_copies_for(1) by simp
qed

lemma sample_harmonious:
  "harmonious
    (all_writes sample_host 4 (std_registry [latex]) memory_encode (std_heap [latex]) (jmap_get sample_disk) sample_jobs)
    (all_reads sample_host 4 (std_registry [latex]) (std_heap [latex]) (jmap_get sample_disk) sample_jobs)"
proof -
  have "all_writes sample_host 4 (std_registry [latex]) memory_encode (std_heap [latex])
      (jmap_get sample_disk) sample_jobs = sample_writes (Some (memory_encode sample_code))"
    by (simp add: all_writes_def sample_plan sample_writes_of(1) sample_paths sample_writes_def)
  moreover have "all_reads sample_host 4 (std_registry [latex]) (std_heap [latex])
      (jmap_get sample_disk) sample_jobs =
      [js ''/a.lap'', js ''/lapol/deps-lapol/lapol_default_article.cls'', js ''/lapol/deps-lapol/lapol_default.sty'',
       js ''/a.lap'', js ''/lapol/deps-lapol/lapol_default_article.cls'', js ''/lapol/deps-lapol/lapol_default.sty'']"
    by (simp add: all_reads_def sample_plan sample_writes_of(2) sample_paths)
  moreover have "harmonious (sample_writes code)
      [js ''/a.lap'', js ''/lapol/deps-lapol/lapol_default_article.cls'', js ''/lapol/deps-lapol/lapol_default.sty'',
       js ''/a.lap'', js ''/lapol/deps-lapol/lapol_default_article.cls'', js ''/lapol/deps-lapol/lapol_default.sty'']"
    for code by code_simp
  ultimately show ?thesis by simp
qed

section \<open>A run\<close>

text \<open>Both read, both evaluate, and then their writes and copies alternate.\<close>

lemma overlap_turn_eq:
  assumes "i < length (ol_jobs st)"
    and "job_turn H fuel reg (jb_input (ol_jobs st ! i)) k (jb_phase (ol_jobs st ! i)) (ol_heap st) (ol_world st) =
      Some (p, h, w)"
  shows "overlap_turns H fuel reg ((i, k) # sched) st = overlap_turns H fuel reg sched
    \<lparr>ol_heap = h, ol_world = w, ol_jobs = (ol_jobs st)[i := (ol_jobs st ! i)\<lparr>jb_phase := p\<rparr>]\<rparr>"
  using assms by (simp add: overlap_turns_def)

lemma overlap_turns_Nil: "overlap_turns H fuel reg [] st = st"
  by (simp add: overlap_turns_def)

definition sample_overlap :: "ns_heap \<Rightarrow> job_phase \<Rightarrow> job_phase \<Rightarrow> memory overlap" where
  "sample_overlap h p q = \<lparr>ol_heap = h, ol_world = sample_disk,
     ol_jobs = [\<lparr>jb_input = sample_input, jb_phase = p\<rparr>, \<lparr>jb_input = second_input, jb_phase = q\<rparr>]\<rparr>"

lemma sample_reads:
  "readFileBuffer (ho_fs sample_host) (ci_inputFilePath sample_input) sample_disk = (Inr [97], sample_disk)"
  "readFileBuffer (ho_fs sample_host) (ci_inputFilePath second_input) sample_disk = (Inr [97], sample_disk)"
  by code_simp+

lemma sample_evaluations:
  obtains h1 h2 where "compile_text sample_host 4 (std_registry [latex]) sample_input [97] (std_heap [latex]) =
      Some (Inr ((sample_compiled, sample_files), h1))"
    and "compile_text sample_host 4 (std_registry [latex]) second_input [97] h1 =
      Some (Inr ((sample_compiled, sample_files), h2))"
proof -
  let ?reg = "std_registry [latex]" and ?h = "std_heap [latex]"
  obtain cc s where run: "build (std_builder sample_folder [latex]) [] = (Inr cc, s)"
    and cc: "cc = \<lparr>lc_registry = ?reg, lc_outputFolder = sample_folder\<rparr>" and heap: "ls_heap s = ?h"
    using std_build [of sample_folder "[latex]"] by (auto simp: sample_b_targets)
  have "heap_ok ([] :: ns_heap)" by (simp add: heap_ok_def)
  from compiler_steps_heap [OF sample_host_returns this run rtranclp.rtrancl_refl] cc heap
  have kept: "modules_kept ?reg ?h ?h" by (simp add: modules_kept_def)
  obtain h1 where first: "compile_text sample_host 4 ?reg sample_input [97] ?h =
      Some (Inr ((sample_compiled, sample_files), h1))"
    using sample_compilation ..
  note kept1 = compile_text_modules [OF sample_host_returns kept first]
  from compile_text_alone [OF kept1, of sample_host 4 second_input "[97]"] first
  obtain h2 where "compile_text sample_host 4 ?reg second_input [97] h1 =
      Some (Inr ((sample_compiled, sample_files), h2))"
    by (auto simp: second_compile_text option.rel_sel rel_sum.simps)
  with first that show thesis by blast
qed

definition sample_schedule :: "(nat \<times> nat) list" where
  "sample_schedule = [(1, 0), (0, 0), (0, 0), (1, 0),
     (0, 0), (1, 1), (1, 0), (0, 0), (0, 1), (1, 1), (1, 0), (0, 1)]"

text \<open>When the schedule is over, both have made all their copies.\<close>

definition all_copied :: "'w overlap \<Rightarrow> bool" where
  "all_copied st \<longleftrightarrow> list_all (\<lambda>j. case jb_phase j of
       Copying out ts rej \<Rightarrow> rej = None \<and> list_all (\<lambda>t. ct_phase t = Copied) ts
     | _ \<Rightarrow> False) (ol_jobs st)"

lemma all_copied_resolved: "all_copied st \<Longrightarrow> all_resolved fs view st"
  by (auto simp: all_copied_def all_resolved_def list_all_iff dest!: bspec split: job_phase.splits)

lemma all_copied_done:
  assumes "all_copied st" and "i < length (ol_jobs st)"
  obtains out where "job_outcome (jb_phase (ol_jobs st ! i)) = Some (Inr out)"
    and "job_output (jb_phase (ol_jobs st ! i)) = Some out"
proof -
  from assms have "case jb_phase (ol_jobs st ! i) of
       Copying out ts rej \<Rightarrow> rej = None \<and> list_all (\<lambda>t. ct_phase t = Copied) ts
     | _ \<Rightarrow> False"
    by (simp add: all_copied_def list_all_length)
  with that show thesis
    by (cases "jb_phase (ol_jobs st ! i)") (auto simp: copies_outcome_def list_all_iff)
qed

lemma two_jobs_copy:
  assumes fs: "ho_fs sample_host = memory_fs (\<lambda>_. False)"
    and copies: "copies_of (ho_paths sample_host) (ci_outputFolder sample_input) sample_files = [(s1, t1), (s2, t2)]"
      "copies_of (ho_paths sample_host) (ci_outputFolder second_input) sample_files = [(s1, t1), (s2, t2)]"
    and "distinct [output_path sample_input, output_path second_input, lp_fullPath s1, lp_fullPath s2,
      lp_fullPath t1, lp_fullPath t2]"
    and "jmap_get sample_disk (lp_fullPath s1) = Some b1" "jmap_get sample_disk (lp_fullPath s2) = Some b2"
  shows "all_copied (overlap_turns sample_host 4 reg sample_schedule
    (sample_overlap h (MakingFolder out sample_files) (MakingFolder out' sample_files)))"
  using assms(4-6)
  by (simp add: overlap_turn_eq overlap_turns_Nil sample_schedule_def sample_overlap_def all_copied_def fs
      copies memory_fs_def memory_write_def memory_copy_def copy_turn_def Let_def jm.get_set
      neq_commute)

lemma sample_schedule_copies:
  "all_copied (overlap_turns sample_host 4 reg sample_schedule
    (sample_overlap h (MakingFolder out sample_files) (MakingFolder out' sample_files)))"
proof -
  obtain s1 t1 s2 t2 where copies: "copies_for sample_host sample_input sample_files = [(s1, t1), (s2, t2)]"
    and sources: "lp_fullPath s1 = js ''/lapol/deps-lapol/lapol_default_article.cls''"
      "lp_fullPath s2 = js ''/lapol/deps-lapol/lapol_default.sty''"
    and targets: "lp_fullPath t1 = js ''/out/deps/lapol_default_article.cls''"
      "lp_fullPath t2 = js ''/out/deps/lapol_default.sty''"
    using sample_copies_for(1) by (auto simp: map_eq_Cons_conv)
  have fs: "ho_fs sample_host = memory_fs (\<lambda>_. False)" by (simp add: sample_host_def)
  have "copies_of (ho_paths sample_host) (ci_outputFolder second_input) sample_files = [(s1, t1), (s2, t2)]"
    and "copies_of (ho_paths sample_host) (ci_outputFolder sample_input) sample_files = [(s1, t1), (s2, t2)]"
    using copies sample_copies_for(2) by (simp_all add: copies_for_def)
  moreover have "jmap_get sample_disk (js ''/lapol/deps-lapol/lapol_default_article.cls'') = Some [1]"
    "jmap_get sample_disk (js ''/lapol/deps-lapol/lapol_default.sty'') = Some [2]"
    by code_simp+
  moreover have "distinct [js ''/out/a.tex'', js ''/out/b.tex'',
      js ''/lapol/deps-lapol/lapol_default_article.cls'', js ''/lapol/deps-lapol/lapol_default.sty'',
      js ''/out/deps/lapol_default_article.cls'', js ''/out/deps/lapol_default.sty'']"
    by code_simp
  ultimately show ?thesis
    using sources targets sample_paths(3,4) fs
    by (intro two_jobs_copy [where ?s1.0 = s1 and ?s2.0 = s2 and ?t1.0 = t1 and ?t2.0 = t2]) simp_all
qed

lemma sample_overlap_run:
  "\<exists>st. (overlap_step sample_host 4 (std_registry [latex]))\<^sup>*\<^sup>*
      (start_jobs (std_heap [latex]) sample_disk sample_jobs) st \<and> all_copied st"
proof -
  let ?reg = "std_registry [latex]" and ?h = "std_heap [latex]"
  obtain h1 h2 where evals: "compile_text sample_host 4 ?reg sample_input [97] ?h =
      Some (Inr ((sample_compiled, sample_files), h1))"
    "compile_text sample_host 4 ?reg second_input [97] h1 = Some (Inr ((sample_compiled, sample_files), h2))"
    by (rule sample_evaluations)
  have "overlap_turns sample_host 4 ?reg ([(0, 0), (1, 0), (0, 0), (1, 0)] @ sample_schedule)
      (start_jobs ?h sample_disk sample_jobs) =
    overlap_turns sample_host 4 ?reg sample_schedule
      (sample_overlap h2 (MakingFolder sample_compiled sample_files) (MakingFolder sample_compiled sample_files))"
    by (simp add: overlap_turn_eq start_jobs_def sample_reads evals sample_overlap_def)
  with sample_schedule_copies overlap_turns_steps show ?thesis by metis
qed

text \<open>The compiler with the standard modules, and the run of two jobs of it.\<close>

lemma sample_overlapping:
  obtains cc s st where "build (std_builder sample_folder [latex]) [] = (Inr cc, s)"
    and "lc_registry cc = std_registry [latex]" and "ls_heap s = std_heap [latex]"
    and "(overlap_step sample_host 4 (lc_registry cc))\<^sup>*\<^sup>* (start_jobs (ls_heap s) sample_disk sample_jobs) st"
    and "all_copied st" and "map jb_input (ol_jobs st) = sample_jobs"
proof -
  obtain cc s where run: "build (std_builder sample_folder [latex]) [] = (Inr cc, s)"
    and cc: "cc = \<lparr>lc_registry = std_registry [latex], lc_outputFolder = sample_folder\<rparr>"
    and heap: "ls_heap s = std_heap [latex]"
    using std_build [of sample_folder "[latex]"] by (auto simp: sample_b_targets)
  from sample_overlap_run obtain st where reach: "(overlap_step sample_host 4 (std_registry [latex]))\<^sup>*\<^sup>*
      (start_jobs (std_heap [latex]) sample_disk sample_jobs) st" and copied: "all_copied st"
    by blast
  show thesis
    by (rule that [OF run _ heap _ copied]) (use reach overlap_inputs [OF reach] in \<open>simp_all add: cc heap\<close>)
qed

section \<open>Witnesses\<close>

theorem overlapping_code_as_alone_witness:
  "\<exists>cc s st out files h. build (std_builder sample_folder [latex]) [] = (Inr cc, s) \<and>
    (overlap_step sample_host 4 (lc_registry cc))\<^sup>*\<^sup>* (start_jobs (ls_heap s) sample_disk sample_jobs) st \<and>
    job_outcome (jb_phase (ol_jobs st ! 1)) = Some (Inr out) \<and>
    compile_text sample_host 4 (lc_registry cc) second_input (co_dbgInputText out) (ls_heap s) =
      Some (Inr ((out, files), h))"
proof -
  obtain cc s st where run: "build (std_builder sample_folder [latex]) [] = (Inr cc, s)"
    and reach: "(overlap_step sample_host 4 (lc_registry cc))\<^sup>*\<^sup>*
      (start_jobs (ls_heap s) sample_disk sample_jobs) st"
    and copied: "all_copied st" and inputs: "map jb_input (ol_jobs st) = sample_jobs"
    by (rule sample_overlapping)
  from inputs have "1 < length (ol_jobs st)" by (metis length_map One_nat_def length_Cons lessI list.size(3))
  with copied obtain out where "job_outcome (jb_phase (ol_jobs st ! 1)) = Some (Inr out)"
    and made: "job_output (jb_phase (ol_jobs st ! 1)) = Some out"
    by (rule all_copied_done)
  moreover have "heap_ok []" by (simp add: heap_ok_def)
  from overlapping_code_as_alone [OF sample_host_returns this run reach _ made]
  have "\<exists>files h. compile_text sample_host 4 (lc_registry cc) second_input (co_dbgInputText out)
      (ls_heap s) = Some (Inr ((out, files), h))" by simp
  ultimately show ?thesis using run reach by blast
qed

lemma sample_fs: "ho_fs sample_host = memory_fs (\<lambda>_. False)"
  by (simp add: sample_host_def)

theorem overlapping_renderings_on_disk_witness:
  "\<exists>cc s st. build (std_builder sample_folder [latex]) [] = (Inr cc, s) \<and>
    (overlap_step sample_host 4 (lc_registry cc))\<^sup>*\<^sup>* (start_jobs (ls_heap s) sample_disk sample_jobs) st \<and>
    jmap_get (ol_world st) (js ''/out/b.tex'') = Some (memory_encode sample_code)"
proof -
  obtain cc s st where run: "build (std_builder sample_folder [latex]) [] = (Inr cc, s)"
    and cc: "lc_registry cc = std_registry [latex]" and heap: "ls_heap s = std_heap [latex]"
    and reach: "(overlap_step sample_host 4 (lc_registry cc))\<^sup>*\<^sup>*
      (start_jobs (ls_heap s) sample_disk sample_jobs) st"
    and copied: "all_copied st" and inputs: "map jb_input (ol_jobs st) = sample_jobs"
    by (rule sample_overlapping)
  have "heap_ok []" by (simp add: heap_ok_def)
  have harmony: "harmonious
      (all_writes sample_host 4 (lc_registry cc) memory_encode (ls_heap s) (jmap_get sample_disk) sample_jobs)
      (all_reads sample_host 4 (lc_registry cc) (ls_heap s) (jmap_get sample_disk) sample_jobs)"
    using sample_harmonious cc heap by simp
  from overlapping_renderings_on_disk [of sample_host, OF sample_host_returns \<open>heap_ok []\<close> run
      memory_documented [of "\<lambda>_. False", folded sample_fs] harmony reach all_copied_resolved [OF copied],
      THEN conjunct1, rule_format, of second_input]
  obtain out files where plan: "plan_of sample_host 4 (std_registry [latex]) (std_heap [latex])
          (jmap_get sample_disk) second_input = Some (out, files)"
    and "jmap_get (ol_world st) (output_path second_input) = Some (memory_encode (co_dbgOutputted out))"
    by (auto simp: cc heap)
  with sample_plan [of second_input]
  have "jmap_get (ol_world st) (js ''/out/b.tex'') = Some (memory_encode sample_code)"
    by (simp add: sample_paths) (simp add: sample_compiled_def)
  with run reach show ?thesis by blast
qed

lemma sample_compiles:
  assumes "c \<in> set sample_jobs"
  shows "compile_text sample_host 4 (std_registry [latex]) c buf (std_heap [latex]) \<noteq> None"
proof -
  have parse: "ho_parse_file sample_host p b = Inr sample_doc" for p b by (simp add: sample_host_def)
  obtain h where "compile_text sample_host 4 (std_registry [latex]) sample_input [97] (std_heap [latex]) =
      Some (Inr ((sample_compiled, sample_files), h))"
    using sample_compilation ..
  then have "compile_text sample_host 4 (std_registry [latex]) sample_input buf (std_heap [latex]) =
      Some (Inr ((sample_compiled\<lparr>co_dbgInputText := buf\<rparr>, sample_files), h))"
    unfolding compile_text_Inr by (simp add: parse) blast
  with assms show ?thesis by (auto simp: second_compile_text)
qed

theorem overlapping_renderings_settle_witness:
  "\<exists>cc s k x. build (std_builder sample_folder [latex]) [] = (Inr cc, s) \<and>
    job_turn sample_host 4 (lc_registry cc) second_input k Reading (ls_heap s) sample_disk = Some x"
proof -
  obtain cc s where run: "build (std_builder sample_folder [latex]) [] = (Inr cc, s)"
    and cc: "lc_registry cc = std_registry [latex]" and heap: "ls_heap s = std_heap [latex]"
    by (rule sample_overlapping)
  have "heap_ok []" by (simp add: heap_ok_def)
  from overlapping_renderings_settle [OF sample_host_returns this run _ rtranclp.rtrancl_refl,
      of sample_jobs 4 sample_disk] sample_compiles cc heap
  have "\<forall>i < length sample_jobs. \<exists>k x. job_turn sample_host 4 (lc_registry cc) (sample_jobs ! i) k Reading
      (ls_heap s) sample_disk = Some x" by auto
  from this [rule_format, of 1] run show ?thesis by auto
qed

end
