(* ===== verification/SamplePage.thy ===== *)
theory SamplePage
  imports ShownText
begin

text \<open>
  A document with a title compiled to html with the standard modules: the concrete input on which the
  theorems about the text of a page are applied.
\<close>

section \<open>The document\<close>

definition page_setup :: "ast_node list" where
  "page_setup = [
     AstCommandNode (js ''__require'') None [[AstTextNode (js ''std::main'') sample_meta]] sample_meta,
     AstCommandNode (js ''__using_all'')
       (Some [ArgKeyVal [EntryIdent (js ''from''), EntryIdent (js ''std::main'')]]) [] sample_meta]"

definition page_settings :: "ast_node list" where
  "page_settings = [
     AstCommandNode (js ''title'') None [[AstTextNode (js ''S'') sample_meta]] sample_meta,
     AstCommandNode (js ''title'') None [[AstTextNode (js ''T'') sample_meta]] sample_meta,
     AstTextNode newline sample_meta]"

definition page_doc :: ast_node where
  "page_doc = AstCommandNode (js ''__doc'') None [[
     AstCommandNode (js ''maketitle'') None [] sample_meta,
     AstTextNode (js ''a<b'') sample_meta, AstTextNode newline sample_meta, AstTextNode (js ''d'') sample_meta,
     AstCommandNode (js ''bf'') None [[AstTextNode (js ''c'') sample_meta]] sample_meta]] sample_meta"

definition page_blanks :: "ast_node list" where
  "page_blanks = [AstTextNode newline sample_meta]"

definition page_source :: ast_node where
  "page_source = AstRootNode (page_setup @ page_settings @ page_doc # page_blanks) sample_meta"

definition page_tree :: ltrf_node where
  "page_tree = LtrfNode (js ''__doc'') [] [Nd (LtrfNode title_tag block_kv []), LtrfStr (js ''a<b''),
     LtrfStr newline, LtrfStr (js ''d''), Nd (LtrfNode (js ''bold'') [] [LtrfStr (js ''c'')])]"

definition page_storage :: module_storage where
  "page_storage = jmap_set main_name (main_instance\<lparr>store_title := Some [LtrfStr (js ''T'')]\<rparr>)
     (make_FileContext (std_registry [html]))"

definition setup_evaluates :: "jstr list \<Rightarrow> bool" where
  "setup_evaluates ts =
     (case makeEnvironmentWithStdCoreSetup sample_user (std_registry ts) (std_heap ts)
         (make_FileContext (std_registry ts)) of
        Inl _ \<Rightarrow> False
      | Inr (c, s0) \<Rightarrow>
          (case evaluateNodes c page_setup (s0\<lparr>ev_console := ev_console s0 @
              warnUserOfIssuesWithRootNode (page_setup @ page_settings @ page_doc # page_blanks)\<rparr>) of
             Some (Inr (hs, s)) \<Rightarrow> hs = [] \<and> ev_storage s = make_FileContext (std_registry ts) \<and>
               names_in (ev_heap s) (ctx_root c) (js ''title'') = Some (JsFnCommand (js ''title'') TitleFn) \<and>
               tree_of (names_in (ev_heap s) (ctx_root c)) page_doc = Some (Nd page_tree)
           | _ \<Rightarrow> False))"

declare using_all_loop.simps [code]

lemma evaluatedD:
  "(case x of Inl e \<Rightarrow> False | Inr (c, s) \<Rightarrow> P c s) \<Longrightarrow> \<exists>c s. x = Inr (c, s) \<and> P c s"
  by (cases x) auto

lemma returnedD:
  assumes "case m of Some (Inr (y, s)) \<Rightarrow> Q y s | _ \<Rightarrow> False"
  shows "\<exists>y s. m = Some (Inr (y, s)) \<and> Q y s"
proof (cases m)
  case (Some r)
  with assms show ?thesis by (cases r) auto
qed (use assms in simp)

lemma setup_evaluatesD:
  assumes "setup_evaluates ts"
  obtains e s0 s where "makeEnvironmentWithStdCoreSetup sample_user (std_registry ts) (std_heap ts)
      (make_FileContext (std_registry ts)) = Inr (e, s0)"
    and "evaluateNodes e page_setup (s0\<lparr>ev_console := ev_console s0 @
      warnUserOfIssuesWithRootNode (page_setup @ page_settings @ page_doc # page_blanks)\<rparr>) = Some (Inr ([], s))"
    and "ev_storage s = make_FileContext (std_registry ts)"
    and "names_in (ev_heap s) (ctx_root e) (js ''title'') = Some (JsFnCommand (js ''title'') TitleFn)"
    and "tree_of (names_in (ev_heap s) (ctx_root e)) page_doc = Some (Nd page_tree)"
proof -
  from evaluatedD [OF assms [unfolded setup_evaluates_def]] obtain e s0 where
    env: "makeEnvironmentWithStdCoreSetup sample_user (std_registry ts) (std_heap ts)
      (make_FileContext (std_registry ts)) = Inr (e, s0)"
    and rest: "case evaluateNodes e page_setup (s0\<lparr>ev_console := ev_console s0 @
        warnUserOfIssuesWithRootNode (page_setup @ page_settings @ page_doc # page_blanks)\<rparr>) of
      Some (Inr (hs, s)) \<Rightarrow> hs = [] \<and> ev_storage s = make_FileContext (std_registry ts) \<and>
        names_in (ev_heap s) (ctx_root e) (js ''title'') = Some (JsFnCommand (js ''title'') TitleFn) \<and>
        tree_of (names_in (ev_heap s) (ctx_root e)) page_doc = Some (Nd page_tree)
    | _ \<Rightarrow> False"
    by blast
  from returnedD [OF rest] that [OF env] show thesis by blast
qed

lemma setup_evaluation: "setup_evaluates [html]"
  by code_simp

text \<open>The header after the setup: the last title that it sets stays.\<close>

lemma page_store: "jmap_get (make_FileContext (std_registry [html])) main_name = Some main_instance"
  by code_simp

lemma settings_evaluation:
  assumes "names_in (ev_heap s) (ctx_root e) (js ''title'') = Some (JsFnCommand (js ''title'') TitleFn)"
    and "ev_storage s = make_FileContext (std_registry [html])"
  shows "evaluateNodes e page_settings s = Some (Inr (map LtrfStr [newline], s\<lparr>ev_storage := page_storage\<rparr>))"
    and "list_all (setting (names_in (ev_heap s) (ctx_root e))) page_settings"
    and "source_title (names_in (ev_heap s) (ctx_root e)) page_settings = [js ''T'']"
proof -
  from assms(1) have cmd: "lookupCommand (ev_heap s) (ctx_root e) (js ''title'') = Inr (JsFnCommand (js ''title'') TitleFn)"
    by simp
  show "evaluateNodes e page_settings s = Some (Inr (map LtrfStr [newline], s\<lparr>ev_storage := page_storage\<rparr>))"
    using assms(2) page_store
    by (simp add: page_settings_def evaluateCommandNode.simps evaluateTextNode_def ask_heap_def act_bind_def
        act_simps cmd on_storage_def call_js_fn_def set_main_fn_def getFileModuleStorage_def caOrErr_eq
        page_storage_def jm.get_set)
  show "list_all (setting (names_in (ev_heap s) (ctx_root e))) page_settings"
    using assms(1) by (simp add: page_settings_def untitled_text_def untitled_def del: names_in_Some)
  show "source_title (names_in (ev_heap s) (ctx_root e)) page_settings = [js ''T'']"
    using assms(1) by (simp add: page_settings_def source_title_def strings_of_source_def del: names_in_Some)
qed

definition page_evaluated :: ltrf_node where
  "page_evaluated = LtrfNode (js ''__root'') [] [LtrfStr newline, Nd page_tree, LtrfStr newline]"

definition page_processed :: ltrf_node where
  "page_processed = LtrfNode (js ''__root'') [] [Nd (LtrfNode (js ''__doc'') []
     [Nd (LtrfNode title_tag block_kv []), LtrfStr (js ''a<b''), LtrfStr space, LtrfStr (js ''d''),
      Nd (LtrfNode (js ''bold'') [] [LtrfStr (js ''c'')])])]"

lemma page_processing: "processPass page_evaluated = Inr page_processed"
  by code_simp

definition page_host :: "memory host" where
  "page_host = \<lparr>ho_fs = memory_fs (\<lambda>_. False), ho_parse_file = (\<lambda>_ _. Inr page_source),
     ho_user = sample_user, ho_outputters = no_user_outputters, ho_paths = sample_libs,
     ho_lapolFolder = Some (new_LaPath sample_libs (js ''/lapol'') None), ho_heEncode = sample_encode\<rparr>"

definition page_code :: jstr where
  "page_code = js ''<html><head><meta charset=\"utf-8\"><link rel=\"stylesheet\" href=\"deps/hello-css-all.css\"><link rel=\"stylesheet\" href=\"deps/lapol-default.css\"></head><body><article class=\"page\"><div ><header><h1 class=\"title\">T</h1><p class=\"subtitle\"></p></header>ab d<b >c</b></div></article></body></html>''"

lemma page_output:
  "case outputPass 5 (output_ctx page_host (std_registry [html]) html HtmlStringOutputter)
      page_processed \<lparr>os_lazyNodeOutputters = [], os_files = [], os_storage = page_storage\<rparr> of
     Some (Inr (code, s)) \<Rightarrow> code = page_code
   | _ \<Rightarrow> False"
  by code_simp

section \<open>Its compilation\<close>

definition page_input :: compile_input where
  "page_input = compile_input_for sample_libs (new_LaPath sample_libs (js ''/a.lap'') None)
     sample_folder (js ''a.html'') html"

definition page_compiled :: compile_output where
  "page_compiled = \<lparr>co_dbgInputText = [97], co_dbgParsed = page_source, co_dbgEvaluated = Nd page_evaluated,
     co_dbgProcessed = page_processed, co_dbgOutputted = page_code\<rparr>"

lemmas page_setup_run = setup_evaluatesD [OF setup_evaluation]

lemma page_evaluation:
  obtains s where "evaluatePass sample_user (std_registry [html]) (std_heap [html])
      (make_FileContext (std_registry [html])) page_source = Some (Inr (Nd page_evaluated, s))"
    and "ev_storage s = page_storage"
proof -
  obtain e s0 s where env: "makeEnvironmentWithStdCoreSetup sample_user (std_registry [html]) (std_heap [html])
      (make_FileContext (std_registry [html])) = Inr (e, s0)"
    and start: "evaluateNodes e page_setup (s0\<lparr>ev_console := ev_console s0 @
      warnUserOfIssuesWithRootNode (page_setup @ page_settings @ page_doc # page_blanks)\<rparr>) = Some (Inr ([], s))"
    and storage: "ev_storage s = make_FileContext (std_registry [html])"
    and title: "names_in (ev_heap s) (ctx_root e) (js ''title'') = Some (JsFnCommand (js ''title'') TitleFn)"
    and tree: "tree_of (names_in (ev_heap s) (ctx_root e)) page_doc = Some (Nd page_tree)"
    by (rule page_setup_run)
  let ?s = "s\<lparr>ev_storage := page_storage\<rparr>"
  have blanks: "evaluateNodes e page_blanks ?s = Some (Inr ([LtrfStr newline], ?s))"
    by (simp add: page_blanks_def evaluateTextNode_def act_bind_def act_simps)
  from tree have tree': "tree_of (names_in (ev_heap ?s) (ctx_root e)) page_doc = Some (Nd page_tree)" by simp
  show thesis
    using that [of ?s] evaluate_file [OF env start settings_evaluation(1) [OF title storage] tree' blanks, of sample_meta]
    by (simp add: page_source_def page_evaluated_def)
qed

lemma page_compilation:
  "\<exists>files h. compile_text page_host 5 (std_registry [html]) page_input [97] (std_heap [html]) =
    Some (Inr ((page_compiled, files), h))"
proof -
  obtain s where "evaluatePass sample_user (std_registry [html]) (std_heap [html])
      (make_FileContext (std_registry [html])) page_source = Some (Inr (Nd page_evaluated, s))"
    and storage: "ev_storage s = page_storage"
    by (rule page_evaluation)
  moreover from page_output obtain os where "outputPass 5 (output_ctx page_host (std_registry [html]) html
      HtmlStringOutputter) page_processed \<lparr>os_lazyNodeOutputters = [], os_files = [],
        os_storage = page_storage\<rparr> = Some (Inr (page_code, os))"
    by (auto split: option.splits sum.splits)
  moreover have "makeOutputDispatcher (std_registry [html]) html = Inr ([], HtmlStringOutputter)"
    using std_retrieve(2) [of html "[html]"] by (simp add: makeOutputDispatcher_def std_strings_of_def)
  ultimately have "compile_text page_host 5 (std_registry [html]) page_input [97] (std_heap [html]) =
      Some (Inr ((page_compiled, os_files os), ev_heap s))"
    by (intro compile_text_Inr [THEN iffD2])
      (auto simp: page_host_def page_source_def page_input_def compile_input_for_def page_compiled_def
        page_processing)
  then show ?thesis by blast
qed

section \<open>Witnesses\<close>

lemma page_ready: "std_ready [html] (std_heap [html])"
  using std_ready_start [of "[html]"]
  by (simp add: withTargets_def withModule_def new_LapolCompilerBuilder_def)

lemma page_encode: "\<forall>s t. ho_heEncode page_host s = Inr t \<longrightarrow> plain_text t"
  by (auto simp: page_host_def sample_encode_def plain_text_def)

lemma page_target: "html \<in> set [html]" "ci_targetLanguage page_input = html"
  by (simp_all add: page_input_def compile_input_for_def)

lemma page_title: "title_elems page_storage = [LtrfStr (js ''T'')]"
  by (simp add: title_elems_def page_storage_def jm.get_set main_instance_def)

theorem html_shows_document_witness:
  "\<exists>ss es. list_all2 (\<lambda>s e. ho_heEncode page_host s = Inr e) ss es \<and>
    visible page_code = concat es \<and> words ss = [js ''T'', js ''a<b'', js ''d'', js ''c'']"
proof -
  obtain files h where run: "compile_text page_host 5 (std_registry [html]) page_input [97]
      (std_heap [html]) = Some (Inr ((page_compiled, files), h))"
    using page_compilation by blast
  obtain s where eval: "evaluatePass sample_user (std_registry [html]) (std_heap [html])
      (make_FileContext (std_registry [html])) page_source = Some (Inr (Nd page_evaluated, s))"
    and storage: "ev_storage s = page_storage"
    by (rule page_evaluation)
  have "evaluatePass (ho_user page_host) (std_registry [html]) (std_heap [html])
      (make_FileContext (std_registry [html])) (co_dbgParsed page_compiled) = Some (Inr (Nd page_evaluated, s))"
    using eval by (simp add: page_host_def page_compiled_def)
  note html_shows_document [OF page_ready page_target page_encode run this]
  moreover have "untitled (title_elems (ev_storage s))"
    by (simp add: storage page_title untitled_def)
  moreover have "words (strings_of [js ''T''] page_evaluated) = [js ''T'', js ''a<b'', js ''d'', js ''c'']"
    by code_simp
  ultimately show ?thesis
    by (simp add: title_strings_def storage page_title page_compiled_def)
qed

lemma page_line: "reads_line (js ''a<b'') (js ''d'') page_doc"
  unfolding page_doc_def
  by (rule line_here [where us = "[AstCommandNode (js ''maketitle'') None [] sample_meta]"]) simp_all

theorem html_shows_source_witness:
  "\<exists>ss es. list_all2 (\<lambda>s e. ho_heEncode page_host s = Inr e) ss es \<and>
    visible page_code = concat es \<and> words ss = [js ''T'', js ''a<b'', js ''d'', js ''c''] \<and>
    sublist [js ''a<b'', space, js ''d''] ss"
proof -
  obtain files h where run: "compile_text page_host 5 (std_registry [html]) page_input [97]
      (std_heap [html]) = Some (Inr ((page_compiled, files), h))"
    using page_compilation by blast
  obtain e s0 s where env: "makeEnvironmentWithStdCoreSetup sample_user (std_registry [html]) (std_heap [html])
      (make_FileContext (std_registry [html])) = Inr (e, s0)"
    and start: "evaluateNodes e page_setup (s0\<lparr>ev_console := ev_console s0 @
      warnUserOfIssuesWithRootNode (page_setup @ page_settings @ page_doc # page_blanks)\<rparr>) = Some (Inr ([], s))"
    and storage: "ev_storage s = make_FileContext (std_registry [html])"
    and title: "names_in (ev_heap s) (ctx_root e) (js ''title'') = Some (JsFnCommand (js ''title'') TitleFn)"
    and tree: "tree_of (names_in (ev_heap s) (ctx_root e)) page_doc = Some (Nd page_tree)"
    by (rule page_setup_run)
  note settings = settings_evaluation(2,3) [OF title storage]
  have none: "title_elems (ev_storage s) = []"
    by (simp add: storage title_elems_def page_store main_instance_def)
  have "\<exists>ss es. list_all2 (\<lambda>s e. ho_heEncode page_host s = Inr e) ss es \<and>
      visible (co_dbgOutputted page_compiled) = concat es \<and>
      words ss = words (source_strings (names_in (ev_heap s) (ctx_root e))
        (source_title (names_in (ev_heap s) (ctx_root e)) page_settings) page_doc) \<and>
      (\<forall>a b. reads_line a b page_doc \<and> \<not> isWhitespace a \<and> \<not> isWhitespace b \<longrightarrow> sublist [a, space, b] ss)"
    by (rule html_shows_source [OF page_ready page_target page_encode run _ _ start _ none refl settings(1) tree])
      (use env in \<open>simp_all add: page_compiled_def page_source_def page_host_def page_blanks_def is_blank_text_def\<close>)
  then obtain ss es where shown: "list_all2 (\<lambda>s e. ho_heEncode page_host s = Inr e) ss es"
    "visible page_code = concat es"
    and read: "words ss = words (strings_in [js ''T''] [Nd page_tree])"
    and line: "\<And>a b. reads_line a b page_doc \<Longrightarrow> \<not> isWhitespace a \<Longrightarrow> \<not> isWhitespace b \<Longrightarrow> sublist [a, space, b] ss"
    using tree_of_strings [OF tree, of "[js ''T'']"] unfolding settings(2) by (auto simp: page_compiled_def)
  have "words (strings_in [js ''T''] [Nd page_tree]) = [js ''T'', js ''a<b'', js ''d'', js ''c'']"
    and "\<not> isWhitespace (js ''a<b'')" and "\<not> isWhitespace (js ''d'')"
    by code_simp+
  with shown read line [OF page_line] show ?thesis by metis
qed

theorem markup_evaluates_witness:
  "\<exists>e s0 s. makeEnvironmentWithStdCoreSetup sample_user (std_registry [html]) (std_heap [html])
      (make_FileContext (std_registry [html])) = Inr (e, s0) \<and>
    evaluateNodes e page_setup (s0\<lparr>ev_console := ev_console s0 @
      warnUserOfIssuesWithRootNode (page_setup @ page_settings @ page_doc # page_blanks)\<rparr>) = Some (Inr ([], s)) \<and>
    evaluateNodes e [page_doc] s = Some (Inr ([Nd page_tree], s))"
proof -
  obtain e s0 s where env: "makeEnvironmentWithStdCoreSetup sample_user (std_registry [html]) (std_heap [html])
      (make_FileContext (std_registry [html])) = Inr (e, s0)"
    and start: "evaluateNodes e page_setup (s0\<lparr>ev_console := ev_console s0 @
      warnUserOfIssuesWithRootNode (page_setup @ page_settings @ page_doc # page_blanks)\<rparr>) = Some (Inr ([], s))"
    and tree: "tree_of (names_in (ev_heap s) (ctx_root e)) page_doc = Some (Nd page_tree)"
    by (rule page_setup_run)
  from tree have "those (map (tree_of (names_in (ev_heap s) (ctx_root e))) [page_doc]) = Some [Nd page_tree]"
    by simp
  from env start markup_evaluates [OF this] show ?thesis by blast
qed

end
