(* ===== verification/Spec2Isabelle.thy ===== *)
theory Spec2Isabelle
  imports Ast CoreCommands Processing Evaluation Paths Dispatch Output Loading StdModules LoadOrder SecondBuild
    StdOutput HtmlOutput LatexOutput Files EntryPoint Compile History Overlap OverlapDisk StdDocuments
    StdRendering TitleOutput Markup DocumentText Numbering Lines HtmlText ShownText SampleDocument SampleOverlap SamplePage
begin

text \<open>
  LaPoL, a document preparation language: its compiler, \<^verbatim>\<open>src/lapol-core/src\<close>, written in
  TypeScript.

  \<^bold>\<open>The program.\<close>  A user builds a compiler with \<^verbatim>\<open>LapolCompilerBuilder\<close>, which loads modules; a
  module is a JavaScript function that declares commands, outputters and submodules to a loader.
  The compiler then renders files.  Rendering parses the file (in Rust, outside this
  development), evaluates the syntax tree, which runs commands and yields an LTRF tree,
  processes that tree in four passes, outputs it to a string through functions found by the tag
  of each node, writes the string and copies the files that the output requires.

  \<^bold>\<open>Conventions.\<close>  A JavaScript string is a list of UTF-16 code units (\<open>jstr\<close>, \<open>16 word list\<close>),
  \<open>js\<close> turns a literal into one.  A \<^verbatim>\<open>Map\<close> is an association list that keeps the insertion order
  (\<open>jmap\<close>).  A function that may throw returns \<open>js_error + 'a\<close> (\<open>result\<close>), one that also changes
  state and calls functions that need not return has type \<open>('s, 'a) act\<close>, where \<open>None\<close> is a call
  that never returns.  Objects that are shared and mutated (namespaces, the arrays of loaded
  names) live in a store, addressed by position.  Functions of users' modules are parameters,
  referred to by number.

  \<^bold>\<open>Theories and sources\<close> (paths are relative to \<^verbatim>\<open>src/lapol-core/src/internal\<close> unless they start
  with \<^verbatim>\<open>std\<close>), in the order of their dependencies:

  \<^item> \<open>LapolPrelude\<close>: strings, errors, the two kinds of computation with their simplification
    rules, the locale \<open>effect_frame\<close> (computations that keep an invariant and relate the states
    before and after; with the triples \<open>safe\<close>, \<open>yields\<close>, \<open>may\<close> and \<open>meets\<close>, from partial to total) and the
    locale \<open>js_map\<close>, the laws of \<^verbatim>\<open>Map\<close>.
  \<^item> \<open>Ltrf\<close> (\<^verbatim>\<open>ltrf/ltrf.ts\<close>): the immutable tree and its operations; \<open>all_nodes\<close> quantifies over
    a tree.
  \<^item> \<open>Identifiers\<close> (\<^verbatim>\<open>identifier.ts\<close>): the parser of names, when it throws, its inverse.
  \<^item> \<open>Commands\<close> (\<^verbatim>\<open>command/*.ts\<close>): arguments, commands made of JavaScript functions, the check of
    what they return, and the functions that the standard modules export.
  \<^item> \<open>Namespaces\<close> (\<^verbatim>\<open>namespace.ts\<close>): the store of namespaces and lookup in it.  \<open>heap_ok\<close> is its
    invariant; the locale \<open>heap_mutator\<close>, interpreted on each of the six mutators, says that they
    keep it and never change the meaning of a name.
  \<^item> \<open>Ast\<close> (\<^verbatim>\<open>ast.ts\<close>, \<^verbatim>\<open>evaluate/root.ts\<close>): the syntax tree and the warnings about its root.
  \<^item> \<open>Modules\<close> (\<^verbatim>\<open>registry/registry.ts\<close>, \<^verbatim>\<open>module/module.ts\<close>, \<^verbatim>\<open>context/fileContext.ts\<close>): the drawer of
    modules, module objects, the storage of a file.
  \<^item> \<open>CoreCommands\<close> (\<^verbatim>\<open>evaluate/environment.ts\<close>, \<^verbatim>\<open>evaluate/setup.ts\<close>, \<^verbatim>\<open>std/core.ts\<close>): the
    environment of a file and the commands \<^verbatim>\<open>__require\<close>, \<^verbatim>\<open>__using\<close>, \<^verbatim>\<open>__using_all\<close>.  The loop of
    \<^verbatim>\<open>__using_all\<close> runs over a \<^verbatim>\<open>Map\<close> while it may add to it; it is a \<open>partial_function\<close>, shown to end
    because a lookup never answers the root itself.
  \<^item> \<open>Evaluation\<close> (\<^verbatim>\<open>evaluate/evaluate.ts\<close>): the evaluator.
  \<^item> \<open>Linebreaks\<close>, \<open>Paragraphs\<close>, \<open>Processing\<close> (\<^verbatim>\<open>process/process.ts\<close>, \<^verbatim>\<open>process/passes/*.ts\<close>): the four
    passes, each loop with a specification it is proved equal to, and their composition.  The
    locale \<open>content_pass\<close>, interpreted on each pass, carries the refinement: the content of a
    document stays the same.
  \<^item> \<open>Paths\<close> (\<^verbatim>\<open>laPath.ts\<close>, \<^verbatim>\<open>globalInit.ts\<close>, \<^verbatim>\<open>out/outRequirements\<close>): paths over node's path libraries,
    with POSIX's own library as an instance, and the required files.
  \<^item> \<open>Dispatch\<close>, \<open>Output\<close> (\<^verbatim>\<open>out/*.ts\<close>, \<^verbatim>\<open>std/output/*.ts\<close>): the dispatcher with its cache, the
    standard outputters, and the output pass.
  \<^item> \<open>Loading\<close> (\<^verbatim>\<open>module/loader.ts\<close>, \<^verbatim>\<open>module/module.ts\<close>): the loader, declaring functions that may
    suspend at an \<^verbatim>\<open>await\<close>, and the tasks that finish loading.
  \<^item> \<open>StdModules\<close> (\<^verbatim>\<open>lapolCompiler.ts\<close>, \<^verbatim>\<open>std/*.ts\<close>): the declarations of the standard modules,
    the builder, and what it leaves in registry and store.
  \<^item> \<open>LoadOrder\<close> (\<^verbatim>\<open>lapolCompiler.ts\<close>, \<^verbatim>\<open>build\<close>): the tasks of loading in any order.
  \<^item> \<open>SecondBuild\<close> (\<^verbatim>\<open>lapolCompiler.ts\<close>, \<^verbatim>\<open>build\<close>): the second call on a builder.
  \<^item> \<open>StdOutput\<close>, \<open>HtmlOutput\<close>, \<open>LatexOutput\<close>: the outputter of each tag once the standard modules
    are loaded; html output is well nested, LaTeX output has matching braces.
  \<^item> \<open>Files\<close> (\<^verbatim>\<open>utils.ts\<close>, the copying in \<^verbatim>\<open>compile.ts\<close>): operations on files, and the concurrent
    copying as a step relation over tasks.
  \<^item> \<open>EntryPoint\<close> (\<^verbatim>\<open>src/main.ts\<close>): the initialisation of the process.
  \<^item> \<open>Compile\<close> (\<^verbatim>\<open>compile.ts\<close>, \<^verbatim>\<open>LapolCompiler.render\<close>): the composition of all of it, and the
    life of a compiler that renders many files, one after the other.
  \<^item> \<open>History\<close>: two runs of the evaluator on stores that agree on the modules only go the same way.
  \<^item> \<open>Overlap\<close>, \<open>OverlapDisk\<close> (\<^verbatim>\<open>compile.ts\<close> between its \<^verbatim>\<open>await\<close>s): renderings that overlap in time, as
    jobs that take turns in any order on the shared store of namespaces and the shared disk.  Alone,
    a job does what \<open>compile\<close> does (\<open>job_alone_is_compile\<close>).
  \<^item> \<open>StdDocuments\<close>, \<open>StdRendering\<close>, \<open>TitleOutput\<close>: documents that use the standard modules only, through
    all passes, and what becomes of those whose title prints the title.
  \<^item> \<open>Markup\<close> (\<^verbatim>\<open>evaluate/evaluate.ts\<close>, \<^verbatim>\<open>std/core.ts\<close>, \<^verbatim>\<open>std/main.ts\<close>): documents that mark up text only, and
    the translation \<open>tree_of\<close> that their evaluation equals.
  \<^item> \<open>DocumentText\<close>, \<open>HtmlText\<close>, \<open>ShownText\<close>: the strings of a document in reading order, the text of
    html code (\<open>visible\<close>: what does not stand between angle brackets), and that a page shows the strings of
    its document, pass by pass and then from the source, the title and the author included.
  \<^item> \<open>Numbering\<close>: the numbers that \<^verbatim>\<open>count\<close> puts into marked-up text, as a numbering of the tokens of the
    source in reading order.
  \<^item> \<open>Lines\<close>: a newline between two texts of the source, through the four passes, to the space that is read.
  \<^item> \<open>SampleDocument\<close>, \<open>SampleOverlap\<close>, \<open>SamplePage\<close>: documents compiled with everything concrete: one
    alone, one by two renderings that overlap, and a page with a title.

  \<^bold>\<open>What is shown.\<close>  For whole compilations: which standard documents render, and which error
  each of the others throws (\<open>std_document_renders\<close>); what the disk holds afterwards, where a copy that the
  file system refuses as busy is skipped, as in the source (\<open>compile_writes_output\<close>); and that what was rendered
  before cannot be observed (\<open>rendering_independent_of_history\<close>).  What the program is for is stated from end to
  end: an html page shows the strings of the source that are not blank, encoded, each once and in the order of the
  source, with the title and the author that the header sets, and a space for a newline between two texts
  (\<open>html_shows_source\<close> for marked-up text, \<open>html_shows_document\<close> for every document of the standard modules);
  and \<^verbatim>\<open>count\<close> numbers consecutively, however its uses are nested (\<open>count_numbers_consecutively\<close>).
  Renderings that overlap never change a loaded module, each
  outputs the code that it outputs alone (\<open>overlapping_code_as_alone\<close>), all of them settle
  (\<open>overlapping_renderings_settle\<close>), and if they never plan distinct contents for the same file, which is the
  condition that a comment in \<^verbatim>\<open>compile\<close> names, and write no file that one of them reads, the disk is in the end
  as after the same renderings one by one, with every file right (\<open>overlapping_renderings_on_disk\<close>).  There all
  renderings are to have resolved, and for a copy that was refused as busy (\<open>all_resolved\<close>) the refusal is to have
  changed nothing (\<open>busy_harmless\<close>) and another copy to the same file is to have been made.
  For each pass: evaluation returns or throws and touches one new namespace only, and on marked-up text it
  is a translation (\<open>markup_evaluates\<close>); processing
  keeps the content of a document, with its exact domain and the shape of its result; the output
  pass ends under a condition on the title that is shown to be needed, and its code is well
  formed.  For names: lookup never follows a dangling reference and resolved names are stable.
  For loading: in whatever order the promises settle that declaring functions await, loading ends
  with a consistent registry (\<open>loading_in_any_order\<close>), which is exactly known for the standard modules
  (\<open>std_modules_load\<close>); a submodule that waits is not waited for (\<open>submodule_not_awaited\<close>), and
  a second \<open>build\<close> fails (\<open>second_build_fails\<close>); an error in a submodule is lost, wherever it occurs
  (\<open>submodule_error_lost\<close>).
  For copying: every interleaving settles, with the same result on disk.

  \<^bold>\<open>Bounds.\<close>  The output pass recurses through functions that may call it on any object, so
  \<open>outputLtrfObj\<close> takes a bound on the depth of the calls.  The bound is monotone: a result that
  is reached stays the same under any greater one (\<open>fuel_more\<close>).  The height of the tree, plus
  that of title and author, plus two is enough (\<open>output_pass_ends\<close>, \<open>std_output\<close>).  A schedule of
  the copying is a list of task numbers; two turns for every task are enough (\<open>fair_settles\<close>).
  Evaluation needs no bound.  Strings are assumed shorter than JavaScript's limit and the call
  stack unbounded; numbers of \<^verbatim>\<open>count\<close> stop growing at \<open>2 ^ 53\<close> as they do in JavaScript.

  \<^bold>\<open>Parameters.\<close>  The parser \<^verbatim>\<open>lapol-rs\<close>, the function \<^verbatim>\<open>encode\<close> of the package \<^verbatim>\<open>he\<close>, node's modules
  \<^verbatim>\<open>path\<close> and \<^verbatim>\<open>fs\<close>, \<^verbatim>\<open>mkdirp\<close> and users' modules are arguments of the definitions that use them.  A
  function of a user's module depends on its arguments and on the storage of the file only: it does not use the
  context \<^verbatim>\<open>_lctx\<close>, the environment \<^verbatim>\<open>_env\<close> or the namespace \<^verbatim>\<open>_currNamespace\<close>, which \<^verbatim>\<open>CommandContext\<close> exposes to
  the core commands.  The instantiator of a module returns the same object for each file and does not throw.  A
  declaring function is a list of calls to its loader, each made always or for a target only: \<^verbatim>\<open>hasTarget\<close> is the one
  method of the loader whose answer it can branch on.  What
  the theorems assume of all these is named: \<open>fs_documented\<close>, \<open>user_code_returns\<close>,
  \<open>user_monotone\<close>, and the absence of angle brackets in what \<^verbatim>\<open>he\<close> encodes (\<open>plain_text\<close>).

  \<^bold>\<open>Not modelled.\<close>  The re-exports (\<^verbatim>\<open>mod.ts\<close>), debugging output and timing (\<^verbatim>\<open>dbg.ts\<close>,
  \<^verbatim>\<open>dbgStringify\<close>, \<^verbatim>\<open>console.log\<close> in \<^verbatim>\<open>compile.ts\<close>), the prototype that \<^verbatim>\<open>errors.ts\<close> sets, and the
  parser, which is Rust over a library of parser combinators and produces the tree that \<^verbatim>\<open>ast.ts\<close>
  describes.  When a compilation throws, the model drops the root namespace that it had added; nothing
  refers to it.  Calls of \<open>build\<close> on one builder do not overlap, and during a call no
  promise is pending that a declaring function awaits; in \<open>LoadOrder\<close> such promises settle at any
  time.  Each operation of the file system is one step: a file that is being written or copied is
  not seen half-way.
\<close>

end
